(* ===== verification/Prelude.thy ===== *)
theory Prelude
  imports Main "HOL-Library.Word"
begin

text \<open>
  Shared vocabulary of the development: bytes and Go strings, the big-endian integer
  accessors of \<^verbatim>\<open>encoding/binary\<close>, the pieces of \<^verbatim>\<open>strings\<close> the program uses, lemma
  collections, and the generic interfaces (locales) that more than one component implements.
\<close>

unbundle bit_operations_syntax

section \<open>Lemma collections\<close>

named_theorems codec_simps \<open>lengths and inverses of encoders\<close>
named_theorems frame_rules \<open>which fields an operation leaves unchanged\<close>

section \<open>Bytes, words and Go strings\<close>

type_synonym byte = "8 word"
type_synonym bytes = "byte list"

abbreviation u32_of :: "byte \<Rightarrow> 32 word" where
  "u32_of b \<equiv> ucast b"

abbreviation u64_of :: "byte \<Rightarrow> 64 word" where
  "u64_of b \<equiv> ucast b"

text \<open>A Go string is a byte sequence; \<open>string\<close> is a list of 8-bit characters.\<close>

definition byte_of_char :: "char \<Rightarrow> byte" where
  "byte_of_char c = of_char c"

definition str_bytes :: "string \<Rightarrow> bytes" where
  "str_bytes s = map byte_of_char s"

lemma length_str_bytes [simp, codec_simps]: "length (str_bytes s) = length s"
  by (simp add: str_bytes_def)

text \<open>\<^verbatim>\<open>binary.BigEndian.PutUint16/32/64\<close> and their readers.\<close>

definition put_u16 :: "16 word \<Rightarrow> bytes" where
  "put_u16 v = [ucast (drop_bit 8 v), ucast v]"

definition put_u32 :: "32 word \<Rightarrow> bytes" where
  "put_u32 v = [ucast (drop_bit 24 v), ucast (drop_bit 16 v), ucast (drop_bit 8 v), ucast v]"

definition put_u64 :: "64 word \<Rightarrow> bytes" where
  "put_u64 v =
     [ucast (drop_bit 56 v), ucast (drop_bit 48 v), ucast (drop_bit 40 v), ucast (drop_bit 32 v),
      ucast (drop_bit 24 v), ucast (drop_bit 16 v), ucast (drop_bit 8 v), ucast v]"

text \<open>
  A reader indexes a slice whose bounds the caller has fixed; only lists of the exact length
  are passed, and the last equation is never reached from the model.
\<close>

fun get_u16 :: "bytes \<Rightarrow> 16 word" where
  "get_u16 [a, b] = push_bit 8 (ucast a) OR ucast b"
| "get_u16 _ = 0"

fun get_u32 :: "bytes \<Rightarrow> 32 word" where
  "get_u32 [a, b, c, d] =
     push_bit 24 (ucast a) OR push_bit 16 (ucast b) OR push_bit 8 (ucast c) OR ucast d"
| "get_u32 _ = 0"

fun get_u64 :: "bytes \<Rightarrow> 64 word" where
  "get_u64 [a, b, c, d, e, f, g, h] =
     push_bit 56 (ucast a) OR push_bit 48 (ucast b) OR push_bit 40 (ucast c) OR
     push_bit 32 (ucast d) OR push_bit 24 (ucast e) OR push_bit 16 (ucast f) OR
     push_bit 8 (ucast g) OR ucast h"
| "get_u64 _ = 0"

lemma length_put [simp, codec_simps]:
  "length (put_u16 a) = 2" "length (put_u32 b) = 4" "length (put_u64 c) = 8"
  by (simp_all add: put_u16_def put_u32_def put_u64_def)

lemma get_put_u16 [simp, codec_simps]: "get_u16 (put_u16 v) = v"
  by (rule bit_word_eqI) (auto simp: put_u16_def bit_simps)

lemma get_put_u32 [simp, codec_simps]: "get_u32 (put_u32 v) = v"
proof (rule bit_word_eqI)
  fix n
  assume "n < LENGTH(32)"
  then have n: "n < 32" by simp
  then consider "n < 8" | "8 \<le> n" "n < 16" | "16 \<le> n" "n < 24" | "24 \<le> n" by linarith
  then show "bit (get_u32 (put_u32 v)) n = bit v n"
    by cases (use n in \<open>simp_all add: put_u32_def bit_simps less_diff_conv2\<close>)
qed

lemma get_put_u64 [simp, codec_simps]: "get_u64 (put_u64 v) = v"
proof (rule bit_word_eqI)
  fix n
  assume "n < LENGTH(64)"
  then have n: "n < 64" by simp
  then consider "n < 8" | "8 \<le> n" "n < 16" | "16 \<le> n" "n < 24" | "24 \<le> n" "n < 32"
    | "32 \<le> n" "n < 40" | "40 \<le> n" "n < 48" | "48 \<le> n" "n < 56" | "56 \<le> n" by linarith
  then show "bit (get_u64 (put_u64 v)) n = bit v n"
    by cases (use n in \<open>simp_all add: put_u64_def bit_simps less_diff_conv2\<close>)
qed

lemma put_get_u16: "length bs = 2 \<Longrightarrow> put_u16 (get_u16 bs) = bs"
proof -
  assume "length bs = 2"
  then obtain a b where bs: "bs = [a, b]" by (auto simp: length_Suc_conv eval_nat_numeral)
  show ?thesis
    by (auto simp: bs put_u16_def bit_eq_iff bit_simps dest: bit_imp_le_length)
qed

lemma put_get_u32: "length bs = 4 \<Longrightarrow> put_u32 (get_u32 bs) = bs"
proof -
  assume "length bs = 4"
  then obtain a b c d where bs: "bs = [a, b, c, d]" by (auto simp: length_Suc_conv eval_nat_numeral)
  show ?thesis
    by (auto simp: bs put_u32_def bit_eq_iff bit_simps dest: bit_imp_le_length)
qed

lemma put_get_u64: "length bs = 8 \<Longrightarrow> put_u64 (get_u64 bs) = bs"
proof -
  assume "length bs = 8"
  then obtain a b c d e f g h where bs: "bs = [a, b, c, d, e, f, g, h]"
    by (auto simp: length_Suc_conv eval_nat_numeral)
  show ?thesis
    by (auto simp: bs put_u64_def bit_eq_iff bit_simps dest: bit_imp_le_length)
qed

section \<open>Numbers that fit\<close>

lemma of_nat_len_le:
  fixes m :: "32 word"
  assumes "n \<le> unat m"
  shows "unat (of_nat n :: 32 word) = n" and "\<not> m < of_nat n"
proof -
  have n: "n < 2 ^ LENGTH(32)" using assms unsigned_less [of m, where ?'a = nat] by simp
  then show u: "unat (of_nat n :: 32 word) = n" by (simp add: unsigned_of_nat take_bit_nat_eq_self)
  show "\<not> m < of_nat n" using assms u by (simp add: word_less_nat_alt)
qed

lemma unat_Suc_less: "x < (y :: 32 word) \<Longrightarrow> unat (x + 1) = Suc (unat x)"
proof -
  assume lt: "x < y"
  have "1 + x \<noteq> 0"
  proof
    assume "1 + x = 0"
    then have "x = - 1" by (simp add: eq_neg_iff_add_eq_0 add.commute)
    with lt show False by simp
  qed
  then show ?thesis using unatSuc [of x] by (simp add: add.commute)
qed

section \<open>Lists updated in place\<close>

lemma nth_update_proj: "g y = g (xs ! i) \<Longrightarrow> g (xs[i := y] ! j) = g (xs ! j)"
  by (cases "i < length xs"; cases "i = j") (simp_all add: list_update_beyond)

lemma map_update_proj: "g y = g (xs ! i) \<Longrightarrow> map g (xs[i := y]) = map g xs"
  by (rule nth_equalityI) (simp_all add: nth_update_proj)

section \<open>Message streams\<close>

text \<open>
  \<open>recv_n r n s\<close> calls the reader \<open>r\<close> until it has \<open>n\<close> messages or an error, and
  returns the messages read so far, the error if there was one, and the final state.
\<close>

fun recv_n :: "('s \<Rightarrow> ('e + 'm) \<times> 's) \<Rightarrow> nat \<Rightarrow> 's \<Rightarrow> 'm list \<times> 'e option \<times> 's" where
  "recv_n r 0 s = ([], None, s)"
| "recv_n r (Suc n) s =
     (case r s of
        (Inl e, s') \<Rightarrow> ([], Some e, s')
      | (Inr m, s') \<Rightarrow> (case recv_n r n s' of (ms, e, s'') \<Rightarrow> (m # ms, e, s'')))"

text \<open>
  The interface between a message layer and the byte stream under it: \<open>holds s bs\<close> says that
  the stream in state \<open>s\<close> is open and its unread bytes are \<open>bs\<close>.
\<close>

locale framed_stream =
  fixes send :: "'m \<Rightarrow> bytes"
    and recv :: "'s \<Rightarrow> ('e + 'm) \<times> 's"
    and holds :: "'s \<Rightarrow> bytes \<Rightarrow> bool"
    and sendable :: "'m \<Rightarrow> bool"
  assumes recv_send:
      "\<lbrakk>sendable m; holds s (send m @ rest)\<rbrakk> \<Longrightarrow> \<exists>s'. recv s = (Inr m, s') \<and> holds s' rest"
    and holds_unique: "\<lbrakk>holds s bs; holds s bs'\<rbrakk> \<Longrightarrow> bs = bs'"
    and holds_any: "\<exists>s. holds s bs"
begin

lemma recv_all:
  assumes "list_all sendable ms" and "holds s (concat (map send ms) @ rest)"
  shows "\<exists>s'. recv_n recv (length ms) s = (ms, None, s') \<and> holds s' rest"
  using assms
proof (induction ms arbitrary: s)
  case Nil
  then show ?case by simp
next
  case (Cons m ms)
  then have "sendable m" and "holds s (send m @ (concat (map send ms) @ rest))" by simp_all
  then obtain s1 where s1: "recv s = (Inr m, s1)" "holds s1 (concat (map send ms) @ rest)"
    using recv_send by blast
  with Cons show ?case by fastforce
qed

lemma parse_unique:
  assumes "sendable m" and "sendable m'" and eq: "send m @ rest = send m' @ rest'"
  shows "m = m' \<and> rest = rest'"
proof -
  obtain s where s: "holds s (send m @ rest)" using holds_any by blast
  with eq have s': "holds s (send m' @ rest')" by simp
  from recv_send [OF assms(1) s] recv_send [OF assms(2) s'] show ?thesis
    using holds_unique by fastforce
qed

lemma send_inj: "\<lbrakk>sendable m; sendable m'; send m = send m'\<rbrakk> \<Longrightarrow> m = m'"
  using parse_unique [of m m' "[]" "[]"] by simp

end

end
