(* ===== verification/Frame.thy ===== *)
theory Frame
  imports Prelude
begin

text \<open>
  \<^verbatim>\<open>tcpx/errors.go\<close>, \<^verbatim>\<open>tcpx/config.go\<close> and \<^verbatim>\<open>tcpx/frame.go\<close>: the error values, the
  connection configuration, the TCP connection as the package sees it, and the frame reader
  and writer.
\<close>

section \<open>Errors\<close>

text \<open>
  The first eight are the sentinels of \<^verbatim>\<open>errors.go\<close>; \<open>ErrBadFrameKey\<close>, \<open>ErrBadFrameUpdate\<close> and
  \<open>ErrHandshakeMsg\<close> are the places where the code wraps a sentinel with \<^verbatim>\<open>%w\<close> and a detail.
  The others are errors of the standard library that the code passes on.
\<close>

datatype tcp_error =
    ErrBadMagic | ErrBadVersion | ErrFrameTooLarge nat nat | ErrBadFrame
  | ErrReplay | ErrClosed | ErrHandshake | ErrReconnectStop
  | ErrBadFrameKey "32 word" | ErrBadFrameUpdate "32 word" | ErrHandshakeMsg string
  | ErrEOF | ErrUnexpectedEOF | ErrNetClosed | ErrTimeout | ErrReset
  | ErrKeySize | ErrOpen | ErrRand | ErrECDH | ErrKeyText string | ErrDial
  | ErrAccept

section \<open>Configuration\<close>

text \<open>Durations are nanoseconds (\<^verbatim>\<open>time.Duration\<close>).\<close>

abbreviation (input) second :: int where "second \<equiv> 1000000000"
abbreviation (input) minute :: int where "minute \<equiv> 60000000000"

record base_config =
  magic :: "32 word"
  version :: "16 word"
  readTimeout :: int
  writeTimeout :: int
  maxPayload :: "32 word"
  heartbeatBase :: int
  heartbeatJitter :: int
  keyRotateInterval :: int
  oldKeyGrace :: int
  replaySize :: "64 word"

definition defaultMagic :: "32 word" where "defaultMagic = 0x54435058"
definition defaultVersion :: "16 word" where "defaultVersion = 1"
definition defaultMaxPayload :: "32 word" where "defaultMaxPayload = push_bit 20 4"
definition defaultReplayWindow :: "64 word" where "defaultReplayWindow = 64"

definition setDefaults :: "base_config \<Rightarrow> base_config" where
  "setDefaults c =
     \<lparr>magic = (if magic c = 0 then defaultMagic else magic c),
      version = (if version c = 0 then defaultVersion else version c),
      readTimeout = (if readTimeout c = 0 then 45 * second else readTimeout c),
      writeTimeout = (if writeTimeout c = 0 then 10 * second else writeTimeout c),
      maxPayload = (if maxPayload c = 0 then defaultMaxPayload else maxPayload c),
      heartbeatBase = (if heartbeatBase c = 0 then 15 * second else heartbeatBase c),
      heartbeatJitter = (if heartbeatJitter c = 0 then 5 * second else heartbeatJitter c),
      keyRotateInterval =
        (if keyRotateInterval c = 0 then 10 * minute else keyRotateInterval c),
      oldKeyGrace = (if oldKeyGrace c = 0 then 2 * minute else oldKeyGrace c),
      replaySize = (if replaySize c = 0 then defaultReplayWindow else replaySize c)\<rparr>"

section \<open>The TCP connection\<close>

text \<open>
  The part of \<^verbatim>\<open>net.Conn\<close> that the package uses. \<open>incoming\<close> holds the bytes that still
  arrive before the stream ends or a deadline passes, and \<open>rd_err\<close> is what a read returns
  once they are used up (end of file, time-out, reset). \<open>wr_room\<close> is the number of bytes the
  network still takes before a write fails with \<open>wr_err\<close>; \<open>shut\<close> says that \<^verbatim>\<open>Close\<close> was
  called. A deadline is stored as the time left when it was set.
\<close>

record net_conn =
  incoming :: bytes
  rd_err :: tcp_error
  outgoing :: bytes
  wr_room :: nat
  wr_err :: tcp_error
  shut :: bool
  rd_deadline :: "int option"
  wr_deadline :: "int option"

text \<open>\<^verbatim>\<open>io.ReadFull\<close>, \<^verbatim>\<open>conn.Write\<close> and \<^verbatim>\<open>conn.Close\<close>.\<close>

definition read_full :: "nat \<Rightarrow> net_conn \<Rightarrow> (tcp_error + bytes) \<times> net_conn" where
  "read_full n c =
     (if n = 0 then (Inr [], c)
      else if shut c then (Inl ErrNetClosed, c)
      else if n \<le> length (incoming c)
        then (Inr (take n (incoming c)), c\<lparr>incoming := drop n (incoming c)\<rparr>)
      else (Inl (if incoming c \<noteq> [] \<and> rd_err c = ErrEOF then ErrUnexpectedEOF else rd_err c),
            c\<lparr>incoming := []\<rparr>))"

lemma read_full_ok:
  assumes "\<not> shut c" and "n \<le> length (incoming c)"
  shows "read_full n c = (Inr (take n (incoming c)), c\<lparr>incoming := drop n (incoming c)\<rparr>)"
  using assms by (cases c) (simp add: read_full_def)

lemma read_full_InrD:
  assumes "read_full n c = (Inr bs, c')" and "\<not> shut c"
  shows "n \<le> length (incoming c) \<and> bs = take n (incoming c) \<and>
         c' = c\<lparr>incoming := drop n (incoming c)\<rparr>"
  using assms by (cases c) (auto simp: read_full_def split: if_splits)

definition net_write :: "bytes \<Rightarrow> net_conn \<Rightarrow> tcp_error option \<times> net_conn" where
  "net_write buf c =
     (if shut c then (Some ErrNetClosed, c)
      else if length buf \<le> wr_room c
        then (None, c\<lparr>outgoing := outgoing c @ buf, wr_room := wr_room c - length buf\<rparr>)
      else (Some (wr_err c),
            c\<lparr>outgoing := outgoing c @ take (wr_room c) buf, wr_room := 0\<rparr>))"

definition net_close :: "net_conn \<Rightarrow> tcp_error option \<times> net_conn" where
  "net_close c = (if shut c then (Some ErrNetClosed, c) else (None, c\<lparr>shut := True\<rparr>))"

section \<open>Frames\<close>

definition headerSize :: nat where "headerSize = 11"

definition frameHandshakeClient :: byte where "frameHandshakeClient = 1"
definition frameHandshakeServer :: byte where "frameHandshakeServer = 2"
definition frameEncrypted :: byte where "frameEncrypted = 3"
definition frameClose :: byte where "frameClose = 4"

definition innerData :: byte where "innerData = 1"
definition innerPing :: byte where "innerPing = 2"
definition innerPong :: byte where "innerPong = 3"
definition innerKeyUpdate :: byte where "innerKeyUpdate = 4"

record frame =
  fr_magic :: "32 word"
  fr_version :: "16 word"
  fr_type :: byte
  fr_payload :: bytes

definition gslice :: "nat \<Rightarrow> nat \<Rightarrow> 'a list \<Rightarrow> 'a list" where
  "gslice i j xs = take (j - i) (drop i xs)"

definition arm_read :: "base_config \<Rightarrow> net_conn \<Rightarrow> net_conn" where
  "arm_read cfg c = (if readTimeout cfg > 0 then c\<lparr>rd_deadline := Some (readTimeout cfg)\<rparr> else c)"

definition readFrame :: "base_config \<Rightarrow> net_conn \<Rightarrow> (tcp_error + frame) \<times> net_conn" where
  "readFrame cfg c =
     (case read_full headerSize (arm_read cfg c) of
        (Inl e, c1) \<Rightarrow> (Inl e, c1)
      | (Inr header, c1) \<Rightarrow>
          let mg = get_u32 (gslice 0 4 header);
              ver = get_u16 (gslice 4 6 header);
              typ = header ! 6;
              len = get_u32 (gslice 7 11 header)
          in if mg \<noteq> magic cfg then (Inl ErrBadMagic, c1)
             else if ver \<noteq> version cfg then (Inl ErrBadVersion, c1)
             else if len > maxPayload cfg
               then (Inl (ErrFrameTooLarge (unat len) (unat (maxPayload cfg))), c1)
             else case read_full (unat len) c1 of
                 (Inl e, c2) \<Rightarrow> (Inl e, c2)
               | (Inr payload, c2) \<Rightarrow>
                   (Inr \<lparr>fr_magic = mg, fr_version = ver, fr_type = typ, fr_payload = payload\<rparr>,
                    c2))"

definition encode_frame :: "base_config \<Rightarrow> byte \<Rightarrow> bytes \<Rightarrow> bytes" where
  "encode_frame cfg t payload =
     put_u32 (magic cfg) @ put_u16 (version cfg) @ [t] @ put_u32 (of_nat (length payload))
       @ payload"

definition writeFrame ::
    "base_config \<Rightarrow> byte \<Rightarrow> bytes \<Rightarrow> net_conn \<Rightarrow> tcp_error option \<times> net_conn" where
  "writeFrame cfg t payload c =
     (if (of_nat (length payload) :: 32 word) > maxPayload cfg
        then (Some (ErrFrameTooLarge (length payload) (unat (maxPayload cfg))), c)
      else net_write (encode_frame cfg t payload)
             (if writeTimeout cfg > 0 then c\<lparr>wr_deadline := Some (writeTimeout cfg)\<rparr> else c))"

section \<open>Reading what was written\<close>

definition sendable_frame :: "base_config \<Rightarrow> frame \<Rightarrow> bool" where
  "sendable_frame cfg f \<longleftrightarrow>
     fr_magic f = magic cfg \<and> fr_version f = version cfg \<and>
     length (fr_payload f) \<le> unat (maxPayload cfg)"

abbreviation frame_bytes :: "base_config \<Rightarrow> frame \<Rightarrow> bytes" where
  "frame_bytes cfg f \<equiv> encode_frame cfg (fr_type f) (fr_payload f)"

definition open_with :: "net_conn \<Rightarrow> bytes \<Rightarrow> bool" where
  "open_with c bs \<longleftrightarrow> \<not> shut c \<and> incoming c = bs"

lemma length_encode_frame [simp, codec_simps]:
  "length (encode_frame cfg t p) = headerSize + length p"
  by (simp add: encode_frame_def headerSize_def)

lemma arm_read_simps [simp]:
  "shut (arm_read cfg c) = shut c" "incoming (arm_read cfg c) = incoming c"
  "outgoing (arm_read cfg c) = outgoing c" "rd_err (arm_read cfg c) = rd_err c"
  by (simp_all add: arm_read_def)

lemma header_fields:
  assumes "h = put_u32 m @ put_u16 v @ [t] @ put_u32 l"
  shows "gslice 0 4 h = put_u32 m" "gslice 4 6 h = put_u16 v" "h ! 6 = t" "gslice 7 11 h = put_u32 l"
    "length h = headerSize"
  by (simp_all add: assms gslice_def headerSize_def nth_append put_u32_def put_u16_def)

lemma header_split:
  assumes "length h = headerSize"
  shows "h = gslice 0 4 h @ gslice 4 6 h @ [h ! 6] @ gslice 7 11 h"
proof -
  from assms obtain a b c d e f g i j k l where "h = [a, b, c, d, e, f, g, i, j, k, l]"
    by (auto simp: headerSize_def length_Suc_conv eval_nat_numeral)
  then show ?thesis by (simp add: gslice_def)
qed

text \<open>The frame reader succeeds exactly on the encodings of admissible frames.\<close>

lemma readFrame_frame:
  assumes ok: "sendable_frame cfg f" and c: "open_with c (frame_bytes cfg f @ rest)"
  shows "readFrame cfg c = (Inr f, (arm_read cfg c)\<lparr>incoming := rest\<rparr>)"
proof -
  define h where
    "h = put_u32 (magic cfg) @ put_u16 (version cfg) @ [fr_type f] @
         put_u32 (of_nat (length (fr_payload f)))"
  note hf = header_fields [OF h_def]
  from c have inc: "incoming c = h @ fr_payload f @ rest" and op: "\<not> shut c"
    by (simp_all add: open_with_def encode_frame_def h_def)
  from ok have len: "length (fr_payload f) \<le> unat (maxPayload cfg)"
    by (simp add: sendable_frame_def)
  have r1: "read_full headerSize (arm_read cfg c) =
      (Inr h, (arm_read cfg c)\<lparr>incoming := fr_payload f @ rest\<rparr>)"
    using op inc hf(5) by (simp add: read_full_ok)
  show ?thesis
    using ok of_nat_len_le [OF len] op
    by (simp add: readFrame_def r1 hf(1-4) read_full_ok sendable_frame_def)
qed

lemma readFrame_SomeD:
  assumes "readFrame cfg c = (Inr f, c')"
  shows "sendable_frame cfg f \<and>
         (\<exists>rest. open_with c (frame_bytes cfg f @ rest) \<and>
                 c' = (arm_read cfg c)\<lparr>incoming := rest\<rparr>)"
proof -
  define h where "h = take headerSize (incoming c)"
  define rest1 where "rest1 = drop headerSize (incoming c)"
  let ?len = "get_u32 (gslice 7 11 h)"
  have op: "\<not> shut c"
    using assms by (auto simp: readFrame_def read_full_def headerSize_def split: if_splits)
  obtain hd c1 where hd: "read_full headerSize (arm_read cfg c) = (Inr hd, c1)"
    using assms by (auto simp: readFrame_def split: prod.splits sum.splits)
  from read_full_InrD [OF hd] op have l11: "headerSize \<le> length (incoming c)"
    and r1: "read_full headerSize (arm_read cfg c) =
      (Inr h, (arm_read cfg c)\<lparr>incoming := rest1\<rparr>)"
    using hd by (simp_all add: h_def rest1_def)
  then have inc: "incoming c = h @ rest1" and lh: "length h = headerSize"
    by (simp_all add: h_def rest1_def)
  from assms have ok: "get_u32 (gslice 0 4 h) = magic cfg" "get_u16 (gslice 4 6 h) = version cfg"
      "\<not> maxPayload cfg < ?len"
    by (auto simp: readFrame_def r1 Let_def split: if_splits)
  with assms obtain p where
      p: "read_full (unat ?len) ((arm_read cfg c)\<lparr>incoming := rest1\<rparr>) = (Inr p, c')"
    and f: "f = \<lparr>fr_magic = magic cfg, fr_version = version cfg, fr_type = h ! 6,
                 fr_payload = p\<rparr>"
    by (auto simp: readFrame_def r1 Let_def split: prod.splits sum.splits)
  from read_full_InrD [OF p] op have len: "unat ?len \<le> length rest1"
    and p': "p = take (unat ?len) rest1"
    and c': "c' = (arm_read cfg c)\<lparr>incoming := drop (unat ?len) rest1\<rparr>"
    by simp_all
  have sl: "length (gslice 0 4 h) = 4" "length (gslice 4 6 h) = 2" "length (gslice 7 11 h) = 4"
    using lh by (simp_all add: gslice_def headerSize_def)
  have "frame_bytes cfg f = gslice 0 4 h @ gslice 4 6 h @ [h ! 6] @ gslice 7 11 h @ fr_payload f"
    using len sl ok(1,2) put_get_u32 [OF sl(1)] put_get_u16 [OF sl(2)] put_get_u32 [OF sl(3)]
    by (simp add: f p' encode_frame_def)
  then have "frame_bytes cfg f = h @ fr_payload f" using header_split [OF lh] by simp
  then have "open_with c (frame_bytes cfg f @ drop (unat ?len) rest1)"
    using op inc by (simp add: open_with_def f p')
  moreover have "sendable_frame cfg f"
    using ok(3) len by (simp add: sendable_frame_def f p' word_le_nat_alt not_less)
  ultimately show ?thesis using c' by blast
qed

interpretation frames: framed_stream "frame_bytes cfg" "readFrame cfg" open_with
    "sendable_frame cfg" for cfg
proof (unfold_locales, goal_cases)
  case (1 m s rest)
  then show ?case by (auto simp: readFrame_frame open_with_def)
next
  case (2 s bs bs')
  then show ?case by (simp add: open_with_def)
next
  case (3 bs)
  show ?case
    by (rule exI [of _ "\<lparr>incoming = bs, rd_err = ErrEOF, outgoing = [], wr_room = 0,
          wr_err = ErrReset, shut = False, rd_deadline = None, wr_deadline = None\<rparr>"])
      (simp add: open_with_def)
qed

lemma writeFrame_ok:
  assumes "length p \<le> unat (maxPayload cfg)" and "\<not> shut c"
    and "headerSize + length p \<le> wr_room c"
  shows "\<exists>c'. writeFrame cfg t p c = (None, c') \<and>
     outgoing c' = outgoing c @ encode_frame cfg t p \<and> shut c' = shut c \<and>
     incoming c' = incoming c \<and> wr_room c' = wr_room c - (headerSize + length p)"
  using assms of_nat_len_le [of "length p" "maxPayload cfg"]
  by (auto simp: writeFrame_def net_write_def)

section \<open>Sample values\<close>

text \<open>The default configuration, and an open connection with given unread bytes.\<close>

definition sample_cfg :: base_config where
  "sample_cfg = setDefaults \<lparr>magic = 0, version = 0, readTimeout = 0, writeTimeout = 0,
     maxPayload = 0, heartbeatBase = 0, heartbeatJitter = 0, keyRotateInterval = 0,
     oldKeyGrace = 0, replaySize = 0\<rparr>"

definition sample_conn :: "bytes \<Rightarrow> net_conn" where
  "sample_conn bs = \<lparr>incoming = bs, rd_err = ErrEOF, outgoing = [], wr_room = 2000,
     wr_err = ErrReset, shut = False, rd_deadline = None, wr_deadline = None\<rparr>"

lemma sample_cfg_simps [simp]:
  "magic sample_cfg = defaultMagic" "version sample_cfg = defaultVersion"
  "unat (maxPayload sample_cfg) = 4194304" "keyRotateInterval sample_cfg = 10 * minute"
  by (simp_all add: sample_cfg_def setDefaults_def defaultMaxPayload_def)

lemma sample_conn_simps [simp]:
  "incoming (sample_conn bs) = bs" "outgoing (sample_conn bs) = []"
  "\<not> shut (sample_conn bs)" "wr_room (sample_conn bs) = 2000"
  by (simp_all add: sample_conn_def)

lemma open_sample [simp]: "open_with (sample_conn bs) bs' \<longleftrightarrow> bs = bs'"
  by (simp add: open_with_def)

section \<open>Properties\<close>

text \<open>
  Reading a stream of frames. Whatever frames the writer encodes one after the other (each
  within the payload limit), the reader returns exactly these frames in the same order and
  leaves exactly the bytes after them: no frame is lost, merged, split or changed.
\<close>

theorem frames_read_back:
  assumes "list_all (sendable_frame cfg) fs"
    and "open_with c (concat (map (\<lambda>f. encode_frame cfg (fr_type f) (fr_payload f)) fs) @ rest)"
  shows "\<exists>c'. recv_n (readFrame cfg) (length fs) c = (fs, None, c') \<and> open_with c' rest"
  using assms by (rule frames.recv_all)

theorem frames_read_back_witness:
  "\<exists>c'. recv_n (readFrame sample_cfg) 2
     (sample_conn (encode_frame sample_cfg 3 [1, 2] @ encode_frame sample_cfg 4 [] @ [9])) =
       ([\<lparr>fr_magic = defaultMagic, fr_version = defaultVersion, fr_type = 3, fr_payload = [1, 2]\<rparr>,
         \<lparr>fr_magic = defaultMagic, fr_version = defaultVersion, fr_type = 4, fr_payload = []\<rparr>],
        None, c') \<and> open_with c' [9]"
  using frames_read_back [of sample_cfg
      "[\<lparr>fr_magic = defaultMagic, fr_version = defaultVersion, fr_type = 3, fr_payload = [1, 2]\<rparr>,
        \<lparr>fr_magic = defaultMagic, fr_version = defaultVersion, fr_type = 4, fr_payload = []\<rparr>]"
      "sample_conn (encode_frame sample_cfg 3 [1, 2] @ encode_frame sample_cfg 4 [] @ [9])" "[9]"]
  by (simp add: sendable_frame_def numeral_2_eq_2)

text \<open>
  C26: The reader accepts exactly the encodings. \<open>readFrame\<close> succeeds with a frame if and only if
  the connection is open and its next bytes are the encoding of that frame under the configured
  magic and version with a payload within the limit; it then consumes these bytes and no more.
\<close>

theorem readFrame_exact:
  "readFrame cfg c = (Inr f, c') \<longleftrightarrow>
     sendable_frame cfg f \<and>
     (\<exists>rest. open_with c (encode_frame cfg (fr_type f) (fr_payload f) @ rest) \<and>
             c' = (arm_read cfg c)\<lparr>incoming := rest\<rparr>)"
  using readFrame_SomeD readFrame_frame by blast

text \<open>
  The payload limit. A header that announces more than the limit is refused with
  \<open>ErrFrameTooLarge\<close> as soon as it is read: only its 11 bytes are consumed, whatever follows.
\<close>

theorem readFrame_too_large:
  assumes "open_with c (put_u32 (magic cfg) @ put_u16 (version cfg) @ [t] @ put_u32 len @ rest)"
    and "len > maxPayload cfg"
  shows "readFrame cfg c =
    (Inl (ErrFrameTooLarge (unat len) (unat (maxPayload cfg))), (arm_read cfg c)\<lparr>incoming := rest\<rparr>)"
proof -
  note hf = header_fields [OF refl, of "magic cfg" "version cfg" t len]
  have "read_full headerSize (arm_read cfg c) =
      (Inr (put_u32 (magic cfg) @ put_u16 (version cfg) @ [t] @ put_u32 len),
       (arm_read cfg c)\<lparr>incoming := rest\<rparr>)"
    using assms(1) by (simp add: read_full_ok open_with_def headerSize_def)
  with assms(2) show ?thesis by (simp only: readFrame_def prod.case sum.case hf Let_def if_True) simp
qed

theorem readFrame_too_large_witness:
  "readFrame sample_cfg (sample_conn (put_u32 defaultMagic @ put_u16 defaultVersion @ [3] @
      put_u32 0x500000 @ [1, 2, 3])) =
    (Inl (ErrFrameTooLarge 0x500000 4194304),
     (arm_read sample_cfg (sample_conn (put_u32 defaultMagic @ put_u16 defaultVersion @ [3] @
        put_u32 0x500000 @ [1, 2, 3])))\<lparr>incoming := [1, 2, 3]\<rparr>)"
  using readFrame_too_large [of "sample_conn (put_u32 defaultMagic @ put_u16 defaultVersion @ [3] @
      put_u32 0x500000 @ [1, 2, 3])" sample_cfg 3 "0x500000" "[1, 2, 3]"]
  by (simp add: word_less_nat_alt)

text \<open>
  C28: The limit check of the writer is made on the length truncated to 32 bits. A payload of
  \<open>2 ^ 32\<close> bytes passes it under any configuration, and the header then says that the payload is
  empty: the reader of the stream would take the payload for further frames.
\<close>

theorem writeFrame_length_wraps:
  assumes "length payload = 2 ^ 32" and "\<not> shut c" and "2 ^ 32 + 11 \<le> wr_room c"
  shows "fst (writeFrame cfg t payload c) = None \<and>
    outgoing (snd (writeFrame cfg t payload c)) =
      outgoing c @ put_u32 (magic cfg) @ put_u16 (version cfg) @ [t] @ put_u32 0 @ payload"
proof -
  have "(of_nat (length payload) :: 32 word) = 0" using assms(1) by (simp add: word_of_nat_eq_0_iff)
  moreover have "11 + length payload \<le> wr_room c" using assms(1,3) by simp
  ultimately show ?thesis using assms(2)
    by (simp add: writeFrame_def net_write_def encode_frame_def headerSize_def)
qed

theorem writeFrame_length_wraps_witness:
  "fst (writeFrame sample_cfg 3 (replicate (2 ^ 32) 0)
     ((sample_conn [])\<lparr>wr_room := 2 ^ 32 + 11\<rparr>)) = None"
  using writeFrame_length_wraps [of "replicate (2 ^ 32) 0"
      "(sample_conn [])\<lparr>wr_room := 2 ^ 32 + 11\<rparr>" sample_cfg 3]
  by simp

end
