(* ===== verification/Hkdf.thy ===== *)
theory Hkdf
  imports Prelude
begin

text \<open>
  The cryptographic primitives the package takes from Go's \<^verbatim>\<open>crypto\<close> tree, as a record of
  functions with their documented laws, and \<^verbatim>\<open>tcpx/hkdf.go\<close> over them.
\<close>

section \<open>Primitives\<close>

text \<open>
  \<open>hmac\<close> is HMAC-SHA256, \<open>seal\<close> and \<open>aopen\<close> are the AEAD of a GCM over the AES cipher of the
  given key (key, nonce, text, additional data), \<open>ecdh\<close> and \<open>ecdh_pub\<close> are X25519 (\<open>None\<close> for
  the low-order points that \<^verbatim>\<open>ECDH\<close> refuses).
\<close>

record crypto =
  hmac :: "bytes \<Rightarrow> bytes \<Rightarrow> bytes"
  seal :: "bytes \<Rightarrow> bytes \<Rightarrow> bytes \<Rightarrow> bytes \<Rightarrow> bytes"
  aopen :: "bytes \<Rightarrow> bytes \<Rightarrow> bytes \<Rightarrow> bytes \<Rightarrow> bytes option"
  ecdh :: "bytes \<Rightarrow> bytes \<Rightarrow> bytes option"
  ecdh_pub :: "bytes \<Rightarrow> bytes"

text \<open>
  The documented laws: a MAC has 32 bytes; opening what was sealed under the same key, nonce
  and data gives the text back, which the tag makes 16 bytes longer; X25519 is symmetric and
  its public keys have 32 bytes.
\<close>

definition hmac_len :: "crypto \<Rightarrow> bool" where
  "hmac_len C \<longleftrightarrow> (\<forall>k m. length (hmac C k m) = 32)"

definition aead_ok :: "crypto \<Rightarrow> bool" where
  "aead_ok C \<longleftrightarrow>
     (\<forall>k n p a. length k \<in> {16, 24, 32} \<longrightarrow> length n = 12 \<longrightarrow>
        aopen C k n (seal C k n p a) a = Some p)"

definition seal_len :: "crypto \<Rightarrow> bool" where
  "seal_len C \<longleftrightarrow> (\<forall>k n p a. length (seal C k n p a) = length p + 16)"

definition ecdh_ok :: "crypto \<Rightarrow> bool" where
  "ecdh_ok C \<longleftrightarrow>
     (\<forall>a b. length a = 32 \<longrightarrow> length b = 32 \<longrightarrow>
        length (ecdh_pub C a) = 32 \<and> ecdh C a (ecdh_pub C b) = ecdh C b (ecdh_pub C a))"

text \<open>
  A concrete instance, used where a theorem about every lawful \<open>crypto\<close> is applied to an input:
  a checksum as MAC and as tag, and addition of the first key bytes as key agreement.
\<close>

definition sum_byte :: "bytes \<Rightarrow> byte" where
  "sum_byte bs = foldr (+) bs 0"

definition toy_crypto :: crypto where
  "toy_crypto =
     \<lparr>hmac = (\<lambda>k m. replicate 32 (sum_byte k + sum_byte m)),
      seal = (\<lambda>k n p a. p @ replicate 16 (sum_byte k + sum_byte n + sum_byte p + sum_byte a)),
      aopen = (\<lambda>k n c a.
        let p = take (length c - 16) c
        in if 16 \<le> length c \<and>
              drop (length c - 16) c =
                replicate 16 (sum_byte k + sum_byte n + sum_byte p + sum_byte a)
           then Some p else None),
      ecdh = (\<lambda>a b. Some (replicate 32 (hd a + hd b))),
      ecdh_pub = (\<lambda>a. replicate 32 (hd a))\<rparr>"

lemma toy_laws: "hmac_len toy_crypto" "aead_ok toy_crypto" "seal_len toy_crypto"
    "ecdh_ok toy_crypto"
  by (simp_all add: hmac_len_def aead_ok_def seal_len_def ecdh_ok_def toy_crypto_def Let_def
      add.commute)

section \<open>HKDF\<close>

definition hkdfExtract :: "crypto \<Rightarrow> bytes \<Rightarrow> bytes \<Rightarrow> bytes" where
  "hkdfExtract C salt ikm =
     hmac C (if length salt = 0 then replicate 32 0 else salt) ikm"

text \<open>
  The expansion loop with the counter byte that wraps as in the code. The fuel is the number
  of bytes asked for: every round adds a block of 32.
\<close>

fun hkdf_loop :: "crypto \<Rightarrow> bytes \<Rightarrow> bytes \<Rightarrow> nat \<Rightarrow> nat \<Rightarrow> byte \<Rightarrow> bytes \<Rightarrow> bytes \<Rightarrow> bytes" where
  "hkdf_loop C prk info len 0 counter t out = out"
| "hkdf_loop C prk info len (Suc fuel) counter t out =
     (if length out < len then
        let t' = hmac C prk (t @ info @ [counter])
        in hkdf_loop C prk info len fuel (counter + 1) t' (out @ t')
      else out)"

definition hkdfExpand :: "crypto \<Rightarrow> bytes \<Rightarrow> bytes \<Rightarrow> nat \<Rightarrow> bytes" where
  "hkdfExpand C prk info len = take len (hkdf_loop C prk info len len 1 [] [])"

definition hkdfKey :: "crypto \<Rightarrow> bytes \<Rightarrow> bytes \<Rightarrow> bytes \<Rightarrow> bytes" where
  "hkdfKey C salt ikm info = hkdfExpand C (hkdfExtract C salt ikm) info 32"

text \<open>The fuel is enough: the loop leaves with at least \<open>len\<close> bytes, and more fuel changes nothing.\<close>

lemma hkdf_loop_length:
  assumes "hmac_len C" and "len \<le> length out + 32 * fuel"
  shows "len \<le> length (hkdf_loop C prk info len fuel counter t out)"
  using assms(2)
proof (induction fuel arbitrary: counter t out)
  case 0
  then show ?case by simp
next
  case (Suc fuel)
  then show ?case using assms(1) by (auto simp: Let_def hmac_len_def)
qed

lemma hkdf_loop_mono:
  assumes "hmac_len C" and "len \<le> length out + 32 * fuel"
  shows "hkdf_loop C prk info len (fuel + k) counter t out =
         hkdf_loop C prk info len fuel counter t out"
  using assms(2)
proof (induction fuel arbitrary: counter t out)
  case 0
  then show ?case by (cases k) simp_all
next
  case (Suc fuel)
  then show ?case using assms(1) by (auto simp: Let_def hmac_len_def)
qed

lemma length_hkdfExpand: "hmac_len C \<Longrightarrow> length (hkdfExpand C prk info len) = len"
  using hkdf_loop_length [of C len "[]" len prk info 1 "[]"] by (simp add: hkdfExpand_def)

lemma length_hkdfKey: "hmac_len C \<Longrightarrow> length (hkdfKey C salt ikm info) = 32"
  by (simp add: hkdfKey_def length_hkdfExpand)

end
