(* ===== verification/Go_Text.thy ===== *)
theory Go_Text
  imports Prelude
begin

text \<open>
  The text functions of Go's standard library that the program calls: \<^verbatim>\<open>strings.TrimSpace\<close>,
  decimal numbers, \<^verbatim>\<open>encoding/hex\<close> and the four variants of \<^verbatim>\<open>encoding/base64\<close> that the key
  parser tries, with their round trips.
\<close>

section \<open>White space\<close>

text \<open>The UTF-8 encodings of the characters that \<^verbatim>\<open>unicode.IsSpace\<close> accepts.\<close>

definition space_runes :: "nat list list" where
  "space_runes =
     [[9], [10], [11], [12], [13], [32], [0xC2, 0x85], [0xC2, 0xA0], [0xE1, 0x9A, 0x80],
      [0xE2, 0x80, 0xA8], [0xE2, 0x80, 0xA9], [0xE2, 0x80, 0xAF], [0xE2, 0x81, 0x9F],
      [0xE3, 0x80, 0x80]] @ map (\<lambda>n. [0xE2, 0x80, n]) [0x80..<0x8B]"

definition starts_with :: "nat list \<Rightarrow> string \<Rightarrow> bool" where
  "starts_with r s \<longleftrightarrow> take (length r) (map of_char s) = r"

text \<open>Characters are dropped from the front as long as one of the given ones is there.\<close>

function strip_front :: "nat list list \<Rightarrow> string \<Rightarrow> string" where
  "strip_front rs s =
     (case find (\<lambda>r. r \<noteq> [] \<and> starts_with r s) rs of
        None \<Rightarrow> s
      | Some r \<Rightarrow> strip_front rs (drop (length r) s))"
  by pat_completeness auto
termination
proof (relation "measure (\<lambda>(rs, s). length s)")
  fix rs :: "nat list list" and s r
  assume "find (\<lambda>r. r \<noteq> [] \<and> starts_with r s) rs = Some r"
  then have "r \<noteq> []" "starts_with r s" by (auto simp: find_Some_iff)
  then show "((rs, drop (length r) s), (rs, s)) \<in> measure (\<lambda>(rs, s). length s)"
    by (cases s) (auto simp: starts_with_def)
qed simp

declare strip_front.simps [simp del]

definition trim_space :: "string \<Rightarrow> string" where
  "trim_space s =
     rev (strip_front (map rev space_runes) (rev (strip_front space_runes s)))"

text \<open>\<^verbatim>\<open>strings.Fields\<close>: \<open>cur\<close> is the field being read.\<close>

function fields_from :: "string \<Rightarrow> string \<Rightarrow> string list" where
  "fields_from cur [] = (if cur = [] then [] else [cur])"
| "fields_from cur (c # s) =
     (case find (\<lambda>r. r \<noteq> [] \<and> starts_with r (c # s)) space_runes of
        Some r \<Rightarrow> (if cur = [] then [] else [cur]) @ fields_from [] (drop (length r - 1) s)
      | None \<Rightarrow> fields_from (cur @ [c]) s)"
  by pat_completeness auto
termination by (relation "measure (\<lambda>(cur, s). length s)") auto

declare fields_from.simps [simp del]

definition Fields :: "string \<Rightarrow> string list" where
  "Fields s = fields_from [] s"

lemma strip_front_id:
  "(\<And>r. r \<in> set rs \<Longrightarrow> r \<noteq> [] \<Longrightarrow> \<not> starts_with r s) \<Longrightarrow> strip_front rs s = s"
  by (subst strip_front.simps) (auto simp: find_Some_iff split: option.split)

text \<open>Text that begins and ends with a visible ASCII character is left alone.\<close>

definition visible :: "char \<Rightarrow> bool" where
  "visible c \<longleftrightarrow> 33 \<le> (of_char c :: nat) \<and> of_char c < (128 :: nat)"

lemma not_starts_with_visible:
  "visible c \<Longrightarrow> r \<in> set space_runes \<union> set (map rev space_runes) \<Longrightarrow> \<not> starts_with r (c # s)"
  unfolding space_runes_def starts_with_def visible_def by auto

lemma trim_space_visible:
  assumes "s \<noteq> []" and "visible (hd s)" and "visible (last s)"
  shows "trim_space s = s"
proof -
  from assms(1) obtain c cs where s: "s = c # cs" by (cases s) auto
  have f: "strip_front space_runes s = s"
    using assms(2) s not_starts_with_visible [of c _ cs] by (intro strip_front_id) auto
  have r: "rev s = last s # rev (butlast s)" using assms(1) by (simp add: rev_eq_Cons_iff)
  have "strip_front (map rev space_runes) (rev s) = rev s"
  proof (rule strip_front_id)
    fix x
    assume "x \<in> set (map rev space_runes)"
    then show "\<not> starts_with x (rev s)"
      unfolding r using not_starts_with_visible [OF assms(3)] by blast
  qed
  with f show ?thesis by (simp add: trim_space_def)
qed

lemma trim_space_Nil [simp]: "trim_space [] = []"
proof -
  have "strip_front rs [] = []" for rs
    by (rule strip_front_id) (auto simp: starts_with_def)
  then show ?thesis by (simp add: trim_space_def)
qed

lemma strip_front_stops: "r \<in> set rs \<Longrightarrow> r \<noteq> [] \<Longrightarrow> \<not> starts_with r (strip_front rs s)"
proof (induction rs s rule: strip_front.induct)
  case (1 rs s)
  show ?case
  proof (cases "find (\<lambda>r. r \<noteq> [] \<and> starts_with r s) rs")
    case None
    then have "strip_front rs s = s" by (subst strip_front.simps) simp
    with None 1 show ?thesis by (auto simp: find_None_iff)
  next
    case (Some a)
    with 1 show ?thesis by (subst strip_front.simps) simp
  qed
qed

lemma strip_front_suffix: "\<exists>p. s = p @ strip_front rs s"
proof (induction rs s rule: strip_front.induct)
  case (1 rs s)
  show ?case
  proof (cases "find (\<lambda>r. r \<noteq> [] \<and> starts_with r s) rs")
    case None
    then show ?thesis by (subst strip_front.simps) simp
  next
    case (Some a)
    with 1 obtain p where "drop (length a) s = p @ strip_front rs (drop (length a) s)" by blast
    then have "s = (take (length a) s @ p) @ strip_front rs (drop (length a) s)"
      using append_take_drop_id [of "length a" s] by simp
    moreover have "strip_front rs s = strip_front rs (drop (length a) s)"
      using Some by (subst strip_front.simps) simp
    ultimately show ?thesis by metis
  qed
qed

lemma starts_with_append: "starts_with r u \<Longrightarrow> starts_with r (u @ v)"
proof -
  assume h: "starts_with r u"
  then have "length r \<le> length u" unfolding starts_with_def by (metis length_map length_take min.cobounded2 linorder_le_cases take_all)
  with h show ?thesis by (simp add: starts_with_def)
qed

lemma trim_space_idem [simp]: "trim_space (trim_space s) = trim_space s"
proof -
  define t where "t = strip_front space_runes s"
  define u where "u = trim_space s"
  have u: "rev u = strip_front (map rev space_runes) (rev t)" by (simp add: u_def t_def trim_space_def)
  obtain p where "rev t = p @ rev u" using strip_front_suffix [of "rev t"] u by metis
  then have t: "t = u @ rev p" by (metis rev_append rev_rev_ident)
  have "strip_front space_runes u = u"
  proof (rule strip_front_id)
    fix r
    assume "r \<in> set space_runes" "r \<noteq> []"
    with strip_front_stops [of r space_runes s] show "\<not> starts_with r u"
      using starts_with_append [of r u "rev p"] by (auto simp: t_def [symmetric] t)
  qed
  moreover have "strip_front (map rev space_runes) (rev u) = rev u"
    by (rule strip_front_id) (use strip_front_stops in \<open>auto simp: u\<close>)
  ultimately have "trim_space u = u" by (simp add: trim_space_def)
  then show ?thesis by (simp add: u_def)
qed

section \<open>Decimal numbers\<close>

definition digit_char :: "nat \<Rightarrow> char" where
  "digit_char n = char_of (48 + n)"

definition is_digit :: "char \<Rightarrow> bool" where
  "is_digit c \<longleftrightarrow> 48 \<le> (of_char c :: nat) \<and> of_char c \<le> (57 :: nat)"

definition digit_val :: "char \<Rightarrow> nat" where
  "digit_val c = of_char c - 48"

lemma of_char_digit: "n < 10 \<Longrightarrow> of_char (digit_char n) = 48 + n"
  by (simp add: digit_char_def of_char_of)

lemma digit_char_simps [simp]:
  "n < 10 \<Longrightarrow> is_digit (digit_char n)" "n < 10 \<Longrightarrow> digit_val (digit_char n) = n"
  "n < 10 \<Longrightarrow> visible (digit_char n)"
  by (simp_all add: is_digit_def digit_val_def of_char_digit visible_def)

fun decimal :: "nat \<Rightarrow> string" where
  "decimal n =
     (if n < 10 then [digit_char n] else decimal (n div 10) @ [digit_char (n mod 10)])"

declare decimal.simps [simp del]

lemma decimal_not_Nil [simp]: "decimal n \<noteq> []"
  by (simp add: decimal.simps)

lemma decimal_digits: "c \<in> set (decimal n) \<Longrightarrow> is_digit c"
proof (induction n rule: decimal.induct)
  case (1 n)
  then show ?case by (cases "n < 10") (auto simp: decimal.simps [of n])
qed

section \<open>Hexadecimal\<close>

definition hex_char :: "nat \<Rightarrow> char" where
  "hex_char n = (if n < 10 then char_of (48 + n) else char_of (87 + n))"

definition hex_val :: "char \<Rightarrow> nat option" where
  "hex_val c =
     (let k = of_char c in
      if 48 \<le> k \<and> k \<le> 57 then Some (k - 48)
      else if 97 \<le> k \<and> k \<le> 102 then Some (k - 87)
      else if 65 \<le> k \<and> k \<le> 70 then Some (k - 55)
      else None)"

lemma hex_val_char [simp]: "n < 16 \<Longrightarrow> hex_val (hex_char n) = Some n"
  by (simp add: hex_val_def hex_char_def of_char_of Let_def)

lemma visible_hex_char [simp]: "n < 16 \<Longrightarrow> visible (hex_char n)"
  by (simp add: visible_def hex_char_def of_char_of)

definition hex_encode :: "bytes \<Rightarrow> string" where
  "hex_encode bs = concat (map (\<lambda>b. [hex_char (unat b div 16), hex_char (unat b mod 16)]) bs)"

fun hex_decode :: "string \<Rightarrow> bytes option" where
  "hex_decode [] = Some []"
| "hex_decode [c] = None"
| "hex_decode (a # b # s) =
     (case (hex_val a, hex_val b) of
        (Some i, Some j) \<Rightarrow> map_option (\<lambda>bs. of_nat (16 * i + j) # bs) (hex_decode s)
      | _ \<Rightarrow> None)"

lemma unat_byte_lt: "unat (b :: byte) < 256"
  using unsigned_less [of b, where ?'a = nat] by simp

lemma byte_nibbles [simp]: "unat (b :: byte) div 16 < 16" "unat b mod 16 < 16"
  using unat_byte_lt [of b] by (simp_all add: div_less_iff_less_mult)

lemma of_nat_nibbles [simp]:
  "16 * of_nat (unat b div 16) + of_nat (unat b mod 16) = (b :: byte)"
proof -
  have "of_nat (16 * (unat b div 16) + unat b mod 16) = (of_nat (unat b) :: byte)"
    by simp
  then show ?thesis by (simp only: of_nat_add of_nat_mult of_nat_unat ucast_id) simp
qed

lemma hex_decode_encode [simp, codec_simps]: "hex_decode (hex_encode bs) = Some bs"
  by (induction bs) (simp_all add: hex_encode_def)

lemma length_hex_encode [simp, codec_simps]: "length (hex_encode bs) = 2 * length bs"
  by (induction bs) (simp_all add: hex_encode_def)

lemma visible_hex_encode: "c \<in> set (hex_encode bs) \<Longrightarrow> visible c"
  by (auto simp: hex_encode_def)

lemma hex_encode_inj: "hex_encode a = hex_encode b \<Longrightarrow> a = b"
  by (metis hex_decode_encode option.inject)

lemma length_hex_decode: "hex_decode s = Some bs \<Longrightarrow> length s = 2 * length bs"
  by (induction s arbitrary: bs rule: hex_decode.induct) (auto split: option.splits)

lemma hex_decode_chars: "hex_decode s = Some bs \<Longrightarrow> c \<in> set s \<Longrightarrow> hex_val c \<noteq> None"
  by (induction s arbitrary: bs rule: hex_decode.induct) (auto split: option.splits)

section \<open>Base 64\<close>

text \<open>The standard alphabet, and the one for URLs, which differs in the last two characters.\<close>

definition b64_char :: "bool \<Rightarrow> nat \<Rightarrow> char" where
  "b64_char url n =
     (if n < 26 then char_of (65 + n) else if n < 52 then char_of (71 + n)
      else if n < 62 then char_of (n - 4)
      else if n = 62 then (if url then CHR ''-'' else CHR ''+'')
      else (if url then CHR ''_'' else CHR ''/''))"

definition b64_val :: "bool \<Rightarrow> char \<Rightarrow> nat option" where
  "b64_val url c =
     (let k = of_char c in
      if 65 \<le> k \<and> k \<le> 90 then Some (k - 65)
      else if 97 \<le> k \<and> k \<le> 122 then Some (k - 71)
      else if 48 \<le> k \<and> k \<le> 57 then Some (k + 4)
      else if c = (if url then CHR ''-'' else CHR ''+'') then Some 62
      else if c = (if url then CHR ''_'' else CHR ''/'') then Some 63
      else None)"

lemma b64_val_char [simp]: "n < 64 \<Longrightarrow> b64_val url (b64_char url n) = Some n"
proof -
  assume n: "n < 64"
  consider "n < 26" | "26 \<le> n" "n < 52" | "52 \<le> n" "n < 62" | "n = 62" | "n = 63"
    using n by linarith
  then show ?thesis by cases (auto simp: b64_val_def b64_char_def of_char_of Let_def)
qed

lemma b64_char_not_pad: "n < 64 \<Longrightarrow> b64_char url n \<noteq> CHR ''='' \<and> visible (b64_char url n)"
proof -
  assume n: "n < 64"
  consider "n < 26" | "26 \<le> n" "n < 52" | "52 \<le> n" "n < 62" | "n = 62" | "n = 63"
    using n by linarith
  then show ?thesis
    by cases (auto simp: b64_char_def of_char_of visible_def dest!: arg_cong [where f = "of_char :: char \<Rightarrow> nat"])
qed

text \<open>
  Encoding takes three bytes to four characters; \<open>pad\<close> says whether a short last group is filled
  up with the padding character.
\<close>

fun b64_encode :: "bool \<Rightarrow> bool \<Rightarrow> bytes \<Rightarrow> string" where
  "b64_encode url pad [] = []"
| "b64_encode url pad [a] =
     [b64_char url (unat a div 4), b64_char url (unat a mod 4 * 16)] @ (if pad then ''=='' else [])"
| "b64_encode url pad [a, b] =
     [b64_char url (unat a div 4), b64_char url (unat a mod 4 * 16 + unat b div 16),
      b64_char url (unat b mod 16 * 4)] @ (if pad then ''='' else [])"
| "b64_encode url pad (a # b # c # bs) =
     [b64_char url (unat a div 4), b64_char url (unat a mod 4 * 16 + unat b div 16),
      b64_char url (unat b mod 16 * 4 + unat c div 64), b64_char url (unat c mod 64)]
     @ b64_encode url pad bs"

text \<open>
  Decoding drops line breaks first, then takes groups of four; the unused low bits of a short
  last group are not looked at.
\<close>

definition b64_two :: "nat \<Rightarrow> nat \<Rightarrow> bytes" where
  "b64_two i j = [of_nat (i * 4 + j div 16)]"

definition b64_three :: "nat \<Rightarrow> nat \<Rightarrow> nat \<Rightarrow> bytes" where
  "b64_three i j k = [of_nat (i * 4 + j div 16), of_nat (j mod 16 * 16 + k div 4)]"

fun b64_groups :: "bool \<Rightarrow> bool \<Rightarrow> string \<Rightarrow> bytes option" where
  "b64_groups url pad [] = Some []"
| "b64_groups url pad [a] = None"
| "b64_groups url pad [a, b] =
     (if pad then None
      else case (b64_val url a, b64_val url b) of
        (Some i, Some j) \<Rightarrow> Some (b64_two i j) | _ \<Rightarrow> None)"
| "b64_groups url pad [a, b, c] =
     (if pad then None
      else case (b64_val url a, b64_val url b, b64_val url c) of
        (Some i, Some j, Some k) \<Rightarrow> Some (b64_three i j k) | _ \<Rightarrow> None)"
| "b64_groups url pad (a # b # c # d # s) =
     (case (b64_val url a, b64_val url b) of
        (Some i, Some j) \<Rightarrow>
          (if pad \<and> c = CHR ''='' then (if d = CHR ''='' \<and> s = [] then Some (b64_two i j) else None)
           else case b64_val url c of
             None \<Rightarrow> None
           | Some k \<Rightarrow>
               if pad \<and> d = CHR ''='' then (if s = [] then Some (b64_three i j k) else None)
               else (case b64_val url d of
                   None \<Rightarrow> None
                 | Some l \<Rightarrow>
                     map_option (\<lambda>bs. b64_three i j k @ [of_nat (k mod 4 * 64 + l)] @ bs)
                       (b64_groups url pad s)))
      | _ \<Rightarrow> None)"

definition b64_decode :: "bool \<Rightarrow> bool \<Rightarrow> string \<Rightarrow> bytes option" where
  "b64_decode url pad s = b64_groups url pad (filter (\<lambda>c. c \<noteq> CHR 0x0A \<and> c \<noteq> CHR 0x0D) s)"

lemma sextet_split:
  fixes a b c :: nat
  assumes "a < 256" "b < 256" "c < 256"
  shows "a div 4 < 64" "a mod 4 * 16 + b div 16 < 64" "b mod 16 * 4 + c div 64 < 64" "c mod 64 < 64"
    "a mod 4 * 16 < 64" "b mod 16 * 4 < 64"
    "a div 4 * 4 + (a mod 4 * 16 + b div 16) div 16 = a" "a div 4 * 4 + a mod 4 * 16 div 16 = a"
    "(a mod 4 * 16 + b div 16) mod 16 * 16 + (b mod 16 * 4 + c div 64) div 4 = b"
    "(a mod 4 * 16 + b div 16) mod 16 * 16 + b mod 16 * 4 div 4 = b"
    "(b mod 16 * 4 + c div 64) mod 4 * 64 + c mod 64 = c"
proof -
  have b: "b div 16 < 16" "c div 64 < 4" using assms by (simp_all add: div_less_iff_less_mult)
  show "a div 4 < 64" using assms by (simp add: div_less_iff_less_mult)
  show "a mod 4 * 16 + b div 16 < 64" "b mod 16 * 4 + c div 64 < 64" "c mod 64 < 64"
    "a mod 4 * 16 < 64" "b mod 16 * 4 < 64"
    using b mod_less_divisor [of 4 a] mod_less_divisor [of 16 b] by linarith+
  have 1: "(a mod 4 * 16 + b div 16) div 16 = a mod 4" "(a mod 4 * 16 + b div 16) mod 16 = b div 16"
    "(b mod 16 * 4 + c div 64) div 4 = b mod 16" "(b mod 16 * 4 + c div 64) mod 4 = c div 64"
    using b by simp_all
  show "a div 4 * 4 + (a mod 4 * 16 + b div 16) div 16 = a"
    "(a mod 4 * 16 + b div 16) mod 16 * 16 + (b mod 16 * 4 + c div 64) div 4 = b"
    "(b mod 16 * 4 + c div 64) mod 4 * 64 + c mod 64 = c"
    "a div 4 * 4 + a mod 4 * 16 div 16 = a"
    "(a mod 4 * 16 + b div 16) mod 16 * 16 + b mod 16 * 4 div 4 = b"
    by (simp_all only: 1) simp_all
qed

lemma b64_groups_encode: "b64_groups url pad (b64_encode url pad bs) = Some bs"
proof (induction url pad bs rule: b64_encode.induct)
  case (1 url pad)
  then show ?case by simp
next
  case (2 url pad a)
  note h = sextet_split [OF unat_byte_lt [of a] unat_byte_lt [of a] unat_byte_lt [of a]]
  show ?case using h b64_char_not_pad [OF h(5), of url]
    by (cases pad) (simp_all add: b64_two_def)
next
  case (3 url pad a b)
  note h = sextet_split [OF unat_byte_lt [of a] unat_byte_lt [of b] unat_byte_lt [of b]]
  show ?case using h b64_char_not_pad [OF h(6), of url]
    by (cases pad) (simp_all add: b64_three_def)
next
  case (4 url pad a b c bs)
  note h = sextet_split [OF unat_byte_lt [of a] unat_byte_lt [of b] unat_byte_lt [of c]]
  show ?case using 4 h b64_char_not_pad [OF h(3), of url] b64_char_not_pad [OF h(4), of url]
    by (simp add: b64_three_def)
qed

lemma b64_encode_visible: "c \<in> set (b64_encode url pad bs) \<Longrightarrow> visible c"
proof (induction url pad bs rule: b64_encode.induct)
  case (2 url pad a)
  note h = sextet_split [OF unat_byte_lt [of a] unat_byte_lt [of a] unat_byte_lt [of a]]
  show ?case using 2 h b64_char_not_pad by (auto simp: visible_def split: if_splits)
next
  case (3 url pad a b)
  note h = sextet_split [OF unat_byte_lt [of a] unat_byte_lt [of b] unat_byte_lt [of b]]
  show ?case using 3 h b64_char_not_pad by (auto simp: visible_def split: if_splits)
next
  case (4 url pad a b c bs)
  note h = sextet_split [OF unat_byte_lt [of a] unat_byte_lt [of b] unat_byte_lt [of c]]
  show ?case using 4 h b64_char_not_pad by (auto split: if_splits)
qed simp

lemma b64_decode_encoding: "b64_decode u p (b64_encode url pad bs) = b64_groups u p (b64_encode url pad bs)"
proof -
  have "filter (\<lambda>c. c \<noteq> CHR 0x0A \<and> c \<noteq> CHR 0x0D) (b64_encode url pad bs) = b64_encode url pad bs"
    using b64_encode_visible by (fastforce simp: filter_id_conv visible_def)
  then show ?thesis by (simp add: b64_decode_def)
qed

lemma b64_decode_encode [codec_simps]: "b64_decode url pad (b64_encode url pad bs) = Some bs"
  by (simp add: b64_decode_encoding b64_groups_encode)

end
