(* ===== verification/Keys.thy ===== *)
theory Keys
  imports Frame Hkdf Go_Text
begin

text \<open>
  \<^verbatim>\<open>tcpx/keys.go\<close>: the textual forms of X25519 keys. A key is its 32 raw bytes, and
  \<^verbatim>\<open>ecdh.X25519().NewPrivateKey\<close> and \<^verbatim>\<open>NewPublicKey\<close> check exactly this length. The generator
  takes the next 32 bytes of the random source.
\<close>

section \<open>Model\<close>

definition x25519_new :: "string \<Rightarrow> bytes \<Rightarrow> tcp_error + bytes" where
  "x25519_new what b = (if length b = 32 then Inr b else Inl (ErrKeyText what))"

definition GenerateStaticKey :: "crypto \<Rightarrow> bytes \<Rightarrow> tcp_error + string \<times> string" where
  "GenerateStaticKey C ent =
     (if length ent < 32 then Inl ErrRand
      else let priv = take 32 ent in Inr (hex_encode priv, hex_encode (ecdh_pub C priv)))"

definition GenerateStaticKeyBase64 :: "crypto \<Rightarrow> bytes \<Rightarrow> tcp_error + string \<times> string" where
  "GenerateStaticKeyBase64 C ent =
     (if length ent < 32 then Inl ErrRand
      else let priv = take 32 ent
           in Inr (b64_encode False True priv, b64_encode False True (ecdh_pub C priv)))"

definition ParsePrivateKeyHex :: "string \<Rightarrow> tcp_error + bytes" where
  "ParsePrivateKeyHex s =
     (case hex_decode (trim_space s) of
        None \<Rightarrow> Inl (ErrKeyText ''encoding/hex'')
      | Some b \<Rightarrow> x25519_new ''parse private key'' b)"

definition ParsePublicKeyHex :: "string \<Rightarrow> tcp_error + bytes" where
  "ParsePublicKeyHex s =
     (case hex_decode (trim_space s) of
        None \<Rightarrow> Inl (ErrKeyText ''encoding/hex'')
      | Some b \<Rightarrow> x25519_new ''parse public key'' b)"

text \<open>The decoders in the order of the code: alphabet for URLs or not, padded or not.\<close>

definition b64_decoders :: "(bool \<times> bool) list" where
  "b64_decoders = [(False, True), (False, False), (True, True), (True, False)]"

fun try_decoders :: "(bool \<times> bool) list \<Rightarrow> string \<Rightarrow> tcp_error + bytes" where
  "try_decoders [] s =
     Inl (ErrKeyText ''key must be 32 raw bytes encoded as hex/base64/base64url'')"
| "try_decoders ((url, pad) # encs) s =
     (case b64_decode url pad s of
        Some b \<Rightarrow> if length b = 32 then Inr b else try_decoders encs s
      | None \<Rightarrow> try_decoders encs s)"

definition DecodeX25519Key :: "string \<Rightarrow> tcp_error + bytes" where
  "DecodeX25519Key s0 =
     (let s = trim_space s0
      in if s = [] then Inl (ErrKeyText ''empty key'')
         else case hex_decode s of
             Some b \<Rightarrow> if length b = 32 then Inr b else try_decoders b64_decoders s
           | None \<Rightarrow> try_decoders b64_decoders s)"

definition ParsePrivateKeyAny :: "string \<Rightarrow> tcp_error + bytes" where
  "ParsePrivateKeyAny s =
     (case DecodeX25519Key s of
        Inl e \<Rightarrow> Inl e
      | Inr raw \<Rightarrow> x25519_new ''parse private key'' raw)"

definition ParsePublicKeyAny :: "string \<Rightarrow> tcp_error + bytes" where
  "ParsePublicKeyAny s =
     (case DecodeX25519Key s of
        Inl e \<Rightarrow> Inl e
      | Inr raw \<Rightarrow> x25519_new ''parse public key'' raw)"

definition NormalizePrivateKeyHex :: "string \<Rightarrow> tcp_error + string" where
  "NormalizePrivateKeyHex s =
     (case ParsePrivateKeyAny s of Inl e \<Rightarrow> Inl e | Inr priv \<Rightarrow> Inr (hex_encode priv))"

definition NormalizePublicKeyHex :: "string \<Rightarrow> tcp_error + string" where
  "NormalizePublicKeyHex s =
     (case ParsePublicKeyAny s of Inl e \<Rightarrow> Inl e | Inr pub \<Rightarrow> Inr (hex_encode pub))"

definition PublicKeyHexFromPrivate :: "crypto \<Rightarrow> string \<Rightarrow> tcp_error + string" where
  "PublicKeyHexFromPrivate C s =
     (case ParsePrivateKeyAny s of
        Inl e \<Rightarrow> Inl e | Inr priv \<Rightarrow> Inr (hex_encode (ecdh_pub C priv)))"

definition PublicKeyBase64FromPrivate :: "crypto \<Rightarrow> string \<Rightarrow> tcp_error + string" where
  "PublicKeyBase64FromPrivate C s =
     (case ParsePrivateKeyAny s of
        Inl e \<Rightarrow> Inl e | Inr priv \<Rightarrow> Inr (b64_encode False True (ecdh_pub C priv)))"

section \<open>Every encoding of a key is understood\<close>

lemma trim_space_hex [simp]: "trim_space (hex_encode b) = hex_encode b"
  using visible_hex_encode [of _ b] by (cases "hex_encode b = []") (auto intro: trim_space_visible)

lemma trim_space_b64 [simp]: "trim_space (b64_encode u p b) = b64_encode u p b"
  using b64_encode_visible [of _ u p b]
  by (cases "b64_encode u p b = []") (auto intro: trim_space_visible)

lemma length_b64_encode:
  "length (b64_encode u p b) =
     4 * (length b div 3) +
     (if length b mod 3 = 0 then 0 else if p then 4 else if length b mod 3 = 1 then 2 else 3)"
proof (induction u p b rule: b64_encode.induct)
  case (4 url pad a b c bs)
  have "Suc (Suc (Suc (length bs))) div 3 = Suc (length bs div 3)"
    "Suc (Suc (Suc (length bs))) mod 3 = length bs mod 3" by arith+
  with 4 show ?case by simp
qed simp_all

text \<open>A decoder that does not fail on an encoding of another variant gives the same bytes.\<close>

lemma b64_val_url:
  assumes "n < 64" and "b64_val u (b64_char v n) = Some k"
  shows "k = n"
proof -
  consider "n < 62" | "u = v" | "n = 62" "u \<noteq> v" | "n = 63" "u \<noteq> v"
    using assms(1) by linarith
  then show ?thesis
  proof cases
    case 1
    then have "b64_char v n = b64_char u n" by (simp add: b64_char_def)
    with assms show ?thesis by simp
  next
    case 2
    with assms show ?thesis by simp
  next
    case 3
    with assms(2) show ?thesis by (cases u; cases v) (simp_all add: b64_char_def b64_val_def)
  next
    case 4
    with assms(2) show ?thesis by (cases u; cases v) (simp_all add: b64_char_def b64_val_def)
  qed
qed

lemma b64_val_pad: "b64_val u CHR ''='' = None"
  by (simp add: b64_val_def)

lemma b64_groups_other: "b64_groups u p (b64_encode v q bs) = Some k \<Longrightarrow> k = bs"
proof (induction v q bs arbitrary: k rule: b64_encode.induct)
  case (2 v q a)
  note h = sextet_split [OF unat_byte_lt [of a] unat_byte_lt [of a] unat_byte_lt [of a]]
  note vals = b64_val_url [OF h(1), of u v] b64_val_url [OF h(5), of u v]
  have "b64_two (unat a div 4) (unat a mod 4 * 16) = [a]"
    unfolding b64_two_def h(8) by simp
  with 2 show ?case using b64_char_not_pad [OF h(5), of v]
    by (cases q) (auto simp: b64_val_pad split: option.splits if_splits dest!: vals)
next
  case (3 v q a b)
  note h = sextet_split [OF unat_byte_lt [of a] unat_byte_lt [of b] unat_byte_lt [of b]]
  note vals = b64_val_url [OF h(1), of u v] b64_val_url [OF h(2), of u v] b64_val_url [OF h(6), of u v]
  have "b64_three (unat a div 4) (unat a mod 4 * 16 + unat b div 16) (unat b mod 16 * 4) = [a, b]"
    unfolding b64_three_def h(7,10) by simp
  with 3 show ?case using b64_char_not_pad [OF h(6), of v]
    by (cases q) (auto simp: b64_val_pad split: option.splits if_splits dest!: vals)
next
  case (4 v q a b c bs)
  note h = sextet_split [OF unat_byte_lt [of a] unat_byte_lt [of b] unat_byte_lt [of c]]
  note vals = b64_val_url [OF h(1), of u v] b64_val_url [OF h(2), of u v]
    b64_val_url [OF h(3), of u v] b64_val_url [OF h(4), of u v]
  have "b64_three (unat a div 4) (unat a mod 4 * 16 + unat b div 16)
      (unat b mod 16 * 4 + unat c div 64) = [a, b]"
    unfolding b64_three_def h(7,9) by simp
  moreover have "(of_nat ((unat b mod 16 * 4 + unat c div 64) mod 4 * 64 + unat c mod 64) :: byte) = c"
    unfolding h(11) by simp
  ultimately show ?case
    using 4 b64_char_not_pad [OF h(3), of v] b64_char_not_pad [OF h(4), of v]
    by (auto split: option.splits if_splits dest!: vals)
qed simp

lemma try_decoders_b64:
  assumes "length b = 32" and "(v, q) \<in> set encs"
  shows "try_decoders encs (b64_encode v q b) = Inr b"
  using assms(2)
proof (induction encs)
  case (Cons e encs)
  obtain u p where e: "e = (u, p)" by fastforce
  show ?case
  proof (cases "b64_decode u p (b64_encode v q b)")
    case None
    have "e \<noteq> (v, q)"
    proof
      assume "e = (v, q)"
      with None b64_decode_encode [of v q b] show False by (simp add: e)
    qed
    with Cons None show ?thesis by (auto simp: e)
  next
    case (Some k)
    then have "k = b" using b64_groups_other by (simp add: b64_decode_encoding)
    with Some assms(1) show ?thesis by (simp add: e)
  qed
qed simp

lemma DecodeX25519Key_length: "DecodeX25519Key s = Inr b \<Longrightarrow> length b = 32"
proof -
  have "try_decoders encs t = Inr b \<Longrightarrow> length b = 32" for encs t
    by (induction encs) (auto split: option.splits if_splits)
  then show "DecodeX25519Key s = Inr b \<Longrightarrow> length b = 32"
    by (auto simp: DecodeX25519Key_def Let_def split: if_splits option.splits)
qed

lemma key_text_dec:
  assumes "length b = 32"
  shows "DecodeX25519Key (hex_encode b) = Inr b \<and>
    (\<forall>url pad. DecodeX25519Key (b64_encode url pad b) = Inr b)"
proof -
  have "hex_encode b \<noteq> []" using assms length_hex_encode [of b] by (cases "hex_encode b") auto
  then have "DecodeX25519Key (hex_encode b) = Inr b"
    using assms by (simp add: DecodeX25519Key_def Let_def)
  moreover have "DecodeX25519Key (b64_encode u p b) = Inr b" for u p
  proof -
    let ?s = "b64_encode u p b"
    have len: "length ?s = 44 \<or> length ?s = 43" using assms by (simp add: length_b64_encode)
    have "hex_decode ?s = Some k \<Longrightarrow> length k \<noteq> 32" for k
      using length_hex_decode [of ?s k] len by auto
    moreover have "?s \<noteq> []" using len by auto
    moreover have "try_decoders b64_decoders ?s = Inr b"
      by (rule try_decoders_b64 [OF assms]) (cases u; cases p; simp add: b64_decoders_def)
    ultimately show ?thesis
      by (auto simp: DecodeX25519Key_def Let_def split: option.split)
  qed
  ultimately show ?thesis by blast
qed

section \<open>Properties\<close>

text \<open>
  Key texts. A 32-byte key is understood in hexadecimal and in each of the four base 64
  variants, with or without padding and in both alphabets, and always as the same bytes: no
  encoding of a key is mistaken for another key.
\<close>

theorem key_text_roundtrip:
  assumes "length b = 32"
  shows "DecodeX25519Key (hex_encode b) = Inr b \<and>
    (\<forall>url pad. DecodeX25519Key (b64_encode url pad b) = Inr b)"
  using key_text_dec [OF assms] by blast

theorem key_text_roundtrip_witness:
  "DecodeX25519Key (b64_encode True False (replicate 32 251)) = Inr (replicate 32 251)"
  using key_text_roundtrip [of "replicate 32 251"] by simp

text \<open>
  What the configuration accepts, the transport accepts. A private key text that
  \<open>NormalizePrivateKeyHex\<close> takes becomes a hexadecimal text that the transport's own
  \<open>ParsePrivateKeyHex\<close> parses to the same key, and normalising again changes nothing; the same
  holds for public keys.
\<close>

theorem normalized_key_parses:
  "(NormalizePrivateKeyHex s = Inr h \<longrightarrow>
      ParsePrivateKeyHex h = ParsePrivateKeyAny s \<and> NormalizePrivateKeyHex h = Inr h) \<and>
   (NormalizePublicKeyHex s = Inr h \<longrightarrow>
      ParsePublicKeyHex h = ParsePublicKeyAny s \<and> NormalizePublicKeyHex h = Inr h)"
proof -
  have d: "DecodeX25519Key s = Inr b \<Longrightarrow> length b = 32 \<and> DecodeX25519Key (hex_encode b) = Inr b" for b
    using DecodeX25519Key_length [of s b] key_text_dec by blast
  show ?thesis
    by (auto simp: NormalizePrivateKeyHex_def NormalizePublicKeyHex_def ParsePrivateKeyAny_def
        ParsePublicKeyAny_def ParsePrivateKeyHex_def ParsePublicKeyHex_def x25519_new_def
        split: sum.splits dest: d)
qed

theorem normalized_key_parses_witness:
  "ParsePrivateKeyHex (hex_encode (replicate 32 9)) =
     ParsePrivateKeyAny (b64_encode False True (replicate 32 9))"
proof -
  have "NormalizePrivateKeyHex (b64_encode False True (replicate 32 9)) =
      Inr (hex_encode (replicate 32 9))"
    using key_text_dec [of "replicate 32 9"]
    by (simp add: NormalizePrivateKeyHex_def ParsePrivateKeyAny_def x25519_new_def)
  with normalized_key_parses [of "b64_encode False True (replicate 32 9)"] show ?thesis by blast
qed

end
