(* ===== verification/Net_IP.thy ===== *)
theory Net_IP
  imports Go_Text
begin

text \<open>
  IP addresses as Go's \<^verbatim>\<open>net\<close> package has them: byte slices of length 4 or 16, the parser of
  \<^verbatim>\<open>net.ParseIP\<close> with its two textual forms, \<^verbatim>\<open>To4\<close>, \<^verbatim>\<open>String\<close> for the addresses that have four
  bytes, and masks. The two helpers \<^verbatim>\<open>ipToUint32\<close> and \<^verbatim>\<open>MaskToPrefix\<close>, which several packages
  of the program define for themselves, are modelled here once.
\<close>

section \<open>Dotted addresses\<close>

text \<open>
  The loop over a dotted address: whether the last character was a dot (or there was none),
  value and number of digits of the current field, and the fields already complete.
\<close>

fun ipv4_fields :: "bool \<Rightarrow> nat \<Rightarrow> nat \<Rightarrow> nat list \<Rightarrow> string \<Rightarrow> nat list option" where
  "ipv4_fields dot v digits fs [] = (if length fs < 3 then None else Some (fs @ [v]))"
| "ipv4_fields dot v digits fs (c # cs) =
     (if is_digit c then
        if digits = 1 \<and> v = 0 then None
        else if v * 10 + digit_val c > 255 then None
        else ipv4_fields False (v * 10 + digit_val c) (Suc digits) fs cs
      else if c = CHR ''.'' then
        if dot \<or> cs = [] then None
        else if length fs = 3 then None
        else ipv4_fields True 0 0 (fs @ [v]) cs
      else None)"

definition v4_in_v6 :: "bytes \<Rightarrow> bytes" where
  "v4_in_v6 q = replicate 10 0 @ [255, 255] @ q"

definition parse_ipv4 :: "string \<Rightarrow> bytes option" where
  "parse_ipv4 s = map_option (map of_nat) (ipv4_fields True 0 0 [] s)"

section \<open>Addresses with colons\<close>

text \<open>A group of at most four hexadecimal digits: its value and its length.\<close>

fun hex_group :: "nat \<Rightarrow> nat \<Rightarrow> string \<Rightarrow> (nat \<times> nat) option" where
  "hex_group n acc [] = Some (acc, n)"
| "hex_group n acc (c # cs) =
     (case hex_val c of
        None \<Rightarrow> Some (acc, n)
      | Some v \<Rightarrow> if n > 3 then None
                  else if acc * 16 + v > 0xFFFF then None
                  else hex_group (Suc n) (acc * 16 + v) cs)"

text \<open>The groups so far as bytes, and the place of the ellipsis if there was one.\<close>

function ipv6_groups :: "bytes \<Rightarrow> nat option \<Rightarrow> string \<Rightarrow> (bytes \<times> nat option) option" where
  "ipv6_groups ip ell s =
     (if 16 \<le> length ip then (if s = [] then Some (ip, ell) else None)
      else case hex_group 0 0 s of
        None \<Rightarrow> None
      | Some (acc, n) \<Rightarrow>
          if n = 0 then None
          else (case drop n s of
              [] \<Rightarrow> Some (ip @ [of_nat (acc div 256), of_nat acc], ell)
            | c # r \<Rightarrow>
                if c = CHR ''.'' then
                  if ell = None \<and> length ip \<noteq> 12 then None
                  else if 16 < length ip + 4 then None
                  else map_option (\<lambda>q. (ip @ q, ell)) (parse_ipv4 s)
                else
                  let ip' = ip @ [of_nat (acc div 256), of_nat acc]
                  in if c \<noteq> CHR '':'' \<or> r = [] then None
                     else if hd r = CHR '':'' then
                       if ell \<noteq> None then None
                       else if tl r = [] then Some (ip', Some (length ip'))
                       else ipv6_groups ip' (Some (length ip')) (tl r)
                     else ipv6_groups ip' ell r))"
  by pat_completeness auto
termination by (relation "measure (\<lambda>(ip, ell, s). 16 - length ip)") auto

declare ipv6_groups.simps [simp del]

definition expand_ellipsis :: "bytes \<times> nat option \<Rightarrow> bytes option" where
  "expand_ellipsis p =
     (case p of (ip, ell) \<Rightarrow>
        if length ip < 16 then
          (case ell of
             None \<Rightarrow> None
           | Some e \<Rightarrow> Some (take e ip @ replicate (16 - length ip) 0 @ drop e ip))
        else if ell \<noteq> None then None else Some ip)"

text \<open>A zone (anything after a percent sign) makes \<^verbatim>\<open>net.ParseIP\<close> return nil.\<close>

definition parse_ipv6 :: "string \<Rightarrow> bytes option" where
  "parse_ipv6 s =
     (if CHR ''%'' \<in> set s then None
      else if take 2 s = ''::'' then
        (if drop 2 s = [] then Some (replicate 16 0)
         else Option.bind (ipv6_groups [] (Some 0) (drop 2 s)) expand_ellipsis)
      else Option.bind (ipv6_groups [] None s) expand_ellipsis)"

text \<open>\<^verbatim>\<open>net.ParseIP\<close>: the first separator decides the form; \<open>None\<close> is the nil slice.\<close>

definition ParseIP :: "string \<Rightarrow> bytes option" where
  "ParseIP s =
     (case find (\<lambda>c. c = CHR ''.'' \<or> c = CHR '':'' \<or> c = CHR ''%'') s of
        None \<Rightarrow> None
      | Some c \<Rightarrow> if c = CHR ''.'' then map_option v4_in_v6 (parse_ipv4 s)
                  else if c = CHR '':'' then parse_ipv6 s
                  else None)"

section \<open>Four-byte addresses\<close>

definition To4 :: "bytes \<Rightarrow> bytes option" where
  "To4 ip =
     (if length ip = 4 then Some ip
      else if length ip = 16 \<and> take 10 ip = replicate 10 0 \<and> ip ! 10 = 255 \<and> ip ! 11 = 255
        then Some (drop 12 ip)
      else None)"

text \<open>\<^verbatim>\<open>net.ParseIP(s).To4()\<close>\<close>

definition parse_v4 :: "string \<Rightarrow> bytes option" where
  "parse_v4 s = Option.bind (ParseIP s) To4"

text \<open>\<^verbatim>\<open>net.IPv4\<close>, \<^verbatim>\<open>ipToUint32\<close> (of an address that \<^verbatim>\<open>To4\<close> accepts) and \<^verbatim>\<open>uint32ToIP\<close>.\<close>

definition net_IPv4 :: "byte \<Rightarrow> byte \<Rightarrow> byte \<Rightarrow> byte \<Rightarrow> bytes" where
  "net_IPv4 a b c d = v4_in_v6 [a, b, c, d]"

definition ipToUint32 :: "bytes \<Rightarrow> 32 word" where
  "ipToUint32 v =
     push_bit 24 (ucast (v ! 0)) OR push_bit 16 (ucast (v ! 1)) OR
     push_bit 8 (ucast (v ! 2)) OR ucast (v ! 3)"

definition uint32ToIP :: "32 word \<Rightarrow> bytes" where
  "uint32ToIP v =
     net_IPv4 (ucast (drop_bit 24 v)) (ucast (drop_bit 16 v)) (ucast (drop_bit 8 v)) (ucast v)"

text \<open>\<^verbatim>\<open>String\<close> of an address whose four bytes are given.\<close>

definition v4_string :: "bytes \<Rightarrow> string" where
  "v4_string q =
     decimal (unat (q ! 0)) @ ''.'' @ decimal (unat (q ! 1)) @ ''.'' @
     decimal (unat (q ! 2)) @ ''.'' @ decimal (unat (q ! 3))"

definition dotted :: "32 word \<Rightarrow> string" where
  "dotted v = v4_string (put_u32 v)"

section \<open>Masks\<close>

text \<open>The leading one bits of a byte, and the byte without them.\<close>

definition byte_ones :: "byte \<Rightarrow> nat" where
  "byte_ones b = length (takeWhile (\<lambda>i. bit b i) [7, 6, 5, 4, 3, 2, 1, 0])"

fun mask_ones :: "bytes \<Rightarrow> nat option" where
  "mask_ones [] = Some 0"
| "mask_ones (b # bs) =
     (if b = 255 then map_option ((+) 8) (mask_ones bs)
      else if push_bit (byte_ones b) b \<noteq> 0 then None
      else if list_all (\<lambda>x. x = 0) bs then Some (byte_ones b)
      else None)"

text \<open>\<^verbatim>\<open>IPMask.Size\<close> of a four-byte mask: \<open>(0, 0)\<close> when the ones are not a prefix.\<close>

definition mask_Size :: "bytes \<Rightarrow> nat \<times> nat" where
  "mask_Size m = (case mask_ones m of None \<Rightarrow> (0, 0) | Some n \<Rightarrow> (n, 8 * length m))"

definition MaskToPrefix :: "string \<Rightarrow> nat option" where
  "MaskToPrefix m =
     (case parse_v4 m of
        None \<Rightarrow> None
      | Some ip \<Rightarrow> (case mask_Size ip of (ones, bits) \<Rightarrow> if bits \<noteq> 32 then None else Some ones))"

section \<open>Parsing what was printed\<close>

lemma To4_v4_in_v6 [simp]: "length q = 4 \<Longrightarrow> To4 (v4_in_v6 q) = Some q"
  by (simp add: To4_def v4_in_v6_def nth_append)

lemma To4_length: "To4 ip = Some q \<Longrightarrow> length q = 4"
  by (auto simp: To4_def split: if_splits)

lemma To4_uint32ToIP [simp]: "To4 (uint32ToIP v) = Some (put_u32 v)"
  by (simp add: uint32ToIP_def net_IPv4_def put_u32_def)

lemma ipToUint32_get: "length q = 4 \<Longrightarrow> ipToUint32 q = get_u32 q"
  by (auto simp: ipToUint32_def length_Suc_conv eval_nat_numeral)

lemma ipToUint32_put [simp]: "ipToUint32 (put_u32 v) = v"
  by (simp add: ipToUint32_get)

lemma put_ipToUint32: "length q = 4 \<Longrightarrow> put_u32 (ipToUint32 q) = q"
  by (simp add: ipToUint32_get put_get_u32)

lemma v4_string_dotted: "length q = 4 \<Longrightarrow> v4_string q = dotted (ipToUint32 q)"
  by (simp add: dotted_def put_ipToUint32)

text \<open>One field: its digits take the loop to the field's value.\<close>

lemma ipv4_fields_decimal:
  assumes "v < 256"
  shows "\<exists>k. ipv4_fields True 0 0 fs (decimal v @ rest) = ipv4_fields False v k fs rest"
proof -
  consider "v < 10" | "10 \<le> v" "v < 100" | "100 \<le> v" by linarith
  then show ?thesis
  proof cases
    case 1
    then show ?thesis by (auto simp: decimal.simps)
  next
    case 2
    define i j where "i = v div 10" and "j = v mod 10"
    have v: "v = 10 * i + j" "0 < i" "i < 10" "j < 10" using 2 by (auto simp: i_def j_def)
    have "decimal v = [digit_char i, digit_char j]"
      using 2 v(2,3) by (simp add: decimal.simps i_def j_def)
    then show ?thesis using v assms by (auto simp: mult.commute)
  next
    case 3
    define i j k where "i = v div 10 div 10" and "j = v div 10 mod 10" and "k = v mod 10"
    have v: "v = 100 * i + 10 * j + k" "0 < i" "i < 10" "j < 10" "k < 10"
      using 3 assms div_mult_mod_eq [of v 10] div_mult_mod_eq [of "v div 10" 10]
      unfolding i_def j_def k_def by linarith+
    have "decimal v = [digit_char i, digit_char j, digit_char k]"
      using 3 v(2,3) by (simp add: decimal.simps i_def j_def k_def)
    then show ?thesis using v assms by (auto simp: algebra_simps)
  qed
qed

lemma not_digit_dot [simp]: "\<not> is_digit CHR ''.''"
  by (simp add: is_digit_def)

lemma ipv4_fields_dot:
  assumes "length fs < 3" and "rest \<noteq> []"
  shows "ipv4_fields True 0 0 fs (decimal (unat (b :: byte)) @ CHR ''.'' # rest) =
         ipv4_fields True 0 0 (fs @ [unat b]) rest"
  using ipv4_fields_decimal [OF unat_byte_lt, of fs b "CHR ''.'' # rest"] assms by auto

lemma ipv4_fields_end:
  assumes "length fs = 3"
  shows "ipv4_fields True 0 0 fs (decimal (unat (b :: byte))) = Some (fs @ [unat b])"
  using ipv4_fields_decimal [OF unat_byte_lt, of fs b "[]"] assms by auto

lemma parse_ipv4_string: "length q = 4 \<Longrightarrow> parse_ipv4 (v4_string q) = Some q"
  by (auto simp: parse_ipv4_def v4_string_def ipv4_fields_dot ipv4_fields_end length_Suc_conv
      eval_nat_numeral)

lemma find_digits:
  assumes "\<forall>c\<in>set s. is_digit c"
  shows "find (\<lambda>c. c = CHR ''.'' \<or> c = CHR '':'' \<or> c = CHR ''%'') (s @ t) =
         find (\<lambda>c. c = CHR ''.'' \<or> c = CHR '':'' \<or> c = CHR ''%'') t"
  using assms by (induction s) (auto simp: is_digit_def)

lemma ParseIP_string: "length q = 4 \<Longrightarrow> ParseIP (v4_string q) = Some (v4_in_v6 q)"
proof -
  assume q: "length q = 4"
  have "find (\<lambda>c. c = CHR ''.'' \<or> c = CHR '':'' \<or> c = CHR ''%'') (v4_string q) = Some CHR ''.''"
    unfolding v4_string_def by (subst find_digits) (auto dest: decimal_digits)
  with parse_ipv4_string [OF q] show ?thesis by (simp add: ParseIP_def)
qed

lemma parse_v4_string [simp]: "length q = 4 \<Longrightarrow> parse_v4 (v4_string q) = Some q"
  by (simp add: parse_v4_def ParseIP_string)

lemma parse_v4_dotted [simp]: "parse_v4 (dotted v) = Some (put_u32 v)"
  by (simp add: dotted_def)

lemma parse_v4_length: "parse_v4 s = Some q \<Longrightarrow> length q = 4"
  by (auto simp: parse_v4_def bind_eq_Some_conv To4_length)

lemma dotted_inj [simp]: "dotted v = dotted w \<longleftrightarrow> v = w"
  by (metis ipToUint32_put option.inject parse_v4_dotted)

lemma dotted_not_Nil [simp]: "dotted v \<noteq> []"
  by (simp add: dotted_def v4_string_def)

lemma hd_last_decimal: "is_digit (hd (decimal n))" "is_digit (last (decimal n))"
  using decimal_digits [of _ n] by simp_all

lemma trim_space_dotted [simp]: "trim_space (dotted v) = dotted v"
proof (rule trim_space_visible)
  have d: "is_digit c \<Longrightarrow> visible c" for c by (simp add: is_digit_def visible_def)
  show "visible (hd (dotted v))" "visible (last (dotted v))"
    using hd_last_decimal d by (simp_all add: dotted_def v4_string_def)
qed simp

section \<open>Masks as bits\<close>

definition byte_bits :: "byte \<Rightarrow> bool list" where
  "byte_bits b = map (\<lambda>i. bit b i) [7, 6, 5, 4, 3, 2, 1, 0]"

definition prefix_bits :: "nat \<Rightarrow> nat \<Rightarrow> bool list" where
  "prefix_bits n k = replicate n True @ replicate k False"

lemma length_byte_bits [simp]: "length (byte_bits b) = 8"
  by (simp add: byte_bits_def)

lemma byte_bits_inj: "byte_bits b = byte_bits c \<longleftrightarrow> b = c"
proof
  assume h: "byte_bits b = byte_bits c"
  show "b = c"
  proof (rule bit_word_eqI)
    fix n
    assume "n < LENGTH(8)"
    then have "n \<in> {0, 1, 2, 3, 4, 5, 6, 7}" by auto
    with h show "bit b n = bit c n" by (auto simp: byte_bits_def)
  qed
qed simp

lemma byte_bits_255: "byte_bits b = replicate 8 True \<longleftrightarrow> b = 255"
proof -
  have "byte_bits 255 = replicate 8 True" by (simp add: byte_bits_def eval_nat_numeral)
  then show ?thesis using byte_bits_inj [of b 255] by simp
qed

lemma byte_bits_0: "byte_bits b = replicate 8 False \<longleftrightarrow> b = 0"
proof -
  have "byte_bits 0 = replicate 8 False" by (simp add: byte_bits_def eval_nat_numeral)
  then show ?thesis using byte_bits_inj [of b 0] by simp
qed

lemma byte_ones_bits: "byte_ones b = length (takeWhile id (byte_bits b))"
  by (simp add: byte_ones_def byte_bits_def takeWhile_map o_def)

lemma drop_map_nth: "list_all (\<lambda>x. \<not> x) (drop k xs) \<longleftrightarrow> (\<forall>i<length xs. k \<le> i \<longrightarrow> \<not> xs ! i)"
proof
  assume "list_all (\<lambda>x. \<not> x) (drop k xs)"
  then have "\<not> xs ! i" if "i < length xs" "k \<le> i" for i
    using that le_Suc_ex [OF that(2)] by (auto simp: list_all_length)
  then show "\<forall>i<length xs. k \<le> i \<longrightarrow> \<not> xs ! i" by auto
qed (simp add: list_all_length)

lemma byte_bits_nth: "i < 8 \<Longrightarrow> byte_bits b ! i = bit b (7 - i)"
proof -
  assume "i < 8"
  then have "i \<in> {0, 1, 2, 3, 4, 5, 6, 7}" by auto
  then show ?thesis by (auto simp: byte_bits_def)
qed

lemma push_bit_zero:
  assumes "k \<le> 8"
  shows "push_bit k b = (0 :: byte) \<longleftrightarrow> list_all (\<lambda>x. \<not> x) (drop k (byte_bits b))"
proof -
  have "push_bit k b = 0 \<longleftrightarrow> (\<forall>j<8. k \<le> j \<longrightarrow> \<not> bit b (j - k))"
    by (auto simp: bit_eq_iff bit_simps)
  also have "\<dots> \<longleftrightarrow> (\<forall>i<8. k \<le> i \<longrightarrow> \<not> bit b (7 - i))"
  proof (intro iffI allI impI)
    fix i :: nat
    assume h: "\<forall>j<8. k \<le> j \<longrightarrow> \<not> bit b (j - k)" and "i < 8" "k \<le> i"
    then have "7 - i + k < 8" "k \<le> 7 - i + k" by simp_all
    with h show "\<not> bit b (7 - i)" by (metis add_diff_cancel_right')
  next
    fix j :: nat
    assume h: "\<forall>i<8. k \<le> i \<longrightarrow> \<not> bit b (7 - i)" and "j < 8" "k \<le> j"
    then have "7 - (j - k) < 8" "k \<le> 7 - (j - k)" "7 - (7 - (j - k)) = j - k"
      using assms by simp_all
    with h show "\<not> bit b (j - k)" by metis
  qed
  finally show ?thesis by (simp add: drop_map_nth byte_bits_nth)
qed

text \<open>A list of bits is a prefix of ones exactly when nothing is set after its leading ones.\<close>

lemma all_False: "list_all (\<lambda>x. \<not> x) xs \<longleftrightarrow> xs = replicate (length xs) False"
  by (induction xs) auto

lemma prefix_bits_leading:
  "list_all (\<lambda>x. \<not> x) (drop (length (takeWhile id xs)) xs) \<longleftrightarrow>
     xs = prefix_bits (length (takeWhile id xs)) (length xs - length (takeWhile id xs))"
  by (induction xs) (auto simp: prefix_bits_def all_False)

lemma takeWhile_prefix: "length (takeWhile id (prefix_bits n k)) = n"
  by (induction n) (auto simp: prefix_bits_def takeWhile_replicate)

lemma byte_prefix:
  "push_bit (byte_ones b) b = 0 \<and> n = byte_ones b \<longleftrightarrow> n \<le> 8 \<and> byte_bits b = prefix_bits n (8 - n)"
proof -
  have le: "byte_ones b \<le> 8" using length_takeWhile_le [of id "byte_bits b"] by (simp add: byte_ones_bits)
  have "push_bit (byte_ones b) b = 0 \<longleftrightarrow> byte_bits b = prefix_bits (byte_ones b) (8 - byte_ones b)"
    using push_bit_zero [OF le] prefix_bits_leading [of "byte_bits b"] by (simp add: byte_ones_bits)
  moreover have "byte_ones b = n" if "byte_bits b = prefix_bits n (8 - n)"
    using that takeWhile_prefix [of n "8 - n"] by (simp add: byte_ones_bits)
  ultimately show ?thesis using le by auto
qed

lemma concat_byte_bits_zero:
  "list_all (\<lambda>x. x = 0) bs \<longleftrightarrow> concat (map byte_bits bs) = replicate (8 * length bs) False"
proof (induction bs)
  case (Cons b bs)
  have "replicate (8 * length (b # bs)) False = replicate 8 False @ replicate (8 * length bs) False"
    by (simp add: replicate_add)
  with Cons show ?case by (auto simp: byte_bits_0)
qed simp

lemma mask_ones_iff:
  "mask_ones bs = Some n \<longleftrightarrow>
     n \<le> 8 * length bs \<and> concat (map byte_bits bs) = prefix_bits n (8 * length bs - n)"
proof (induction bs arbitrary: n)
  case Nil
  then show ?case by (auto simp: prefix_bits_def)
next
  case (Cons b bs)
  show ?case
  proof (cases "b = 255")
    case True
    then have b: "byte_bits b = replicate 8 True" by (simp add: byte_bits_255)
    have a: "mask_ones (b # bs) = Some n \<longleftrightarrow> 8 \<le> n \<and> mask_ones bs = Some (n - 8)"
      using True by (auto simp: le_iff_add)
    have "concat (map byte_bits (b # bs)) = prefix_bits n k \<longleftrightarrow>
        8 \<le> n \<and> concat (map byte_bits bs) = prefix_bits (n - 8) k"
      if "length (concat (map byte_bits bs)) + 8 = n + k" for k
    proof (cases "8 \<le> n")
      case True
      then have "replicate n True = replicate 8 True @ replicate (n - 8) True"
        by (simp add: replicate_add [symmetric])
      with b True show ?thesis by (simp add: prefix_bits_def)
    next
      case False
      then have "(replicate 8 True @ concat (map byte_bits bs)) ! n \<noteq> prefix_bits n k ! n"
        using that by (auto simp: prefix_bits_def nth_append)
      with b False show ?thesis by auto
    qed
    note split = this
    have len: "length (concat (map byte_bits bs)) = 8 * length bs"
      by (simp add: length_concat o_def sum_list_triv)
    show ?thesis
    proof (cases "n \<le> 8 * length (b # bs)")
      case le: True
      define k where "k = 8 * length (b # bs) - n"
      have "mask_ones (b # bs) = Some n \<longleftrightarrow> 8 \<le> n \<and> concat (map byte_bits bs) = prefix_bits (n - 8) k"
        using a Cons [of "n - 8"] le by (auto simp: k_def add.commute)
      with split [of k] le show ?thesis by (simp add: k_def len)
    next
      case False
      with a Cons [of "n - 8"] show ?thesis by auto
    qed
  next
    case False
    have "mask_ones (b # bs) = Some n \<longleftrightarrow>
        (push_bit (byte_ones b) b = 0 \<and> n = byte_ones b) \<and> list_all (\<lambda>x. x = 0) bs"
      using False by auto
    also have "\<dots> \<longleftrightarrow> n \<le> 8 \<and> byte_bits b = prefix_bits n (8 - n) \<and>
        concat (map byte_bits bs) = replicate (8 * length bs) False"
      by (simp add: byte_prefix concat_byte_bits_zero)
    also have "\<dots> \<longleftrightarrow> n \<le> 8 * length (b # bs) \<and>
        byte_bits b @ concat (map byte_bits bs) = prefix_bits n (8 * length (b # bs) - n)"
    proof (cases "n \<le> 8")
      case True
      then have "prefix_bits n (8 * length (b # bs) - n) =
          prefix_bits n (8 - n) @ replicate (8 * length bs) False"
        by (simp add: prefix_bits_def replicate_add [symmetric])
      moreover have "length (byte_bits b) = length (prefix_bits n (8 - n))"
        using True by (simp add: prefix_bits_def)
      ultimately show ?thesis using True by simp
    next
      case F: False
      have "byte_bits b \<noteq> replicate 8 True" using False by (simp add: byte_bits_255)
      moreover have "take 8 (prefix_bits n k) = replicate 8 True" for k
        using F by (simp add: prefix_bits_def)
      ultimately have "byte_bits b @ concat (map byte_bits bs) \<noteq> prefix_bits n k" for k
        by (metis append_eq_conv_conj length_byte_bits)
      with F show ?thesis by auto
    qed
    finally show ?thesis by simp
  qed
qed

lemma concat_byte_bits_put: "concat (map byte_bits (put_u32 m)) = map (bit m) (rev [0..<32])"
proof -
  have r: "rev [0..<32] = [31, 30, 29, 28, 27, 26, 25, 24, 23, 22, 21, 20, 19, 18, 17, 16, 15, 14,
      13, 12, 11, 10, 9, 8, 7, 6, 5, 4, 3, 2, 1, 0 :: nat]" by (simp add: upt_rec)
  show ?thesis by (simp add: put_u32_def byte_bits_def r bit_simps)
qed

text \<open>
  Subnet masks. \<open>MaskToPrefix\<close> of a dotted mask succeeds with \<open>n\<close> exactly when the mask
  consists of \<open>n\<close> one bits followed by zero bits only; every other mask is refused.
\<close>

theorem mask_to_prefix_exact:
  "MaskToPrefix (dotted m) = Some n \<longleftrightarrow> n \<le> 32 \<and> (\<forall>i<32. bit m i = (32 - n \<le> i))"
proof -
  have "MaskToPrefix (dotted m) = Some n \<longleftrightarrow> mask_ones (put_u32 m) = Some n"
    by (auto simp: MaskToPrefix_def mask_Size_def split: option.splits)
  also have "\<dots> \<longleftrightarrow> n \<le> 32 \<and> map (bit m) (rev [0..<32]) = prefix_bits n (32 - n)"
    by (simp add: mask_ones_iff concat_byte_bits_put)
  also have "\<dots> \<longleftrightarrow> n \<le> 32 \<and> (\<forall>i<32. bit m (31 - i) = (i < n))"
    by (auto simp: list_eq_iff_nth_eq prefix_bits_def nth_append rev_nth)
  also have "\<dots> \<longleftrightarrow> n \<le> 32 \<and> (\<forall>i<32. bit m i = (32 - n \<le> i))"
  proof -
    have "bit m i = (32 - n \<le> i)" if "n \<le> 32" "\<forall>i<32. bit m (31 - i) = (i < n)" "i < 32" for i
    proof -
      from that(3) have "31 - i < 32" "31 - (31 - i) = i" by simp_all
      with that(2) have "bit m i = (31 - i < n)" by metis
      with that(1,3) show ?thesis by auto
    qed
    moreover have "bit m (31 - i) = (i < n)"
      if "n \<le> 32" "\<forall>i<32. bit m i = (32 - n \<le> i)" "i < 32" for i
      using that by auto
    ultimately show ?thesis by blast
  qed
  finally show ?thesis .
qed

theorem mask_to_prefix_exact_witness: "MaskToPrefix (dotted 0xFFFFFF00) = Some 24"
proof -
  have "bit (0xFFFFFF00 :: 32 word) i = (8 \<le> i)" if "i < 32" for i
  proof -
    have "(0xFFFFFF00 :: 32 word) = NOT (mask 8)" by (simp add: mask_eq_exp_minus_1)
    then show ?thesis by (simp only: bit_not_iff) (use that in \<open>simp add: bit_simps not_less\<close>)
  qed
  then show ?thesis by (simp add: mask_to_prefix_exact)
qed

end
