(* ===== verification/App_Protocol.thy ===== *)
theory App_Protocol
  imports Keys Net_IP
begin

text \<open>
  The small parts of the \<^verbatim>\<open>vlan\<close> package under the server and the client: the payload types of
  \<^verbatim>\<open>protocol.go\<close>, the packet classification and the traffic counters of \<^verbatim>\<open>state.go\<close>, and the proof
  of identity of \<^verbatim>\<open>auth.go\<close>. The mobile client repeats the first and the last of them word for
  word (\<^verbatim>\<open>mobile/lwyvpn.go\<close>).
\<close>

section \<open>Payload types\<close>

datatype payload_type = TypeAuth | TypeVDHCP | TypeIP

fun type_byte :: "payload_type \<Rightarrow> byte" where
  "type_byte TypeAuth = 1"
| "type_byte TypeVDHCP = 2"
| "type_byte TypeIP = 3"

datatype unpack_error = EmptyPayload | UnknownPayload byte

definition Pack :: "payload_type \<Rightarrow> bytes \<Rightarrow> bytes" where
  "Pack t payload = type_byte t # payload"

definition Unpack :: "bytes \<Rightarrow> unpack_error + payload_type \<times> bytes" where
  "Unpack b =
     (case b of
        [] \<Rightarrow> Inl EmptyPayload
      | t # payload \<Rightarrow>
          if t = 1 then Inr (TypeAuth, payload)
          else if t = 2 then Inr (TypeVDHCP, payload)
          else if t = 3 then Inr (TypeIP, payload)
          else Inl (UnknownPayload t))"

definition shortID :: "string \<Rightarrow> string" where
  "shortID s = (if length s \<le> 12 then s else take 12 s)"

section \<open>Packet classification\<close>

text \<open>\<^verbatim>\<open>IP.Equal\<close>: a four-byte address equals its sixteen-byte form.\<close>

definition ip_Equal :: "bytes \<Rightarrow> bytes \<Rightarrow> bool" where
  "ip_Equal a b \<longleftrightarrow>
     (if length a = length b then a = b
      else if length a = 4 \<and> length b = 16 then b = v4_in_v6 a
      else if length a = 16 \<and> length b = 4 then a = v4_in_v6 b
      else False)"

definition IsBroadcast :: "bytes \<Rightarrow> bool" where
  "IsBroadcast dst \<longleftrightarrow> ip_Equal dst (net_IPv4 255 255 255 255)"

definition IsSubnetBroadcast :: "bytes \<Rightarrow> string \<Rightarrow> string \<Rightarrow> bool" where
  "IsSubnetBroadcast dst gateway subnetMask =
     (case (To4 dst, parse_v4 gateway, parse_v4 subnetMask) of
        (Some dst4, Some gw4, Some m) \<Rightarrow>
          ip_Equal dst4 (map (\<lambda>i. gw4 ! i OR NOT (m ! i)) [0, 1, 2, 3])
      | _ \<Rightarrow> False)"

definition IsMulticast :: "bytes \<Rightarrow> bool" where
  "IsMulticast dst =
     (if length dst \<noteq> 4 then False else 0xE0 \<le> dst ! 0 \<and> dst ! 0 \<le> 0xEF)"

section \<open>Traffic counters\<close>

text \<open>
  A rate is a float quotient in the code; here it is the pair of the byte count and the
  nanoseconds it is divided by.
\<close>

record traffic_counter =
  tc_up :: "64 word"
  tc_down :: "64 word"
  tc_lastUp :: "64 word"
  tc_lastDown :: "64 word"
  tc_lastNano :: int

record traffic_stats =
  ts_up :: "64 word"
  ts_down :: "64 word"
  ts_upRate :: "64 word \<times> int"
  ts_downRate :: "64 word \<times> int"

definition zero_counter :: traffic_counter where
  "zero_counter = \<lparr>tc_up = 0, tc_down = 0, tc_lastUp = 0, tc_lastDown = 0, tc_lastNano = 0\<rparr>"

definition AddUpload :: "nat \<Rightarrow> traffic_counter \<Rightarrow> traffic_counter" where
  "AddUpload n t = (if n > 0 then t\<lparr>tc_up := tc_up t + of_nat n\<rparr> else t)"

definition AddDownload :: "nat \<Rightarrow> traffic_counter \<Rightarrow> traffic_counter" where
  "AddDownload n t = (if n > 0 then t\<lparr>tc_down := tc_down t + of_nat n\<rparr> else t)"

definition tcSnapshot :: "int \<Rightarrow> traffic_counter \<Rightarrow> traffic_stats \<times> traffic_counter" where
  "tcSnapshot now t =
     (let up = tc_up t; down = tc_down t; dt = now - tc_lastNano t
      in if tc_lastNano t = 0 then
           (\<lparr>ts_up = up, ts_down = down, ts_upRate = (0, 1), ts_downRate = (0, 1)\<rparr>,
            t\<lparr>tc_lastNano := now, tc_lastUp := up, tc_lastDown := down\<rparr>)
         else if dt \<le> 0 then
           (\<lparr>ts_up = up, ts_down = down, ts_upRate = (0, 1), ts_downRate = (0, 1)\<rparr>, t)
         else
           (\<lparr>ts_up = up, ts_down = down, ts_upRate = (up - tc_lastUp t, dt),
             ts_downRate = (down - tc_lastDown t, dt)\<rparr>,
            t\<lparr>tc_lastUp := up, tc_lastDown := down, tc_lastNano := now\<rparr>))"

section \<open>Proof of identity\<close>

definition clientAuthVersion :: byte where "clientAuthVersion = 1"
definition clientAuthNonceSize :: nat where "clientAuthNonceSize = 16"
definition clientAuthMACSize :: nat where "clientAuthMACSize = 32"
definition clientAuthPayloadSize :: nat where
  "clientAuthPayloadSize = 1 + 32 + clientAuthNonceSize + clientAuthMACSize"

datatype auth_error =
  BadAuthSize nat | BadAuthVersion byte | BadAuthKey tcp_error | AuthECDH | AuthRand | AuthMAC

definition clientAuthMAC :: "crypto \<Rightarrow> bytes \<Rightarrow> bytes \<Rightarrow> bytes \<Rightarrow> bytes \<Rightarrow> bytes" where
  "clientAuthMAC C shared clientPub serverPub nonce =
     (let prk = hmac C shared (str_bytes ''vlan2 client auth root v2'')
      in hmac C prk (str_bytes ''vlan2 client auth payload v2'' @ clientPub @ serverPub @ nonce))"

definition EncodeClientAuth ::
    "crypto \<Rightarrow> string \<Rightarrow> string \<Rightarrow> bytes \<Rightarrow> auth_error + bytes \<times> string" where
  "EncodeClientAuth C clientPrivateKey serverPublicKey ent =
     (case ParsePrivateKeyAny clientPrivateKey of
        Inl e \<Rightarrow> Inl (BadAuthKey e)
      | Inr clientPriv \<Rightarrow>
          (case ParsePublicKeyAny serverPublicKey of
             Inl e \<Rightarrow> Inl (BadAuthKey e)
           | Inr serverPub \<Rightarrow>
               (case ecdh C clientPriv serverPub of
                  None \<Rightarrow> Inl AuthECDH
                | Some shared \<Rightarrow>
                    let clientPubRaw = ecdh_pub C clientPriv
                    in if length ent < clientAuthNonceSize then Inl AuthRand
                       else
                         let nonce = take clientAuthNonceSize ent;
                             mac = clientAuthMAC C shared clientPubRaw serverPub nonce
                         in Inr ([clientAuthVersion] @ clientPubRaw @ nonce @ mac,
                                 hex_encode clientPubRaw))))"

definition VerifyClientAuth :: "crypto \<Rightarrow> bytes \<Rightarrow> string \<Rightarrow> auth_error + string" where
  "VerifyClientAuth C payload serverPrivateKey =
     (if length payload \<noteq> clientAuthPayloadSize then Inl (BadAuthSize (length payload))
      else if payload ! 0 \<noteq> clientAuthVersion then Inl (BadAuthVersion (payload ! 0))
      else case ParsePrivateKeyAny serverPrivateKey of
          Inl e \<Rightarrow> Inl (BadAuthKey e)
        | Inr serverPriv \<Rightarrow>
            let clientPubRaw = take 32 (drop 1 payload);
                nonce = take clientAuthNonceSize (drop (1 + 32) payload);
                gotMAC = drop (1 + 32 + clientAuthNonceSize) payload
            in case ParsePublicKeyAny (hex_encode clientPubRaw) of
                Inl e \<Rightarrow> Inl (BadAuthKey e)
              | Inr clientPub \<Rightarrow>
                  (case ecdh C serverPriv clientPub of
                     None \<Rightarrow> Inl AuthECDH
                   | Some shared \<Rightarrow>
                       let wantMAC = clientAuthMAC C shared clientPubRaw (ecdh_pub C serverPriv) nonce
                       in if gotMAC \<noteq> wantMAC then Inl AuthMAC
                          else Inr (hex_encode clientPubRaw)))"

section \<open>Lemmas\<close>

lemma Unpack_Pack [simp, codec_simps]: "Unpack (Pack t p) = Inr (t, p)"
  by (cases t) (simp_all add: Pack_def Unpack_def)

lemma Unpack_InrD: "Unpack b = Inr (t, p) \<Longrightarrow> b = Pack t p"
  by (auto simp: Unpack_def Pack_def split: list.splits if_splits)

lemma ParsePublicKeyAny_hex: "length b = 32 \<Longrightarrow> ParsePublicKeyAny (hex_encode b) = Inr b"
  using key_text_dec [of b] by (simp add: ParsePublicKeyAny_def x25519_new_def)

lemma ParseKeyAny_length:
  "ParsePrivateKeyAny s = Inr b \<Longrightarrow> length b = 32" "ParsePublicKeyAny s = Inr b \<Longrightarrow> length b = 32"
  by (auto simp: ParsePrivateKeyAny_def ParsePublicKeyAny_def x25519_new_def
      split: sum.splits if_splits)

lemma length_clientAuthMAC: "hmac_len C \<Longrightarrow> length (clientAuthMAC C s c p n) = 32"
  by (simp add: clientAuthMAC_def hmac_len_def Let_def)

lemma VerifyClientAuth_parts:
  assumes "hmac_len C" and "length pub = 32" and "length nonce = 16" and "length mac = 32"
    and "ParsePrivateKeyAny sk = Inr sp"
  shows "VerifyClientAuth C ([1] @ pub @ nonce @ mac) sk =
    (case ecdh C sp pub of
       None \<Rightarrow> Inl AuthECDH
     | Some shared \<Rightarrow>
         if mac \<noteq> clientAuthMAC C shared pub (ecdh_pub C sp) nonce then Inl AuthMAC
         else Inr (hex_encode pub))"
proof -
  have "length ([1] @ pub @ nonce @ mac) = clientAuthPayloadSize"
    using assms by (simp add: clientAuthPayloadSize_def clientAuthNonceSize_def clientAuthMACSize_def)
  then show ?thesis
    using assms(2-5) ParsePublicKeyAny_hex [OF assms(2)]
    by (simp add: VerifyClientAuth_def clientAuthVersion_def clientAuthNonceSize_def Let_def
        split: option.split)
qed

text \<open>A payload of the right size splits into its four fields.\<close>

lemma auth_payload_split:
  assumes "length p = 81"
  shows "p = [p ! 0] @ take 32 (drop 1 p) @ take 16 (drop 33 p) @ drop 49 p"
proof -
  have "p \<noteq> []" using assms by auto
  then have "p = [p ! 0] @ drop 1 p" by (cases p) simp_all
  also have "drop 1 p = take 32 (drop 1 p) @ drop 33 p"
    using append_take_drop_id [of 32 "drop 1 p"] by simp
  also have "drop 33 p = take 16 (drop 33 p) @ drop 49 p"
    using append_take_drop_id [of 16 "drop 33 p"] by simp
  finally show ?thesis by simp
qed

lemma EncodeClientAuth_InrD:
  assumes "EncodeClientAuth C ck spk ent = Inr (payload, clientID)"
  shows "\<exists>cp sp shared. ParsePrivateKeyAny ck = Inr cp \<and> ParsePublicKeyAny spk = Inr sp \<and>
    ecdh C cp sp = Some shared \<and> 16 \<le> length ent \<and> clientID = hex_encode (ecdh_pub C cp) \<and>
    payload = [1] @ ecdh_pub C cp @ take 16 ent @
      clientAuthMAC C shared (ecdh_pub C cp) sp (take 16 ent)"
  using assms
  by (auto simp: EncodeClientAuth_def clientAuthVersion_def clientAuthNonceSize_def Let_def
      split: sum.splits option.splits if_splits)

lemma auth_verifies:
  assumes "ecdh_ok C" and "hmac_len C" and "ParsePrivateKeyAny ssk = Inr sp"
    and "ParsePublicKeyAny spk = Inr (ecdh_pub C sp)"
    and "EncodeClientAuth C ck spk ent = Inr (payload, clientID)"
  shows "VerifyClientAuth C payload ssk = Inr clientID"
proof -
  from EncodeClientAuth_InrD [OF assms(5)] assms(4) obtain cp shared where
    cp: "ParsePrivateKeyAny ck = Inr cp" and sh: "ecdh C cp (ecdh_pub C sp) = Some shared"
    and ent: "16 \<le> length ent" and id: "clientID = hex_encode (ecdh_pub C cp)"
    and p: "payload = [1] @ ecdh_pub C cp @ take 16 ent @
      clientAuthMAC C shared (ecdh_pub C cp) (ecdh_pub C sp) (take 16 ent)"
    by auto
  from ParseKeyAny_length(1) [OF cp] ParseKeyAny_length(1) [OF assms(3)] assms(1)
  have "length (ecdh_pub C cp) = 32" "ecdh C sp (ecdh_pub C cp) = Some shared"
    using sh unfolding ecdh_ok_def by metis+
  with ent show ?thesis
    unfolding p
    by (subst VerifyClientAuth_parts [OF assms(2) _ _ length_clientAuthMAC [OF assms(2)] assms(3)])
      (simp_all add: id)
qed

section \<open>Properties\<close>

text \<open>
  A client proves its identity. The payload that a client builds with its private key and the
  server's public key is accepted by the server that has the matching private key, whatever text
  form the keys are configured in, and both sides then use the same client identity: the
  hexadecimal public key of the client.
\<close>

theorem auth_accepted:
  assumes "ecdh_ok C" and "hmac_len C" and "ParsePrivateKeyAny ssk = Inr sp"
    and "ParsePublicKeyAny spk = Inr (ecdh_pub C sp)"
    and "EncodeClientAuth C ck spk ent = Inr (payload, clientID)"
  shows "VerifyClientAuth C payload ssk = Inr clientID \<and>
    PublicKeyHexFromPrivate C ck = Inr clientID"
  using auth_verifies [OF assms] EncodeClientAuth_InrD [OF assms(5)]
  by (auto simp: PublicKeyHexFromPrivate_def)

definition sample_server_pub :: string where
  "sample_server_pub = hex_encode (replicate 32 7)"

definition sample_key_text :: "byte \<Rightarrow> string" where
  "sample_key_text b = b64_encode False True (replicate 32 b)"

lemma sample_keys_parse [simp]:
  "ParsePrivateKeyAny (sample_key_text b) = Inr (replicate 32 b)"
  "ParsePublicKeyAny sample_server_pub = Inr (replicate 32 7)"
  using key_text_dec [of "replicate 32 b"]
  by (simp_all add: sample_server_pub_def sample_key_text_def ParsePrivateKeyAny_def
      x25519_new_def ParsePublicKeyAny_hex)

lemma sample_auth:
  "\<exists>p. EncodeClientAuth toy_crypto (sample_key_text 5) sample_server_pub (replicate 16 9) =
     Inr (p, hex_encode (replicate 32 5))"
  by (simp add: EncodeClientAuth_def clientAuthNonceSize_def Let_def toy_crypto_def)

theorem auth_accepted_witness:
  "\<exists>p. EncodeClientAuth toy_crypto (sample_key_text 5) sample_server_pub (replicate 16 9) =
       Inr (p, hex_encode (replicate 32 5)) \<and>
     VerifyClientAuth toy_crypto p (sample_key_text 7) = Inr (hex_encode (replicate 32 5))"
proof -
  obtain p where p: "EncodeClientAuth toy_crypto (sample_key_text 5) sample_server_pub
      (replicate 16 9) = Inr (p, hex_encode (replicate 32 5))"
    using sample_auth by blast
  have "ecdh_pub toy_crypto (replicate 32 7) = replicate 32 7" by (simp add: toy_crypto_def)
  with auth_accepted [OF toy_laws(4,1) sample_keys_parse(1) _ p] p show ?thesis by simp
qed

text \<open>
  C16: Nothing else is accepted. \<open>VerifyClientAuth\<close> returns an identity exactly for payloads of the
  current version that carry a public key, a nonce and the MAC of both under the key agreed
  between that public key and the server's private key.
\<close>

theorem auth_exact:
  assumes "hmac_len C"
  shows "VerifyClientAuth C payload ssk = Inr clientID \<longleftrightarrow>
    (\<exists>sp pub nonce shared. ParsePrivateKeyAny ssk = Inr sp \<and> length pub = 32 \<and>
       length nonce = 16 \<and> ecdh C sp pub = Some shared \<and> clientID = hex_encode pub \<and>
       payload = [1] @ pub @ nonce @ clientAuthMAC C shared pub (ecdh_pub C sp) nonce)"
proof
  assume v: "VerifyClientAuth C payload ssk = Inr clientID"
  then have len: "length payload = 81"
    by (auto simp: VerifyClientAuth_def clientAuthPayloadSize_def clientAuthNonceSize_def
        clientAuthMACSize_def split: if_splits)
  from v obtain sp where sp: "ParsePrivateKeyAny ssk = Inr sp" and v0: "payload ! 0 = 1"
    by (auto simp: VerifyClientAuth_def clientAuthVersion_def split: if_splits sum.splits)
  obtain pub n mac where p: "payload = [1] @ pub @ n @ mac"
    and l: "length pub = 32" "length n = 16" "length mac = 32"
    using auth_payload_split [OF len] v0 len by (intro that [of "take 32 (drop 1 payload)"
        "take 16 (drop 33 payload)" "drop 49 payload"]) simp_all
  from VerifyClientAuth_parts [OF assms l sp] v obtain shared where
    "ecdh C sp pub = Some shared" "mac = clientAuthMAC C shared pub (ecdh_pub C sp) n"
    "clientID = hex_encode pub"
    by (auto simp: p split: option.splits if_splits)
  with sp l p show "\<exists>sp pub nonce shared. ParsePrivateKeyAny ssk = Inr sp \<and> length pub = 32 \<and>
       length nonce = 16 \<and> ecdh C sp pub = Some shared \<and> clientID = hex_encode pub \<and>
       payload = [1] @ pub @ nonce @ clientAuthMAC C shared pub (ecdh_pub C sp) nonce"
    by blast
next
  assume "\<exists>sp pub nonce shared. ParsePrivateKeyAny ssk = Inr sp \<and> length pub = 32 \<and>
       length nonce = 16 \<and> ecdh C sp pub = Some shared \<and> clientID = hex_encode pub \<and>
       payload = [1] @ pub @ nonce @ clientAuthMAC C shared pub (ecdh_pub C sp) nonce"
  then show "VerifyClientAuth C payload ssk = Inr clientID"
    using VerifyClientAuth_parts [OF assms _ _ length_clientAuthMAC [OF assms]] by auto
qed

theorem auth_exact_witness:
  "VerifyClientAuth toy_crypto ([1] @ replicate 32 5 @ replicate 16 9 @
     clientAuthMAC toy_crypto (replicate 32 12) (replicate 32 5) (replicate 32 7) (replicate 16 9))
     (sample_key_text 7) = Inr (hex_encode (replicate 32 5))"
proof -
  have e: "ecdh toy_crypto (replicate 32 7) (replicate 32 5) = Some (replicate 32 12)"
    "ecdh_pub toy_crypto (replicate 32 7) = replicate 32 7"
    by (simp_all add: toy_crypto_def)
  show ?thesis
    by (rule iffD2 [OF auth_exact [OF toy_laws(1)]], rule exI [of _ "replicate 32 7"],
        rule exI [of _ "replicate 32 5"], rule exI [of _ "replicate 16 9"],
        rule exI [of _ "replicate 32 12"]) (simp add: e)
qed

text \<open>
  Payload types. Unpacking inverts packing, and what unpacks is exactly what was packed: no
  other bytes are taken for a payload.
\<close>

theorem unpack_exact: "Unpack b = Inr (t, p) \<longleftrightarrow> b = Pack t p"
  using Unpack_InrD by auto

text \<open>
  The broadcast address of the virtual network. For a gateway and a mask in dotted form, the
  check holds exactly for the IPv4 addresses, in either length, that agree with the gateway on
  the network bits and have all host bits set.
\<close>

theorem subnet_broadcast_exact:
  "IsSubnetBroadcast dst (dotted g) (dotted m) \<longleftrightarrow> map_option ipToUint32 (To4 dst) = Some (g OR NOT m)"
proof -
  have m: "map (\<lambda>i. put_u32 g ! i OR NOT (put_u32 m ! i)) [0, 1, 2, 3] = put_u32 (g OR NOT m)"
    by (simp add: put_u32_def) (auto simp: bit_eq_iff bit_simps)
  have eq: "x = put_u32 (g OR NOT m) \<longleftrightarrow> ipToUint32 x = g OR NOT m" if "length x = 4" for x
    using put_ipToUint32 [OF that] by auto
  show ?thesis
  proof (cases "To4 dst")
    case None
    then show ?thesis by (simp add: IsSubnetBroadcast_def)
  next
    case (Some x)
    with To4_length have "length x = 4" by simp
    with Some eq show ?thesis
      by (simp only: IsSubnetBroadcast_def parse_v4_dotted option.case prod.case m)
        (simp add: ip_Equal_def)
  qed
qed

text \<open>
  The multicast check does not see multicast addresses. \<open>IsMulticast\<close> recognises 224 to 239 in
  the four-byte form only; for every address in the sixteen-byte form of \<open>net.IPv4\<close>, which is what
  the header parser and \<open>net.ParseIP\<close> return, it is false.
\<close>

theorem multicast_missed:
  "\<not> IsMulticast (net_IPv4 a b c d) \<and> (IsMulticast [a, b, c, d] \<longleftrightarrow> 0xE0 \<le> a \<and> a \<le> 0xEF)"
  by (simp add: IsMulticast_def net_IPv4_def v4_in_v6_def)

end
