(* ===== verification/Dhcp_Manager.thy ===== *)
theory Dhcp_Manager
  imports Net_IP "HOL-Library.AList"
begin

text \<open>
  \<^verbatim>\<open>vdhcp/manager.go\<close>: the pool of virtual addresses. Go maps are association lists without
  duplicate keys; a lease is updated in place in the list where the code goes through the
  pointer the map holds, and what callers get is a copy. Times are nanoseconds.
\<close>

section \<open>State\<close>

record lease =
  l_client :: string
  l_ip :: string
  l_created :: int
  l_updated :: int
  l_expires :: int
  l_online :: bool

record manager_config =
  mc_start :: string
  mc_end :: string
  mc_mask :: string
  mc_gateway :: string
  mc_dns :: "string list"
  mc_mtu :: int
  mc_ttl :: int
  mc_grace :: int

record manager =
  m_cfg :: manager_config
  m_start :: "32 word"
  m_end :: "32 word"
  m_next :: "32 word"
  leaseByID :: "(string \<times> lease) list"
  ownerByIP :: "(string \<times> string) list"
  m_reserved :: "string list"

datatype dhcp_error =
    BadRange | BadGateway | BadMask | NoDNS | BadDNS string | RangeOrder
  | EmptyClientID | PoolExhausted

section \<open>Operations\<close>

definition normalizeDNSServers :: "string list \<Rightarrow> string list" where
  "normalizeDNSServers xs = filter (\<lambda>d. d \<noteq> []) (map trim_space xs)"

definition hour :: int where "hour = 3600000000000"

definition NewManager :: "manager_config \<Rightarrow> dhcp_error + manager" where
  "NewManager cfg =
     (let start = parse_v4 (mc_start cfg); end4 = parse_v4 (mc_end cfg);
          gw = parse_v4 (mc_gateway cfg); mask4 = parse_v4 (mc_mask cfg)
      in if start = None \<or> end4 = None then Inl BadRange
         else if gw = None then Inl BadGateway
         else if mask4 = None then Inl BadMask
         else
           let cfg1 = cfg\<lparr>mc_dns := normalizeDNSServers (mc_dns cfg)\<rparr>
           in if mc_dns cfg1 = [] then Inl NoDNS
              else (case find (\<lambda>d. parse_v4 d = None) (mc_dns cfg1) of
                  Some d \<Rightarrow> Inl (BadDNS d)
                | None \<Rightarrow>
                    let cfg2 = (if mc_ttl cfg1 \<le> 0 then cfg1\<lparr>mc_ttl := 24 * hour\<rparr> else cfg1);
                        cfg3 = (if mc_grace cfg2 \<le> 0 then cfg2\<lparr>mc_grace := 5 * 60000000000\<rparr> else cfg2);
                        cfg4 = (if mc_mtu cfg3 \<le> 0 then cfg3\<lparr>mc_mtu := 1300\<rparr> else cfg3);
                        startU = ipToUint32 (the start); endU = ipToUint32 (the end4)
                    in if startU > endU then Inl RangeOrder
                       else Inr \<lparr>m_cfg = cfg4, m_start = startU, m_end = endU, m_next = startU,
                                 leaseByID = [], ownerByIP = [],
                                 m_reserved = [v4_string (the gw)]\<rparr>))"

definition releaseLocked :: "string \<Rightarrow> manager \<Rightarrow> manager" where
  "releaseLocked clientID m =
     (case map_of (leaseByID m) clientID of
        None \<Rightarrow> m
      | Some l \<Rightarrow>
          m\<lparr>leaseByID := AList.delete clientID (leaseByID m),
            ownerByIP := AList.delete (l_ip l) (ownerByIP m)\<rparr>)"

text \<open>
  The loop of \<^verbatim>\<open>sweepExpiredLocked\<close> ranges over the map while it deletes the current entry; the
  entries are visited in some order, here the order of the list.
\<close>

fun sweep_loop :: "int \<Rightarrow> (string \<times> lease) list \<Rightarrow> manager \<Rightarrow> manager" where
  "sweep_loop now [] m = m"
| "sweep_loop now ((clientID, l) # ls) m =
     (if l_online l then sweep_loop now ls m
      else if l_expires l < now then sweep_loop now ls (releaseLocked clientID m)
      else sweep_loop now ls m)"

definition sweepExpiredLocked :: "int \<Rightarrow> manager \<Rightarrow> manager" where
  "sweepExpiredLocked now m = sweep_loop now (leaseByID m) m"

definition advanceNextLocked :: "manager \<Rightarrow> manager" where
  "advanceNextLocked m =
     (if m_next m \<ge> m_end m then m\<lparr>m_next := m_start m\<rparr> else m\<lparr>m_next := m_next m + 1\<rparr>)"

text \<open>The scan takes the number of turns left.\<close>

fun scan_pool :: "nat \<Rightarrow> manager \<Rightarrow> string option \<times> manager" where
  "scan_pool 0 m = (None, m)"
| "scan_pool (Suc n) m =
     (let ip = dotted (m_next m); m' = advanceNextLocked m
      in if ip \<in> set (m_reserved m') then scan_pool n m'
         else if map_of (ownerByIP m') ip \<noteq> None then scan_pool n m'
         else (Some ip, m'))"

definition pool_size :: "manager \<Rightarrow> 64 word" where
  "pool_size m = ucast (m_end m) - ucast (m_start m) + 1"

definition allocateIPLocked :: "manager \<Rightarrow> string option \<times> manager" where
  "allocateIPLocked m = scan_pool (unat (pool_size m)) m"

text \<open>\<open>now\<close> is the reading of the clock inside the lock.\<close>

definition Acquire :: "int \<Rightarrow> string \<Rightarrow> manager \<Rightarrow> (dhcp_error + lease) \<times> manager" where
  "Acquire now clientID m =
     (if clientID = [] then (Inl EmptyClientID, m)
      else
        let m1 = sweepExpiredLocked now m
        in case map_of (leaseByID m1) clientID of
             Some l \<Rightarrow>
               let l' = l\<lparr>l_online := True, l_updated := now, l_expires := now + mc_ttl (m_cfg m1)\<rparr>
               in (Inr l', m1\<lparr>leaseByID := AList.update clientID l' (leaseByID m1)\<rparr>)
           | None \<Rightarrow>
               (case allocateIPLocked m1 of
                  (None, m2) \<Rightarrow> (Inl PoolExhausted, m2)
                | (Some ip, m2) \<Rightarrow>
                    let l = \<lparr>l_client = clientID, l_ip = ip, l_created = now, l_updated = now,
                             l_expires = now + mc_ttl (m_cfg m2), l_online = True\<rparr>
                    in (Inr l, m2\<lparr>leaseByID := AList.update clientID l (leaseByID m2),
                                  ownerByIP := AList.update ip clientID (ownerByIP m2)\<rparr>)))"

definition MarkOffline :: "int \<Rightarrow> string \<Rightarrow> manager \<Rightarrow> manager" where
  "MarkOffline now clientID m =
     (case map_of (leaseByID m) clientID of
        None \<Rightarrow> m
      | Some l \<Rightarrow>
          let l' = l\<lparr>l_online := False, l_updated := now, l_expires := now + mc_grace (m_cfg m)\<rparr>
          in m\<lparr>leaseByID := AList.update clientID l' (leaseByID m)\<rparr>)"

definition Release :: "string \<Rightarrow> manager \<Rightarrow> manager" where
  "Release clientID m = releaseLocked clientID m"

definition SweepExpired :: "int \<Rightarrow> manager \<Rightarrow> manager" where
  "SweepExpired now m = sweepExpiredLocked now m"

definition Snapshot :: "manager \<Rightarrow> lease list" where
  "Snapshot m = map snd (leaseByID m)"

section \<open>The invariant\<close>

text \<open>
  The two maps are inverse to each other, every leased address lies in the range and is not
  reserved, and the cursor stays in the range.
\<close>

definition in_pool :: "manager \<Rightarrow> string \<Rightarrow> bool" where
  "in_pool m ip \<longleftrightarrow> (\<exists>v. m_start m \<le> v \<and> v \<le> m_end m \<and> ip = dotted v)"

definition lease_ok :: "manager \<Rightarrow> string \<Rightarrow> lease \<Rightarrow> bool" where
  "lease_ok m clientID l \<longleftrightarrow>
     clientID \<noteq> [] \<and> l_client l = clientID \<and> map_of (ownerByIP m) (l_ip l) = Some clientID \<and>
     in_pool m (l_ip l) \<and> l_ip l \<notin> set (m_reserved m)"

definition mgr_ok :: "manager \<Rightarrow> bool" where
  "mgr_ok m \<longleftrightarrow>
     distinct (map fst (leaseByID m)) \<and> distinct (map fst (ownerByIP m)) \<and>
     (\<forall>c l. map_of (leaseByID m) c = Some l \<longrightarrow> lease_ok m c l) \<and>
     (\<forall>ip c. map_of (ownerByIP m) ip = Some c \<longrightarrow>
        (\<exists>l. map_of (leaseByID m) c = Some l \<and> l_ip l = ip)) \<and>
     m_start m \<le> m_next m \<and> m_next m \<le> m_end m"

lemma mgr_okI:
  assumes "distinct (map fst (leaseByID m))" "distinct (map fst (ownerByIP m))"
    and "\<And>c l. map_of (leaseByID m) c = Some l \<Longrightarrow> lease_ok m c l"
    and "\<And>ip c. map_of (ownerByIP m) ip = Some c \<Longrightarrow>
      \<exists>l. map_of (leaseByID m) c = Some l \<and> l_ip l = ip"
    and "m_start m \<le> m_next m" "m_next m \<le> m_end m"
  shows "mgr_ok m"
  using assms by (simp add: mgr_ok_def)

lemma mgr_okD:
  assumes "mgr_ok m"
  shows "distinct (map fst (leaseByID m))" "distinct (map fst (ownerByIP m))"
    and "map_of (leaseByID m) c = Some l \<Longrightarrow> lease_ok m c l"
    and "map_of (ownerByIP m) ip = Some c \<Longrightarrow>
      \<exists>l. map_of (leaseByID m) c = Some l \<and> l_ip l = ip"
    and "m_start m \<le> m_next m" "m_next m \<le> m_end m"
  using assms unfolding mgr_ok_def by blast+

declare map_of_eq_Some_iff [simp del]

text \<open>What the operations leave alone.\<close>

definition same_pool :: "manager \<Rightarrow> manager \<Rightarrow> bool" where
  "same_pool m m' \<longleftrightarrow> m_cfg m' = m_cfg m \<and> m_start m' = m_start m \<and> m_end m' = m_end m \<and>
     m_reserved m' = m_reserved m"

lemma same_pool_refl [simp]: "same_pool m m"
  by (simp add: same_pool_def)

lemma same_pool_trans: "same_pool a b \<Longrightarrow> same_pool b c \<Longrightarrow> same_pool a c"
  by (simp add: same_pool_def)

lemma map_of_delete: "map_of (AList.delete k al) x = (if x = k then None else map_of al x)"
  by (simp add: AList.delete_conv)

lemma map_of_update: "map_of (AList.update k v al) x = (if x = k then Some v else map_of al x)"
  by (simp add: AList.update_conv)

lemma distinct_alist:
  "distinct (map fst al) \<Longrightarrow> distinct (map fst (AList.delete k al))"
  "distinct (map fst al) \<Longrightarrow> distinct (map fst (AList.update k v al))"
  by (simp_all add: AList.distinct_delete AList.distinct_update)

lemmas alist_simps = map_of_delete map_of_update distinct_alist

section \<open>Releasing and sweeping\<close>

lemma release_ok:
  assumes "mgr_ok m"
  shows "mgr_ok (releaseLocked c m)"
    and "map_of (leaseByID (releaseLocked c m)) x = (if x = c then None else map_of (leaseByID m) x)"
    and "same_pool m (releaseLocked c m)" and "m_next (releaseLocked c m) = m_next m"
proof -
  from assms show "map_of (leaseByID (releaseLocked c m)) x =
      (if x = c then None else map_of (leaseByID m) x)"
    by (auto simp: releaseLocked_def alist_simps split: option.split)
  show "same_pool m (releaseLocked c m)" "m_next (releaseLocked c m) = m_next m"
    by (auto simp: releaseLocked_def same_pool_def split: option.split)
  show "mgr_ok (releaseLocked c m)"
  proof (cases "map_of (leaseByID m) c")
    case None
    then show ?thesis using assms by (simp add: releaseLocked_def)
  next
    case (Some l)
    with assms have l: "map_of (ownerByIP m) (l_ip l) = Some c"
      by (auto simp: mgr_ok_def lease_ok_def)
    let ?m = "m\<lparr>leaseByID := AList.delete c (leaseByID m),
      ownerByIP := AList.delete (l_ip l) (ownerByIP m)\<rparr>"
    have "mgr_ok ?m"
    proof (rule mgr_okI)
      fix x k
      assume "map_of (leaseByID ?m) x = Some k"
      then have x: "x \<noteq> c" "map_of (leaseByID m) x = Some k" by (auto simp: alist_simps split: if_splits)
      with assms have k: "lease_ok m x k" by (simp add: mgr_ok_def)
      with l x(1) have "l_ip k \<noteq> l_ip l" by (auto simp: lease_ok_def)
      with k show "lease_ok ?m x k" by (simp add: lease_ok_def alist_simps in_pool_def)
    next
      fix ip x
      assume "map_of (ownerByIP ?m) ip = Some x"
      then have x: "ip \<noteq> l_ip l" "map_of (ownerByIP m) ip = Some x"
        by (auto simp: alist_simps split: if_splits)
      with mgr_okD(4) [OF assms] obtain k where k: "map_of (leaseByID m) x = Some k" "l_ip k = ip"
        by blast
      with Some x(1) have "x \<noteq> c" by auto
      with k show "\<exists>k. map_of (leaseByID ?m) x = Some k \<and> l_ip k = ip" by (simp add: alist_simps)
    qed (use assms in \<open>simp_all add: mgr_ok_def distinct_alist\<close>)
    then show ?thesis by (simp add: releaseLocked_def Some)
  qed
qed

definition expired :: "int \<Rightarrow> lease \<Rightarrow> bool" where
  "expired now l \<longleftrightarrow> \<not> l_online l \<and> l_expires l < now"

lemma sweep_loop_ok:
  assumes "mgr_ok m" and "distinct (map fst ls)"
    and "\<And>c l. (c, l) \<in> set ls \<Longrightarrow> map_of (leaseByID m) c = Some l"
  shows "mgr_ok (sweep_loop now ls m) \<and> same_pool m (sweep_loop now ls m) \<and>
    m_next (sweep_loop now ls m) = m_next m \<and>
    map_of (leaseByID (sweep_loop now ls m)) x =
      (if \<exists>l. (x, l) \<in> set ls \<and> expired now l then None else map_of (leaseByID m) x)"
  using assms
proof (induction ls arbitrary: m)
  case Nil
  then show ?case by simp
next
  case (Cons e ls)
  obtain c l where e: "e = (c, l)" by fastforce
  from Cons.prems have d: "distinct (map fst ls)" and c: "c \<notin> fst ` set ls" by (simp_all add: e)
  have uniq: "(\<exists>k. (x, k) \<in> set (e # ls) \<and> expired now k) \<longleftrightarrow>
      (x = c \<and> expired now l) \<or> (\<exists>k. (x, k) \<in> set ls \<and> expired now k)" by (auto simp: e)
  show ?case
  proof (cases "expired now l")
    case True
    note r = release_ok [OF Cons.prems(1)]
    have "map_of (leaseByID (releaseLocked c m)) y = Some k" if "(y, k) \<in> set ls" for y k
    proof -
      from that c have "y \<noteq> c" by force
      with that Cons.prems(3) show ?thesis by (simp add: r(2))
    qed
    note IH = Cons.IH [OF r(1) d this]
    have sl: "sweep_loop now (e # ls) m = sweep_loop now ls (releaseLocked c m)"
      using True by (simp add: e expired_def)
    show ?thesis unfolding sl uniq using IH r(2,4) True same_pool_trans [OF r(3) [of c]] by auto
  next
    case False
    have sl: "sweep_loop now (e # ls) m = sweep_loop now ls m"
      using False by (auto simp: e expired_def)
    show ?thesis unfolding sl uniq using Cons.IH [OF Cons.prems(1) d] Cons.prems(3) False by auto
  qed
qed

lemma sweep_ok:
  assumes "mgr_ok m"
  shows "mgr_ok (sweepExpiredLocked now m)"
    and "same_pool m (sweepExpiredLocked now m)"
    and "map_of (leaseByID (sweepExpiredLocked now m)) x =
      (case map_of (leaseByID m) x of
         None \<Rightarrow> None
       | Some l \<Rightarrow> if expired now l then None else Some l)"
proof -
  have d: "distinct (map fst (leaseByID m))" using assms by (simp add: mgr_ok_def)
  then have in_set: "(c, l) \<in> set (leaseByID m) \<longleftrightarrow> map_of (leaseByID m) c = Some l" for c l
    by (simp add: map_of_eq_Some_iff)
  note s = sweep_loop_ok [OF assms d, unfolded in_set, simplified]
  show "mgr_ok (sweepExpiredLocked now m)" "same_pool m (sweepExpiredLocked now m)"
    using s by (simp_all add: sweepExpiredLocked_def)
  show "map_of (leaseByID (sweepExpiredLocked now m)) x = (case map_of (leaseByID m) x of
         None \<Rightarrow> None | Some l \<Rightarrow> if expired now l then None else Some l)"
    using s by (auto simp: sweepExpiredLocked_def split: option.split)
qed

section \<open>The scan for a free address\<close>

definition pool_len :: "manager \<Rightarrow> nat" where
  "pool_len m = unat (m_end m) - unat (m_start m) + 1"

definition taken :: "manager \<Rightarrow> string \<Rightarrow> bool" where
  "taken m ip \<longleftrightarrow> ip \<in> set (m_reserved m) \<or> map_of (ownerByIP m) ip \<noteq> None"

text \<open>The cursor after \<open>k\<close> turns.\<close>

definition cursor :: "manager \<Rightarrow> nat \<Rightarrow> 32 word" where
  "cursor m k =
     of_nat (unat (m_start m) + (unat (m_next m) - unat (m_start m) + k) mod pool_len m)"

lemma cursor_range:
  assumes "m_start m \<le> m_end m"
  shows "m_start m \<le> cursor m k" and "cursor m k \<le> m_end m"
    and "unat (cursor m k) =
      unat (m_start m) + (unat (m_next m) - unat (m_start m) + k) mod pool_len m"
proof -
  have le: "unat (m_start m) \<le> unat (m_end m)" using assms by (simp add: word_le_nat_alt)
  have "(unat (m_next m) - unat (m_start m) + k) mod pool_len m < pool_len m"
    by (simp add: pool_len_def)
  then have c: "unat (m_start m) + (unat (m_next m) - unat (m_start m) + k) mod pool_len m
      \<le> unat (m_end m)" using le unfolding pool_len_def by linarith
  from of_nat_len_le(1) [OF this, unfolded] show u: "unat (cursor m k) =
      unat (m_start m) + (unat (m_next m) - unat (m_start m) + k) mod pool_len m"
    by (simp add: cursor_def)
  show "m_start m \<le> cursor m k" "cursor m k \<le> m_end m"
    using c by (simp_all add: word_le_nat_alt u)
qed

lemma cursor_0: "m_start m \<le> m_next m \<Longrightarrow> m_next m \<le> m_end m \<Longrightarrow> cursor m 0 = m_next m"
  by (simp add: cursor_def pool_len_def word_le_nat_alt mod_less)

lemma advance_ok:
  assumes "m_start m \<le> m_next m" and "m_next m \<le> m_end m"
  shows "m_start m \<le> m_next (advanceNextLocked m)" and "m_next (advanceNextLocked m) \<le> m_end m"
    and "cursor (advanceNextLocked m) k = cursor m (Suc k)"
proof -
  have n: "unat (m_start m) \<le> unat (m_next m)" "unat (m_next m) \<le> unat (m_end m)"
    using assms by (simp_all add: word_le_nat_alt)
  have u: "unat (m_next (advanceNextLocked m)) =
      (if unat (m_end m) \<le> unat (m_next m) then unat (m_start m) else Suc (unat (m_next m)))"
    by (auto simp: advanceNextLocked_def word_le_nat_alt not_le word_less_nat_alt
        intro!: unat_Suc_less [of _ "m_end m"])
  with n show "m_start m \<le> m_next (advanceNextLocked m)" "m_next (advanceNextLocked m) \<le> m_end m"
    by (auto simp: word_le_nat_alt split: if_splits)
  have same: "m_start (advanceNextLocked m) = m_start m" "pool_len (advanceNextLocked m) = pool_len m"
    by (simp_all add: advanceNextLocked_def pool_len_def)
  have "(unat (m_next (advanceNextLocked m)) - unat (m_start m) + k) mod pool_len m =
      (unat (m_next m) - unat (m_start m) + Suc k) mod pool_len m"
  proof (cases "unat (m_end m) \<le> unat (m_next m)")
    case True
    with n have "unat (m_next m) - unat (m_start m) + Suc k = pool_len m + k"
      by (simp add: pool_len_def)
    with True show ?thesis by (simp only: u if_True) simp
  next
    case False
    then have "unat (m_next (advanceNextLocked m)) = Suc (unat (m_next m))" by (simp add: u)
    moreover have "Suc (unat (m_next m)) - unat (m_start m) + k =
        unat (m_next m) - unat (m_start m) + Suc k" using n by simp
    ultimately show ?thesis by simp
  qed
  then show "cursor (advanceNextLocked m) k = cursor m (Suc k)" by (simp add: cursor_def same)
qed

lemma scan_pool_step:
  "scan_pool (Suc n) m =
     (if taken m (dotted (m_next m)) then scan_pool n (advanceNextLocked m)
      else (Some (dotted (m_next m)), advanceNextLocked m))"
  by (auto simp: taken_def Let_def advanceNextLocked_def)

lemma advance_same:
  "m_reserved (advanceNextLocked m) = m_reserved m"
  "ownerByIP (advanceNextLocked m) = ownerByIP m"
  "m_start (advanceNextLocked m) = m_start m" "m_end (advanceNextLocked m) = m_end m"
  "(advanceNextLocked m)\<lparr>m_next := x\<rparr> = m\<lparr>m_next := x\<rparr>"
  "taken (advanceNextLocked m) ip = taken m ip"
  by (simp_all add: advanceNextLocked_def taken_def)

lemma scan_pool_ok:
  assumes "m_start m \<le> m_next m" and "m_next m \<le> m_end m" and "scan_pool n m = (r, m')"
  shows "\<exists>x. m' = m\<lparr>m_next := x\<rparr> \<and> m_start m \<le> x \<and> x \<le> m_end m"
    and "r = Some ip \<Longrightarrow> \<exists>k<n. ip = dotted (cursor m k) \<and> \<not> taken m ip \<and>
      (\<forall>j<k. taken m (dotted (cursor m j)))"
    and "r = None \<Longrightarrow> \<forall>k<n. taken m (dotted (cursor m k))"
  using assms
proof (induction n arbitrary: m)
  case 0
  {
    case 1
    then show ?case by (intro exI [of _ "m_next m"]) simp
  next
    case 2
    then show ?case by simp
  next
    case 3
    then show ?case by simp
  }
next
  case (Suc n)
  {
    case 1
    note a = advance_ok [OF 1(1,2)]
    show ?case
    proof (cases "taken m (dotted (m_next m))")
      case True
      with 1(3) have "scan_pool n (advanceNextLocked m) = (r, m')" by (simp add: scan_pool_step del: scan_pool.simps)
      from Suc.IH(1) [OF _ _ this] a show ?thesis by (simp add: advance_same)
    next
      case False
      with 1(3) have "m' = (advanceNextLocked m)" by (simp add: scan_pool_step del: scan_pool.simps)
      moreover have "advanceNextLocked m = m\<lparr>m_next := m_next (advanceNextLocked m)\<rparr>"
        by (simp add: advanceNextLocked_def)
      ultimately show ?thesis using a by metis
    qed
  next
    case 2
    note a = advance_ok [OF 2(2,3)]
    show ?case
    proof (cases "taken m (dotted (m_next m))")
      case True
      with 2(4) have "scan_pool n (advanceNextLocked m) = (r, m')" by (simp add: scan_pool_step del: scan_pool.simps)
      from Suc.IH(2) [OF 2(1) _ _ this] a obtain k where k: "k < n"
          "ip = dotted (cursor m (Suc k))" "\<not> taken m ip"
          "\<forall>j<k. taken m (dotted (cursor m (Suc j)))"
        by (auto simp: advance_same)
      have "taken m (dotted (cursor m j))" if "j < Suc k" for j
        using that True k(4) cursor_0 [OF 2(2,3)] by (cases j) auto
      with k show ?thesis by (intro exI [of _ "Suc k"]) auto
    next
      case False
      with 2(1,4) have "ip = dotted (m_next m)" by (simp add: scan_pool_step del: scan_pool.simps)
      with False cursor_0 [OF 2(2,3)] show ?thesis by (intro exI [of _ 0]) auto
    qed
  next
    case 3
    note a = advance_ok [OF 3(2,3)]
    from 3(1,4) have t: "taken m (dotted (m_next m))" by (auto simp: scan_pool_step simp del: scan_pool.simps split: if_splits)
    with 3(4) have "scan_pool n (advanceNextLocked m) = (r, m')" by (simp add: scan_pool_step del: scan_pool.simps)
    from Suc.IH(3) [OF 3(1) _ _ this] a
    have IH: "\<forall>k<n. taken m (dotted (cursor m (Suc k)))" by (simp add: advance_same)
    have "taken m (dotted (cursor m k))" if "k < Suc n" for k
      using that t IH cursor_0 [OF 3(2,3)] by (cases k) auto
    then show ?case by blast
  }
qed

text \<open>The cursor visits every address of the range once in \<open>pool_len\<close> turns.\<close>

lemma cursor_onto:
  assumes "m_start m \<le> m_next m" "m_next m \<le> m_end m" "m_start m \<le> v" "v \<le> m_end m"
  shows "\<exists>k<pool_len m. cursor m k = v"
proof -
  let ?s = "unat (m_start m)" and ?n = "unat (m_next m)" and ?v = "unat v" and ?N = "pool_len m"
  have le: "?s \<le> ?n" "?n \<le> unat (m_end m)" "?s \<le> ?v" "?v \<le> unat (m_end m)"
    using assms by (simp_all add: word_le_nat_alt)
  have N: "?n - ?s < ?N" "?v - ?s < ?N" using le by (simp_all add: pool_len_def)
  define k where "k = (if ?n \<le> ?v then ?v - ?n else ?v + ?N - ?n)"
  have k: "k < ?N" using N le by (auto simp: k_def)
  have "(?n - ?s + k) mod ?N = ?v - ?s"
  proof (cases "?n \<le> ?v")
    case True
    then have "?n - ?s + k = ?v - ?s" using le by (simp add: k_def)
    with N show ?thesis by simp
  next
    case False
    then have "?n - ?s + k = (?v - ?s) + ?N" using le N by (simp add: k_def)
    with N show ?thesis by simp
  qed
  then have "unat (cursor m k) = ?v" using cursor_range(3) [of m k] assms le
    by (simp add: word_le_nat_alt)
  with k show ?thesis by (auto simp: word_unat_eq_iff)
qed

lemma pool_size_len:
  assumes "m_start m \<le> m_end m"
  shows "unat (pool_size m) = pool_len m"
proof -
  have le: "unat (m_start m) \<le> unat (m_end m)" using assms by (simp add: word_le_nat_alt)
  have b: "unat (m_end m) < 2 ^ 32" using unsigned_less [of "m_end m", where ?'a = nat] by simp
  have "pool_size m = of_nat (pool_len m)"
    using le by (simp add: pool_size_def pool_len_def of_nat_diff)
  moreover have "pool_len m < 2 ^ LENGTH(64)" using b by (simp add: pool_len_def)
  ultimately show ?thesis by (simp only: unsigned_of_nat take_bit_nat_eq_self of_nat_id)
qed

lemma allocate_ok:
  assumes ok: "mgr_ok m" and a: "allocateIPLocked m = (r, m')"
  shows "\<exists>x. m' = m\<lparr>m_next := x\<rparr> \<and> m_start m \<le> x \<and> x \<le> m_end m"
    and "r = Some ip \<Longrightarrow> in_pool m ip \<and> \<not> taken m ip"
    and "r = None \<longleftrightarrow> (\<forall>ip. in_pool m ip \<longrightarrow> taken m ip)"
proof -
  note n = mgr_okD(5,6) [OF ok]
  from n have se: "m_start m \<le> m_end m" by simp
  have s: "scan_pool (pool_len m) m = (r, m')"
    using a by (simp add: allocateIPLocked_def pool_size_len [OF se])
  note sc = scan_pool_ok [OF n s]
  show "\<exists>x. m' = m\<lparr>m_next := x\<rparr> \<and> m_start m \<le> x \<and> x \<le> m_end m" by (rule sc(1))
  show "in_pool m ip \<and> \<not> taken m ip" if "r = Some ip" for ip
    using sc(2) [OF that] cursor_range(1,2) [OF se] by (auto simp: in_pool_def)
  note some = this
  show "r = None \<longleftrightarrow> (\<forall>ip. in_pool m ip \<longrightarrow> taken m ip)"
  proof (cases r)
    case None
    have "taken m ip" if "in_pool m ip" for ip
      using that sc(3) [OF None] cursor_onto [OF n] by (force simp: in_pool_def)
    with None show ?thesis by simp
  next
    case (Some ip)
    with some show ?thesis by auto
  qed
qed

section \<open>The operations and the invariant\<close>

lemma lease_ok_update:
  assumes "mgr_ok m" and "map_of (leaseByID m) c = Some l"
    and "l_client l' = l_client l" "l_ip l' = l_ip l"
  shows "mgr_ok (m\<lparr>leaseByID := AList.update c l' (leaseByID m)\<rparr>)"
proof (rule mgr_okI)
  let ?m = "m\<lparr>leaseByID := AList.update c l' (leaseByID m)\<rparr>"
  have "lease_ok ?m x k = lease_ok m x k" for x k by (simp add: lease_ok_def in_pool_def)
  moreover have "lease_ok m c l'" using mgr_okD(3) [OF assms(1,2)] assms(3,4)
    by (simp add: lease_ok_def)
  ultimately show "lease_ok ?m x k" if "map_of (leaseByID ?m) x = Some k" for x k
    using that mgr_okD(3) [OF assms(1), of x k] by (auto simp: alist_simps split: if_splits)
  show "\<exists>k. map_of (leaseByID ?m) x = Some k \<and> l_ip k = ip"
    if "map_of (ownerByIP ?m) ip = Some x" for ip x
    using that mgr_okD(4) [OF assms(1), of ip x] assms(2,4) by (auto simp: alist_simps)
qed (use mgr_okD [OF assms(1)] in \<open>simp_all add: distinct_alist\<close>)

lemma MarkOffline_ok:
  assumes "mgr_ok m"
  shows "mgr_ok (MarkOffline now c m)" and "same_pool m (MarkOffline now c m)"
    and "map_of (leaseByID (MarkOffline now c m)) x =
      (if x = c then map_option (\<lambda>l. l\<lparr>l_online := False, l_updated := now,
         l_expires := now + mc_grace (m_cfg m)\<rparr>) (map_of (leaseByID m) c)
       else map_of (leaseByID m) x)"
  using lease_ok_update [OF assms] assms
  by (auto simp: MarkOffline_def alist_simps same_pool_def Let_def split: option.split)

lemma Acquire_cases:
  assumes ok: "mgr_ok m" and a: "Acquire now c m = (r, m')"
  obtains (no_id) "c = []" "r = Inl EmptyClientID" "m' = m"
  | (renewed) l where "c \<noteq> []" "map_of (leaseByID (sweepExpiredLocked now m)) c = Some l"
      "r = Inr (l\<lparr>l_online := True, l_updated := now, l_expires := now + mc_ttl (m_cfg m)\<rparr>)"
      "m' = (sweepExpiredLocked now m)\<lparr>leaseByID := AList.update c
         (l\<lparr>l_online := True, l_updated := now, l_expires := now + mc_ttl (m_cfg m)\<rparr>)
         (leaseByID (sweepExpiredLocked now m))\<rparr>"
  | (full) m2 where "c \<noteq> []" "map_of (leaseByID (sweepExpiredLocked now m)) c = None"
      "allocateIPLocked (sweepExpiredLocked now m) = (None, m2)" "r = Inl PoolExhausted" "m' = m2"
  | (fresh) ip m2 l where "c \<noteq> []" "map_of (leaseByID (sweepExpiredLocked now m)) c = None"
      "allocateIPLocked (sweepExpiredLocked now m) = (Some ip, m2)"
      "l = \<lparr>l_client = c, l_ip = ip, l_created = now, l_updated = now,
            l_expires = now + mc_ttl (m_cfg m), l_online = True\<rparr>" "r = Inr l"
      "m' = m2\<lparr>leaseByID := AList.update c l (leaseByID m2),
               ownerByIP := AList.update ip c (ownerByIP m2)\<rparr>"
proof -
  have cfg: "m_cfg (sweepExpiredLocked now m) = m_cfg m"
    using sweep_ok(2) [OF ok] by (simp add: same_pool_def)
  show thesis
  proof (cases "c = []")
    case True
    with a show ?thesis by (intro no_id) (simp_all add: Acquire_def)
  next
    case c: False
    show ?thesis
    proof (cases "map_of (leaseByID (sweepExpiredLocked now m)) c")
      case (Some l)
      with a c cfg show ?thesis by (intro renewed) (auto simp: Acquire_def Let_def)
    next
      case None
      obtain r2 m2 where al: "allocateIPLocked (sweepExpiredLocked now m) = (r2, m2)" by fastforce
      have "m_cfg m2 = m_cfg m"
        using allocate_ok(1) [OF sweep_ok(1) [OF ok] al] cfg by auto
      show ?thesis
      proof (cases r2)
        case r2: None
        with a c None al show ?thesis by (intro full) (simp_all add: Acquire_def Let_def)
      next
        case r2: (Some ip)
        from a c None al r2 \<open>m_cfg m2 = m_cfg m\<close> show ?thesis
          by (intro fresh [OF c None al [unfolded r2] refl]) (simp_all add: Acquire_def Let_def)
      qed
    qed
  qed
qed

lemma Acquire_ok:
  assumes ok: "mgr_ok m" and a: "Acquire now c m = (r, m')"
  shows "mgr_ok m' \<and> same_pool m m' \<and>
    (\<forall>x. x \<noteq> c \<longrightarrow> map_of (leaseByID m') x = map_of (leaseByID (sweepExpiredLocked now m)) x \<or> c = [])
    \<and> (\<forall>l. r = Inr l \<longrightarrow> map_of (leaseByID m') c = Some l \<and> l_online l \<and>
         l_expires l = now + mc_ttl (m_cfg m))"
  using ok a
proof (cases rule: Acquire_cases)
  case no_id
  with ok show ?thesis by simp
next
  case (renewed l)
  note s = sweep_ok [OF ok, of now]
  from lease_ok_update [OF s(1) renewed(2)] s(2) renewed show ?thesis
    by (auto simp: alist_simps same_pool_def)
next
  case (full m2)
  note s = sweep_ok [OF ok, of now]
  from allocate_ok(1) [OF s(1) full(3)] obtain x where
    m2: "m2 = (sweepExpiredLocked now m)\<lparr>m_next := x\<rparr>"
      "m_start (sweepExpiredLocked now m) \<le> x" "x \<le> m_end (sweepExpiredLocked now m)" by blast
  then have "mgr_ok m2" using s(1) by (auto simp: mgr_ok_def lease_ok_def in_pool_def)
  with full m2 s(2) show ?thesis by (auto simp: same_pool_def)
next
  case (fresh ip m2 l)
  note s = sweep_ok [OF ok, of now]
  from allocate_ok(1) [OF s(1) fresh(3)] obtain x where
    m2: "m2 = (sweepExpiredLocked now m)\<lparr>m_next := x\<rparr>"
      "m_start (sweepExpiredLocked now m) \<le> x" "x \<le> m_end (sweepExpiredLocked now m)" by blast
  then have ok2: "mgr_ok m2" using s(1) by (auto simp: mgr_ok_def lease_ok_def in_pool_def)
  from allocate_ok(2) [OF s(1) fresh(3) refl]
  have ip: "in_pool m2 ip" "ip \<notin> set (m_reserved m2)" "map_of (ownerByIP m2) ip = None"
    by (auto simp: m2 taken_def in_pool_def)
  have c2: "map_of (leaseByID m2) c = None" using fresh(2) by (simp add: m2)
  have "mgr_ok m'"
  proof (rule mgr_okI)
    fix y k
    assume "map_of (leaseByID m') y = Some k"
    then consider "y = c" "k = l" | "y \<noteq> c" "map_of (leaseByID m2) y = Some k"
      by (auto simp: fresh(6) alist_simps split: if_splits)
    then show "lease_ok m' y k"
    proof cases
      case 1
      with fresh(1,4) ip show ?thesis by (simp add: lease_ok_def fresh(6) alist_simps in_pool_def)
    next
      case 2
      from mgr_okD(3) [OF ok2 2(2)] have k: "lease_ok m2 y k" .
      with ip(3) have "l_ip k \<noteq> ip" by (auto simp: lease_ok_def)
      with k show ?thesis by (simp add: lease_ok_def fresh(6) alist_simps in_pool_def)
    qed
  next
    fix jp y
    assume "map_of (ownerByIP m') jp = Some y"
    then consider "jp = ip" "y = c" | "jp \<noteq> ip" "map_of (ownerByIP m2) jp = Some y"
      by (auto simp: fresh(6) alist_simps split: if_splits)
    then show "\<exists>k. map_of (leaseByID m') y = Some k \<and> l_ip k = jp"
    proof cases
      case 1
      with fresh(4,6) show ?thesis by (simp add: alist_simps)
    next
      case 2
      from mgr_okD(4) [OF ok2 2(2)] obtain k where "map_of (leaseByID m2) y = Some k" "l_ip k = jp"
        by blast
      moreover with c2 have "y \<noteq> c" by auto
      ultimately show ?thesis by (simp add: fresh(6) alist_simps)
    qed
  qed (use mgr_okD [OF ok2] in \<open>simp_all add: fresh(6) distinct_alist\<close>)
  with fresh m2 s(2) show ?thesis by (auto simp: alist_simps same_pool_def)
qed

lemma NewManager_ok: "NewManager cfg = Inr m \<Longrightarrow> mgr_ok m"
  by (auto simp: NewManager_def Let_def mgr_ok_def split: if_splits option.splits)

section \<open>The interface to the server\<close>

text \<open>
  What a client of the pool relies on. \<open>holder s c\<close> is the address that the client \<open>c\<close> holds,
  with the mark whether it is online.
\<close>

datatype pool_op = PAcquire int string | POffline int string | PRelease string | PSweep int

fun departs :: "string \<Rightarrow> pool_op \<Rightarrow> bool" where
  "departs c (POffline t x) \<longleftrightarrow> x = c"
| "departs c (PRelease x) \<longleftrightarrow> x = c"
| "departs c _ \<longleftrightarrow> False"

locale address_pool =
  fixes ok :: "'s \<Rightarrow> bool"
    and holder :: "'s \<Rightarrow> string \<Rightarrow> (string \<times> bool) option"
    and acquire :: "int \<Rightarrow> string \<Rightarrow> 's \<Rightarrow> ('e + lease) \<times> 's"
    and step :: "pool_op \<Rightarrow> 's \<Rightarrow> 's"
  assumes one_holder:
      "\<lbrakk>ok s; holder s c = Some (ip, o1); holder s d = Some (ip, o2)\<rbrakk> \<Longrightarrow> c = d"
    and acquire_step: "acquire t c s = (r, s') \<Longrightarrow> step (PAcquire t c) s = s'"
    and acquire_holds: "\<lbrakk>ok s; acquire t c s = (Inr l, s')\<rbrakk> \<Longrightarrow> holder s' c = Some (l_ip l, True)"
    and step_ok: "ok s \<Longrightarrow> ok (step p s)"
    and step_keeps:
      "\<lbrakk>ok s; holder s c = Some (ip, True); \<not> departs c p\<rbrakk> \<Longrightarrow> holder (step p s) c = Some (ip, True)"
begin

lemma run_ok: "ok s \<Longrightarrow> ok (fold step ps s)"
  by (induction ps arbitrary: s) (simp_all add: step_ok)

lemma run_keeps:
  "\<lbrakk>ok s; holder s c = Some (ip, True); \<forall>p\<in>set ps. \<not> departs c p\<rbrakk> \<Longrightarrow>
   holder (fold step ps s) c = Some (ip, True)"
  by (induction ps arbitrary: s) (simp_all add: step_ok step_keeps)

lemma acquire_ok: "\<lbrakk>ok s; acquire t c s = (r, s')\<rbrakk> \<Longrightarrow> ok s'"
  using step_ok acquire_step by metis

lemma exclusive:
  assumes "ok s" and a: "acquire t c s = (Inr l, s1)" and "\<forall>p\<in>set ps. \<not> departs c p"
    and b: "acquire t' d (fold step ps s1) = (Inr k, s2)" and "c \<noteq> d"
  shows "l_ip l \<noteq> l_ip k"
proof
  assume eq: "l_ip l = l_ip k"
  have ok1: "ok s1" by (rule acquire_ok [OF assms(1) a])
  have ok2: "ok (fold step ps s1)" by (rule run_ok [OF ok1])
  have "holder (fold step ps s1) c = Some (l_ip l, True)"
    by (rule run_keeps [OF ok1 acquire_holds [OF assms(1) a] assms(3)])
  then have "holder (step (PAcquire t' d) (fold step ps s1)) c = Some (l_ip l, True)"
    by (intro step_keeps ok2) simp_all
  then have "holder s2 c = Some (l_ip k, True)" using acquire_step [OF b] eq by simp
  with acquire_holds [OF ok2 b] one_holder [OF acquire_ok [OF ok2 b]] \<open>c \<noteq> d\<close> show False by blast
qed

end

fun run_op :: "pool_op \<Rightarrow> manager \<Rightarrow> manager" where
  "run_op (PAcquire t c) m = snd (Acquire t c m)"
| "run_op (POffline t c) m = MarkOffline t c m"
| "run_op (PRelease c) m = Release c m"
| "run_op (PSweep t) m = SweepExpired t m"

definition lease_of :: "manager \<Rightarrow> string \<Rightarrow> (string \<times> bool) option" where
  "lease_of m c = map_option (\<lambda>l. (l_ip l, l_online l)) (map_of (leaseByID m) c)"

lemma sweep_online:
  assumes "mgr_ok m" and "lease_of m c = Some (ip, True)"
  shows "lease_of (sweepExpiredLocked t m) c = Some (ip, True)"
  using assms by (auto simp: lease_of_def sweep_ok(3) expired_def)

lemma Acquire_online:
  assumes ok: "mgr_ok m" and a: "Acquire t d m = (r, m')" and on: "lease_of m c = Some (ip, True)"
  shows "lease_of m' c = Some (ip, True)"
proof (cases "c = d")
  case False
  with Acquire_ok [OF ok a] sweep_online [OF ok on, of t] on a show ?thesis
    by (cases "d = []") (auto simp: lease_of_def Acquire_def)
next
  case True
  from ok a show ?thesis
  proof (cases rule: Acquire_cases)
    case no_id
    with on show ?thesis by simp
  next
    case (renewed l)
    with True sweep_online [OF ok on, of t] show ?thesis by (auto simp: lease_of_def alist_simps)
  next
    case (full m2)
    with True sweep_online [OF ok on, of t] show ?thesis by (simp add: lease_of_def)
  next
    case (fresh ip m2 l)
    with True sweep_online [OF ok on, of t] show ?thesis by (simp add: lease_of_def)
  qed
qed

interpretation pool: address_pool mgr_ok lease_of Acquire run_op
proof (unfold_locales, goal_cases)
  case (1 s c ip o1 d o2)
  then obtain l k where "map_of (leaseByID s) c = Some l" "map_of (leaseByID s) d = Some k"
      "l_ip l = ip" "l_ip k = ip"
    by (auto simp: lease_of_def)
  with mgr_okD(3) [OF 1(1), of c l] mgr_okD(3) [OF 1(1), of d k] show ?case
    by (auto simp: lease_ok_def)
next
  case (2 t c s r s')
  then show ?case by simp
next
  case (3 s t c l s')
  from Acquire_ok [OF this] show ?case by (simp add: lease_of_def)
next
  case (4 s p)
  then show ?case
  proof (cases p)
    case (PAcquire t c)
    obtain r m' where a: "Acquire t c s = (r, m')" by fastforce
    with Acquire_ok [OF 4 a] PAcquire show ?thesis by simp
  qed (use 4 in \<open>simp_all add: MarkOffline_ok Release_def release_ok SweepExpired_def sweep_ok\<close>)
next
  case (5 s c ip p)
  then show ?case
  proof (cases p)
    case (PAcquire t d)
    obtain r m' where a: "Acquire t d s = (r, m')" by fastforce
    with Acquire_online [OF 5(1) a 5(2)] PAcquire show ?thesis by simp
  next
    case (PSweep t)
    with sweep_online [OF 5(1,2)] show ?thesis by (simp add: SweepExpired_def)
  qed (use 5 in \<open>auto simp: lease_of_def MarkOffline_ok Release_def release_ok\<close>)
qed

section \<open>Sample values\<close>

text \<open>A pool of three addresses, one of which is the gateway's.\<close>

definition sample_pool_cfg :: manager_config where
  "sample_pool_cfg =
     \<lparr>mc_start = dotted 0x0A000001, mc_end = dotted 0x0A000003, mc_mask = dotted 0xFFFFFF00,
      mc_gateway = dotted 0x0A000002, mc_dns = [dotted 0x08080808], mc_mtu = 0, mc_ttl = 0,
      mc_grace = 0\<rparr>"

definition sample_mgr :: manager where
  "sample_mgr =
     \<lparr>m_cfg = sample_pool_cfg\<lparr>mc_ttl := 24 * hour, mc_grace := 5 * 60000000000, mc_mtu := 1300\<rparr>,
      m_start = 0x0A000001, m_end = 0x0A000003, m_next = 0x0A000001, leaseByID = [],
      ownerByIP = [], m_reserved = [dotted 0x0A000002]\<rparr>"

lemma sample_mgr_new: "NewManager sample_pool_cfg = Inr sample_mgr"
  by (simp add: NewManager_def sample_pool_cfg_def sample_mgr_def normalizeDNSServers_def Let_def
      dotted_def [symmetric] v4_string_dotted)

lemma sample_mgr_ok: "mgr_ok sample_mgr"
  by (rule NewManager_ok [OF sample_mgr_new])

text \<open>Two clients, with nothing expired before the second one comes.\<close>

definition sample_lease1 :: lease where
  "sample_lease1 = \<lparr>l_client = ''a'', l_ip = dotted 0x0A000001, l_created = 5, l_updated = 5,
     l_expires = 5 + 24 * hour, l_online = True\<rparr>"

definition sample_lease2 :: lease where
  "sample_lease2 = \<lparr>l_client = ''b'', l_ip = dotted 0x0A000003, l_created = 7, l_updated = 7,
     l_expires = 7 + 24 * hour, l_online = True\<rparr>"

definition sample_mgr1 :: manager where
  "sample_mgr1 = sample_mgr\<lparr>m_next := 0x0A000002, leaseByID := [(''a'', sample_lease1)],
     ownerByIP := [(dotted 0x0A000001, ''a'')]\<rparr>"

definition sample_mgr2 :: manager where
  "sample_mgr2 = sample_mgr\<lparr>m_next := 0x0A000001,
     leaseByID := [(''a'', sample_lease1), (''b'', sample_lease2)],
     ownerByIP := [(dotted 0x0A000001, ''a''), (dotted 0x0A000003, ''b'')]\<rparr>"

lemma scan_three: "scan_pool 3 = scan_pool (Suc (Suc (Suc 0)))"
  by (simp only: numeral_3_eq_3)

lemma sample_acquire1: "Acquire 5 ''a'' sample_mgr = (Inr sample_lease1, sample_mgr1)"
  by (simp add: Acquire_def sweepExpiredLocked_def allocateIPLocked_def pool_size_def sample_mgr_def
      Let_def advanceNextLocked_def scan_three sample_lease1_def sample_mgr1_def)

lemma sample_acquire2: "Acquire 7 ''b'' sample_mgr1 = (Inr sample_lease2, sample_mgr2)"
  by (simp add: Acquire_def sweepExpiredLocked_def allocateIPLocked_def pool_size_def sample_mgr_def
      Let_def advanceNextLocked_def scan_three sample_lease1_def sample_lease2_def
      sample_mgr1_def sample_mgr2_def)

lemma sample_acquire3: "Acquire 9 ''c'' sample_mgr2 = (Inl PoolExhausted, sample_mgr2)"
  by (simp add: Acquire_def sweepExpiredLocked_def allocateIPLocked_def pool_size_def sample_mgr_def
      Let_def advanceNextLocked_def scan_three sample_lease1_def sample_lease2_def
      sample_mgr2_def)

section \<open>Properties\<close>

text \<open>
  C10: The lease tables stay consistent. After any sequence of requests, departures, releases and
  sweeps on a new manager, the two maps are inverse to each other, every leased address is an
  address of the configured range, none of them is the gateway's, and every lease carries its
  client's identity.
\<close>

theorem manager_invariant:
  assumes "NewManager cfg = Inr m0" and "m = fold run_op ps m0"
  shows "mgr_ok m \<and> m_start m = m_start m0 \<and> m_end m = m_end m0 \<and>
    m_reserved m = m_reserved m0"
proof -
  have "same_pool s (run_op p s)" if "mgr_ok s" for s p
  proof (cases p)
    case (PAcquire t c)
    obtain r m' where "Acquire t c s = (r, m')" by fastforce
    with Acquire_ok [OF that this] PAcquire show ?thesis by simp
  qed (use that in \<open>simp_all add: MarkOffline_ok Release_def release_ok SweepExpired_def sweep_ok\<close>)
  then have "mgr_ok s \<Longrightarrow> same_pool s (fold run_op ps s)" for s
  proof (induction ps arbitrary: s)
    case (Cons p ps)
    from same_pool_trans [OF Cons.prems(2) [OF Cons.prems(1), of p] Cons.IH] Cons.prems
    show ?case by (simp add: pool.step_ok)
  qed simp
  with pool.run_ok NewManager_ok [OF assms(1)] assms(2) show ?thesis
    by (auto simp: same_pool_def)
qed

theorem manager_invariant_witness:
  "mgr_ok (fold run_op [PAcquire 5 ''a'', PAcquire 7 ''b'', POffline 8 ''a'', PSweep 900] sample_mgr)"
  using manager_invariant [OF sample_mgr_new refl] by blast

text \<open>
  C5: An address belongs to one client. Once \<open>Acquire\<close> has given an address to a client, no
  sequence of operations in which that client is neither marked offline nor released makes
  \<open>Acquire\<close> give the same address to another client, however the times run.
\<close>

theorem lease_exclusive:
  assumes "NewManager cfg = Inr m0" and "Acquire t c (fold run_op ps m0) = (Inr l, m1)"
    and "\<forall>p\<in>set qs. \<not> departs c p" and "Acquire t' d (fold run_op qs m1) = (Inr k, m2)"
    and "c \<noteq> d"
  shows "l_ip l \<noteq> l_ip k"
  using pool.exclusive [OF pool.run_ok [OF NewManager_ok [OF assms(1)]] assms(2-5)] .

theorem lease_exclusive_witness:
  "\<exists>l k m. Acquire 5 ''a'' sample_mgr = (Inr l, m) \<and>
     fst (Acquire 7 ''b'' (fold run_op [PSweep 6] m)) = Inr k \<and> l_ip l \<noteq> l_ip k"
proof -
  have s: "fold run_op [PSweep 6] sample_mgr1 = sample_mgr1"
    by (simp add: SweepExpired_def sweepExpiredLocked_def sample_mgr1_def sample_lease1_def)
  have "l_ip sample_lease1 \<noteq> l_ip sample_lease2"
    by (rule lease_exclusive [OF sample_mgr_new, of 5 "''a''" "[]" sample_lease1 sample_mgr1
          "[PSweep 6]" 7 "''b''" sample_lease2 sample_mgr2])
      (simp_all add: sample_acquire1 sample_acquire2 s [simplified])
  with s sample_acquire1 sample_acquire2 show ?thesis by auto
qed

text \<open>
  C17: Exhaustion is exact. For a client with an identity, \<open>Acquire\<close> reports an exhausted pool
  exactly when the client has no lease that survives the sweep and every address of the range is
  reserved or held by a client whose lease survives it: the scan misses no free address.
\<close>

theorem pool_exhausted_iff:
  assumes "mgr_ok m" and "c \<noteq> []"
  shows "fst (Acquire now c m) = Inl PoolExhausted \<longleftrightarrow>
    (\<forall>l. map_of (leaseByID m) c = Some l \<longrightarrow> \<not> l_online l \<and> l_expires l < now) \<and>
    (\<forall>v. m_start m \<le> v \<and> v \<le> m_end m \<longrightarrow> dotted v \<in> set (m_reserved m) \<or>
       (\<exists>d l. map_of (leaseByID m) d = Some l \<and> l_ip l = dotted v \<and>
              (l_online l \<or> now \<le> l_expires l)))"
proof -
  let ?s = "sweepExpiredLocked now m"
  note s = sweep_ok [OF assms(1), of now]
  have gone: "map_of (leaseByID ?s) c = None \<longleftrightarrow>
      (\<forall>l. map_of (leaseByID m) c = Some l \<longrightarrow> \<not> l_online l \<and> l_expires l < now)"
    by (auto simp: s(3) expired_def split: option.split)
  have own: "map_of (ownerByIP ?s) ip \<noteq> None \<longleftrightarrow>
      (\<exists>d l. map_of (leaseByID m) d = Some l \<and> l_ip l = ip \<and> (l_online l \<or> now \<le> l_expires l))"
    for ip
  proof -
    have "map_of (ownerByIP ?s) ip \<noteq> None \<longleftrightarrow>
        (\<exists>d l. map_of (leaseByID ?s) d = Some l \<and> l_ip l = ip)"
      using mgr_okD(3,4) [OF s(1)] by (fastforce simp: lease_ok_def)
    moreover have "map_of (leaseByID ?s) d = Some l \<longleftrightarrow>
        map_of (leaseByID m) d = Some l \<and> (l_online l \<or> now \<le> l_expires l)" for d l
      by (auto simp: s(3) expired_def split: option.splits if_splits)
    ultimately show ?thesis by auto
  qed
  obtain r m2 where al: "allocateIPLocked ?s = (r, m2)" by fastforce
  have "fst (Acquire now c m) = Inl PoolExhausted \<longleftrightarrow> map_of (leaseByID ?s) c = None \<and> r = None"
    using assms(2) al by (auto simp: Acquire_def Let_def split: option.split)
  also have "\<dots> \<longleftrightarrow> map_of (leaseByID ?s) c = None \<and>
      (\<forall>v. m_start m \<le> v \<and> v \<le> m_end m \<longrightarrow> taken ?s (dotted v))"
    using allocate_ok(3) [OF s(1) al] s(2) by (auto simp: in_pool_def same_pool_def)
  finally show ?thesis using s(2) by (simp only: gone taken_def own same_pool_def)
qed

lemma sample_mgr2_pool:
  "m_start sample_mgr2 = 0x0A000001" "m_end sample_mgr2 = 0x0A000003"
  "m_reserved sample_mgr2 = [dotted 0x0A000002]"
  by (simp_all add: sample_mgr2_def sample_mgr_def)

theorem pool_exhausted_iff_witness:
  "fst (Acquire 9 ''c'' sample_mgr2) = Inl PoolExhausted \<and>
   (\<exists>d l. map_of (leaseByID sample_mgr2) d = Some l \<and> l_ip l = dotted 0x0A000003)"
proof -
  have "mgr_ok sample_mgr2"
    using Acquire_ok [OF conjunct1 [OF Acquire_ok [OF sample_mgr_ok sample_acquire1]] sample_acquire2]
    by simp
  then have "\<forall>v. m_start sample_mgr2 \<le> v \<and> v \<le> m_end sample_mgr2 \<longrightarrow>
      dotted v \<in> set (m_reserved sample_mgr2) \<or>
      (\<exists>d l. map_of (leaseByID sample_mgr2) d = Some l \<and> l_ip l = dotted v \<and>
             (l_online l \<or> 9 \<le> l_expires l))"
    using pool_exhausted_iff [of sample_mgr2 "''c''" 9] sample_acquire3 by simp
  from spec [OF this, of "0x0A000003"]
  have "\<exists>d l. map_of (leaseByID sample_mgr2) d = Some l \<and> l_ip l = dotted 0x0A000003"
    by (auto simp: sample_mgr2_pool)
  then show ?thesis by (simp add: sample_acquire3)
qed

text \<open>
  A known client keeps its address. A request of a client whose lease is online or not yet
  past its grace period renews this lease: same address and creation time, online again, with a
  full term from now, and no other client's surviving lease changes.
\<close>

theorem acquire_renews:
  assumes "mgr_ok m" and "map_of (leaseByID m) c = Some l" and "l_online l \<or> now \<le> l_expires l"
  shows "\<exists>m'. Acquire now c m =
      (Inr (l\<lparr>l_online := True, l_updated := now, l_expires := now + mc_ttl (m_cfg m)\<rparr>), m') \<and>
    (\<forall>d k. d \<noteq> c \<longrightarrow> map_of (leaseByID m) d = Some k \<longrightarrow> l_online k \<or> now \<le> l_expires k \<longrightarrow>
       map_of (leaseByID m') d = Some k)"
proof -
  note s = sweep_ok [OF assms(1), of now]
  have "c \<noteq> []" using mgr_okD(3) [OF assms(1,2)] by (simp add: lease_ok_def)
  moreover have "map_of (leaseByID (sweepExpiredLocked now m)) c = Some l"
    using assms by (auto simp: s(3) expired_def)
  moreover have "m_cfg (sweepExpiredLocked now m) = m_cfg m" using s(2) by (simp add: same_pool_def)
  ultimately show ?thesis
    by (auto simp: Acquire_def Let_def alist_simps s(3) expired_def)
qed

theorem acquire_renews_witness:
  "\<exists>m'. Acquire 100 ''a'' sample_mgr1 =
      (Inr (sample_lease1\<lparr>l_online := True, l_updated := 100, l_expires := 100 + 24 * hour\<rparr>), m')"
proof -
  have "mgr_ok sample_mgr1" using Acquire_ok [OF sample_mgr_ok sample_acquire1] by simp
  moreover have "map_of (leaseByID sample_mgr1) ''a'' = Some sample_lease1"
    by (simp add: sample_mgr1_def)
  moreover have "l_online sample_lease1 \<or> 100 \<le> l_expires sample_lease1"
    by (simp add: sample_lease1_def)
  ultimately show ?thesis
    using acquire_renews [of sample_mgr1 "''a''" sample_lease1 100]
    by (auto simp: sample_mgr1_def sample_mgr_def)
qed

text \<open>
  A sweep removes exactly the leases of clients that are offline and past their expiry time,
  and frees their addresses; every other lease stays as it is.
\<close>

theorem sweep_exact:
  assumes "mgr_ok m"
  shows "map_of (leaseByID (SweepExpired now m)) c =
      (case map_of (leaseByID m) c of
         None \<Rightarrow> None
       | Some l \<Rightarrow> if \<not> l_online l \<and> l_expires l < now then None else Some l) \<and>
    (map_of (ownerByIP (SweepExpired now m)) ip = Some c \<longleftrightarrow>
       (\<exists>l. map_of (leaseByID (SweepExpired now m)) c = Some l \<and> l_ip l = ip))"
proof -
  note ok = sweep_ok(1) [OF assms, of now]
  have "map_of (ownerByIP (sweepExpiredLocked now m)) ip = Some c \<longleftrightarrow>
      (\<exists>l. map_of (leaseByID (sweepExpiredLocked now m)) c = Some l \<and> l_ip l = ip)"
    using mgr_okD(3,4) [OF ok] by (auto simp: lease_ok_def)
  then show ?thesis using sweep_ok(3) [OF assms, of now c]
    unfolding SweepExpired_def expired_def by blast
qed

theorem sweep_exact_witness:
  "map_of (leaseByID (SweepExpired 1000000000000 (MarkOffline 10 ''a'' sample_mgr1))) ''a'' = None"
proof -
  have "mgr_ok (MarkOffline 10 ''a'' sample_mgr1)"
    using MarkOffline_ok(1) Acquire_ok [OF sample_mgr_ok sample_acquire1] by simp
  from sweep_exact [OF this, of 1000000000000 "''a''"] show ?thesis
    by (simp add: MarkOffline_def sample_mgr1_def sample_mgr_def Let_def sample_lease1_def)
qed

end
