(* ===== verification/Peers.thy ===== *)
theory Peers
  imports App_Protocol Dhcp_Manager
begin

text \<open>
  \<^verbatim>\<open>vlan/peer.go\<close> and \<^verbatim>\<open>vlan/management_events.go\<close>: the peers of the server, the registry of
  their connections, addresses and identities, and the ring of management events. Pointers to
  peers and connections are indices into the lists of all peers and connections ever made.
\<close>

section \<open>Connections and peers\<close>

text \<open>
  The server's view of a \<^verbatim>\<open>tcpx.SecureConn\<close>: \<open>cn_room\<close> is the number of writes that still succeed,
  \<open>cn_sent\<close> what was written.
\<close>

record conn_st =
  cn_remote :: string
  cn_closed :: bool
  cn_room :: nat
  cn_sent :: "bytes list"

definition conn_write :: "bytes \<Rightarrow> conn_st \<Rightarrow> bool \<times> conn_st" where
  "conn_write payload c =
     (if cn_closed c \<or> cn_room c = 0 then (False, c)
      else (True, c\<lparr>cn_sent := cn_sent c @ [payload], cn_room := cn_room c - 1\<rparr>))"

definition conn_close :: "conn_st \<Rightarrow> conn_st" where
  "conn_close c = c\<lparr>cn_closed := True\<rparr>"

definition serverPeerSendQueueSize :: nat where "serverPeerSendQueueSize = 16 * 1024"

record peer =
  p_stats :: traffic_counter
  p_conn :: nat
  p_id :: string
  p_ip :: string
  p_queue :: "bytes list"
  p_done :: bool
  p_sending :: bool

definition newClientPeer :: "nat \<Rightarrow> peer" where
  "newClientPeer c =
     \<lparr>p_stats = zero_counter, p_conn = c, p_id = [], p_ip = [], p_queue = [], p_done = False,
      p_sending = False\<rparr>"

definition setIdentity :: "string \<Rightarrow> peer \<Rightarrow> bool \<times> peer" where
  "setIdentity i p = (if p_id p \<noteq> [] \<and> p_id p \<noteq> i then (False, p) else (True, p\<lparr>p_id := i\<rparr>))"

definition setIP :: "string \<Rightarrow> peer \<Rightarrow> peer" where
  "setIP ip p = p\<lparr>p_ip := ip\<rparr>"

definition authed :: "peer \<Rightarrow> bool" where
  "authed p \<longleftrightarrow> p_id p \<noteq> []"

definition ownsIP :: "string \<Rightarrow> peer \<Rightarrow> bool" where
  "ownsIP ip p \<longleftrightarrow> p_ip p \<noteq> [] \<and> p_ip p = ip"

text \<open>
  \<open>enqueue\<close> waits while the queue is full: \<open>None\<close> says that it has not returned yet. A closed
  peer's queue is read by nobody; of the two outcomes the \<^verbatim>\<open>select\<close> may then have, the error is
  the one modelled.
\<close>

definition enqueue :: "bytes \<Rightarrow> peer \<Rightarrow> peer option" where
  "enqueue pkt p =
     (if p_done p then Some p
      else if length (p_queue p) < serverPeerSendQueueSize
        then Some (p\<lparr>p_queue := p_queue p @ [pkt]\<rparr>)
      else None)"

section \<open>The registry\<close>

record registry =
  r_conns :: "(nat \<times> nat) list"
  r_ips :: "(string \<times> nat) list"
  r_ids :: "(string \<times> nat) list"

definition newPeerRegistry :: registry where
  "newPeerRegistry = \<lparr>r_conns = [], r_ips = [], r_ids = []\<rparr>"

definition addConn :: "nat \<Rightarrow> peer list \<Rightarrow> registry \<Rightarrow> registry" where
  "addConn i ps r = r\<lparr>r_conns := AList.update (p_conn (ps ! i)) i (r_conns r)\<rparr>"

definition bindIP :: "nat \<Rightarrow> string \<Rightarrow> peer list \<Rightarrow> registry \<Rightarrow> nat option \<times> peer list \<times> registry" where
  "bindIP i ip ps r =
     (let old = map_of (r_ips r) ip;
          ps' = ps[i := setIP ip (ps ! i)];
          r1 = r\<lparr>r_ips := AList.update ip i (r_ips r)\<rparr>;
          r2 = (if p_id (ps' ! i) \<noteq> []
                then r1\<lparr>r_ids := AList.update (p_id (ps' ! i)) i (r_ids r1)\<rparr> else r1)
      in (old, ps', r2))"

definition remove :: "nat \<Rightarrow> peer list \<Rightarrow> registry \<Rightarrow> registry" where
  "remove i ps r =
     (let p = ps ! i;
          r1 = (if map_of (r_conns r) (p_conn p) = Some i
                then r\<lparr>r_conns := AList.delete (p_conn p) (r_conns r)\<rparr> else r);
          r2 = (if p_ip p \<noteq> [] \<and> map_of (r_ips r1) (p_ip p) = Some i
                then r1\<lparr>r_ips := AList.delete (p_ip p) (r_ips r1)\<rparr> else r1)
      in (if p_id p \<noteq> [] \<and> map_of (r_ids r2) (p_id p) = Some i
          then r2\<lparr>r_ids := AList.delete (p_id p) (r_ids r2)\<rparr> else r2))"

definition byConn :: "registry \<Rightarrow> nat \<Rightarrow> nat option" where
  "byConn r c = map_of (r_conns r) c"

definition byIP :: "registry \<Rightarrow> string \<Rightarrow> nat option" where
  "byIP r ip = map_of (r_ips r) ip"

definition byID :: "registry \<Rightarrow> string \<Rightarrow> nat option" where
  "byID r i = map_of (r_ids r) i"

definition reg_all :: "registry \<Rightarrow> nat list" where
  "reg_all r = remdups (map snd (r_conns r) @ map snd (r_ips r))"

definition withIP :: "registry \<Rightarrow> nat list" where
  "withIP r = map snd (r_ips r)"

section \<open>Management events\<close>

record vdhcp_info =
  i_client :: string
  i_remote :: string
  i_ip :: string
  i_mask :: string
  i_gateway :: string
  i_dns :: "string list"
  i_mtu :: int
  i_lease :: int

datatype event_kind =
    ServerStarted int bool
  | AuthFailed string auth_error
  | ClientAuthed string string
  | VDHCPAssigned vdhcp_info
  | ClientDisconnected string string

record management_event =
  ev_id :: "64 word"
  ev_time :: int
  ev_kind :: event_kind

definition maxManagementEvents :: nat where "maxManagementEvents = 256"

record event_log =
  el_events :: "management_event list"
  el_id :: "64 word"

text \<open>Go's \<^verbatim>\<open>copy(dst, src)\<close> on one slice.\<close>

definition copy_front :: "'a list \<Rightarrow> 'a list \<Rightarrow> 'a list" where
  "copy_front dst src = take (length dst) src @ drop (length src) dst"

definition recordManagementEvent :: "int \<Rightarrow> event_kind \<Rightarrow> event_log \<Rightarrow> event_log" where
  "recordManagementEvent now k l =
     (let n = el_id l + 1;
          es = el_events l @ [\<lparr>ev_id = n, ev_time = now, ev_kind = k\<rparr>]
      in \<lparr>el_events =
            (if length es > maxManagementEvents
             then take maxManagementEvents
                    (copy_front es (drop (length es - maxManagementEvents) es))
             else es),
          el_id = n\<rparr>)"

definition managementEventsSnapshot :: "event_log \<Rightarrow> management_event list" where
  "managementEventsSnapshot l = el_events l"

text \<open>The ring keeps the latest events.\<close>

lemma ring_drop:
  "length es > maxManagementEvents \<Longrightarrow>
   take maxManagementEvents (copy_front es (drop (length es - maxManagementEvents) es)) =
     drop (length es - maxManagementEvents) es"
  by (simp add: copy_front_def)

lemma record_events:
  "el_events (recordManagementEvent now k l) =
     (let es = el_events l @ [\<lparr>ev_id = el_id l + 1, ev_time = now, ev_kind = k\<rparr>]
      in drop (length es - maxManagementEvents) es)"
proof -
  define es where
    "es = el_events l @ [\<lparr>ev_id = el_id l + 1, ev_time = now, ev_kind = k\<rparr>]"
  have "el_events (recordManagementEvent now k l) =
      (if length es > maxManagementEvents
       then take maxManagementEvents (copy_front es (drop (length es - maxManagementEvents) es))
       else es)"
    by (simp add: recordManagementEvent_def Let_def es_def)
  also have "\<dots> = drop (length es - maxManagementEvents) es"
    using ring_drop [of es] by auto
  finally show ?thesis by (simp add: es_def)
qed

definition record_all :: "(int \<times> event_kind) list \<Rightarrow> event_log" where
  "record_all xs =
     fold (\<lambda>(t, k). recordManagementEvent t k) xs \<lparr>el_events = [], el_id = 0\<rparr>"

lemma record_all_snoc:
  "record_all (xs @ [(t, k)]) = recordManagementEvent t k (record_all xs)"
  by (simp add: record_all_def)

lemma drop_append_last:
  "drop (length xs + 1 - m) (xs @ [x]) =
     (let ys = drop (length xs - m) xs @ [x] in drop (length ys - m) ys)" if "0 < m"
proof (cases "m \<le> length xs")
  case True
  then have "length xs + 1 - m = Suc (length xs - m)" "length (drop (length xs - m) xs) = m" by auto
  with True that show ?thesis by (simp add: Let_def drop_Suc tl_drop)
next
  case False
  then show ?thesis by (simp add: Let_def)
qed

definition numbered :: "(int \<times> event_kind) list \<Rightarrow> management_event list" where
  "numbered xs = map (\<lambda>(i, t, k). \<lparr>ev_id = of_nat (Suc i), ev_time = t, ev_kind = k\<rparr>)
     (enumerate 0 xs)"

lemma record_all_numbered:
  "el_events (record_all xs) = drop (length xs - maxManagementEvents) (numbered xs) \<and>
   el_id (record_all xs) = of_nat (length xs)"
proof (induction xs rule: rev_induct)
  case Nil
  then show ?case by (simp add: record_all_def numbered_def)
next
  case (snoc x xs)
  obtain t k where x: "x = (t, k)" by fastforce
  let ?e = "\<lparr>ev_id = of_nat (Suc (length xs)), ev_time = t, ev_kind = k\<rparr>"
  have n: "numbered (xs @ [x]) = numbered xs @ [?e]" "length (numbered xs) = length xs"
    by (simp_all add: numbered_def x enumerate_append_eq)
  have id: "el_id (record_all (xs @ [x])) = of_nat (length (xs @ [x]))"
    using snoc by (simp add: x record_all_snoc recordManagementEvent_def Let_def)
  have "el_events (record_all (xs @ [x])) =
      (let es = drop (length xs - maxManagementEvents) (numbered xs) @ [?e]
       in drop (length es - maxManagementEvents) es)"
    using snoc by (simp add: x record_all_snoc record_events add.commute)
  also have "\<dots> = drop (length xs + 1 - maxManagementEvents) (numbered xs @ [?e])"
    using drop_append_last [of maxManagementEvents "numbered xs" ?e]
    by (simp add: n maxManagementEvents_def)
  finally show ?case using id n by simp
qed

section \<open>Properties\<close>

text \<open>
  The event ring. After any number of recorded events the log holds exactly the last 256 of
  them, in order, and each carries its number in the whole sequence, so that a reader who polls
  the log sees which events it has missed.
\<close>

theorem event_ring:
  "map ev_kind (managementEventsSnapshot (record_all xs)) = map snd (drop (length xs - 256) xs) \<and>
   map ev_id (managementEventsSnapshot (record_all xs)) =
     map of_nat [Suc (length xs - 256)..<Suc (length xs)]"
proof -
  have e: "managementEventsSnapshot (record_all xs) = drop (length xs - 256) (numbered xs)"
    using record_all_numbered [of xs]
    by (simp add: managementEventsSnapshot_def maxManagementEvents_def)
  have k: "map ev_kind (numbered xs) = map snd xs"
    by (rule nth_equalityI) (simp_all add: numbered_def nth_enumerate_eq split: prod.split)
  have i: "map ev_id (numbered xs) = map of_nat [1..<Suc (length xs)]"
    by (rule nth_equalityI) (simp_all add: numbered_def nth_enumerate_eq del: upt_Suc split: prod.split)
  have "drop (length xs - 256) [1..<Suc (length xs)] = [Suc (length xs - 256)..<Suc (length xs)]"
    by (simp only: drop_upt) simp
  note upt = this
  have "map ev_kind (drop n (numbered xs)) = map snd (drop n xs)"
    "map ev_id (drop n (numbered xs)) = map of_nat (drop n [1..<Suc (length xs)])" for n
    using k i by (metis drop_map)+
  then show ?thesis by (simp only: e upt)
qed

end
