(* ===== verification/Dhcp_Message.thy ===== *)
theory Dhcp_Message
  imports Net_IP
begin

text \<open>
  \<^verbatim>\<open>vdhcp/dhcp.go\<close>: the address request and its answers. The wire form is produced and read by
  \<^verbatim>\<open>encoding/json\<close>, which is a parameter here: a pair of functions of which the properties use
  that reading what was written gives an ASCII message back.
\<close>

section \<open>Messages\<close>

definition MessageTypeDiscover :: string where "MessageTypeDiscover = ''DISCOVER''"
definition MessageTypeOffer :: string where "MessageTypeOffer = ''OFFER''"
definition MessageTypeNak :: string where "MessageTypeNak = ''NAK''"

record message =
  msg_type :: string
  msg_reqID :: string
  msg_ip :: string
  msg_mask :: string
  msg_gateway :: string
  msg_dns :: "string list"
  msg_mtu :: int
  msg_lease :: int
  msg_reason :: string

definition empty_message :: message where
  "empty_message = \<lparr>msg_type = [], msg_reqID = [], msg_ip = [], msg_mask = [], msg_gateway = [],
     msg_dns = [], msg_mtu = 0, msg_lease = 0, msg_reason = []\<rparr>"

section \<open>The JSON codec\<close>

record json_codec =
  j_enc :: "message \<Rightarrow> bytes"
  j_dec :: "bytes \<Rightarrow> message option"

definition ascii :: "string \<Rightarrow> bool" where
  "ascii s \<longleftrightarrow> list_all (\<lambda>c. (of_char c :: nat) < 128) s"

definition int64 :: "int \<Rightarrow> bool" where
  "int64 i \<longleftrightarrow> - (2 ^ 63) \<le> i \<and> i < 2 ^ 63"

definition plain_message :: "message \<Rightarrow> bool" where
  "plain_message m \<longleftrightarrow>
     ascii (msg_type m) \<and> ascii (msg_reqID m) \<and> ascii (msg_ip m) \<and> ascii (msg_mask m) \<and>
     ascii (msg_gateway m) \<and> list_all ascii (msg_dns m) \<and> int64 (msg_mtu m) \<and>
     int64 (msg_lease m) \<and> ascii (msg_reason m)"

definition json_ok :: "json_codec \<Rightarrow> bool" where
  "json_ok J \<longleftrightarrow> (\<forall>m. plain_message m \<longrightarrow> j_dec J (j_enc J m) = Some m)"

section \<open>Operations\<close>

text \<open>
  The random source and the clock reading that \<^verbatim>\<open>NewRequestID\<close> falls back to are arguments.
\<close>

definition NewRequestID :: "bytes \<Rightarrow> int \<Rightarrow> string" where
  "NewRequestID ent now =
     (if length ent < 16 then (if now < 0 then CHR ''-'' # decimal (nat (- now)) else decimal (nat now))
      else hex_encode (take 16 ent))"

definition EncodeDiscover :: "json_codec \<Rightarrow> bytes \<Rightarrow> int \<Rightarrow> bytes \<times> string" where
  "EncodeDiscover J ent now =
     (let reqID = NewRequestID ent now
      in (j_enc J (empty_message\<lparr>msg_type := MessageTypeDiscover, msg_reqID := reqID\<rparr>), reqID))"

text \<open>\<^verbatim>\<open>lease.Seconds()\<close> of a whole number of seconds, the only durations passed.\<close>

definition offer_message ::
    "string \<Rightarrow> string \<Rightarrow> string \<Rightarrow> string \<Rightarrow> string list \<Rightarrow> int \<Rightarrow> int \<Rightarrow> message" where
  "offer_message reqID ip mask4 gateway dns mtu lease =
     \<lparr>msg_type = MessageTypeOffer, msg_reqID = reqID, msg_ip = ip, msg_mask = mask4,
      msg_gateway = gateway, msg_dns = dns, msg_mtu = mtu, msg_lease = lease div 1000000000,
      msg_reason = []\<rparr>"

definition EncodeOffer ::
    "json_codec \<Rightarrow> string \<Rightarrow> string \<Rightarrow> string \<Rightarrow> string \<Rightarrow> string list \<Rightarrow> int \<Rightarrow> int \<Rightarrow> bytes" where
  "EncodeOffer J reqID ip mask4 gateway dns mtu lease =
     j_enc J (offer_message reqID ip mask4 gateway dns mtu lease)"

definition EncodeNak :: "json_codec \<Rightarrow> string \<Rightarrow> string \<Rightarrow> bytes" where
  "EncodeNak J reqID reason =
     j_enc J (empty_message\<lparr>msg_type := MessageTypeNak, msg_reqID := reqID, msg_reason := reason\<rparr>)"

datatype vdhcp_error =
    JSONError | TypeEmpty | InvalidType string
  | UnexpectedType string | RequestMismatch | MissingAddress | MissingDNS | BadOfferDNS string
  | BadMTU | BadLease

definition DecodeMessage :: "json_codec \<Rightarrow> bytes \<Rightarrow> vdhcp_error + message" where
  "DecodeMessage J pkt =
     (case j_dec J pkt of
        None \<Rightarrow> Inl JSONError
      | Some msg \<Rightarrow>
          if msg_type msg \<in> {MessageTypeDiscover, MessageTypeOffer, MessageTypeNak} then Inr msg
          else if msg_type msg = [] then Inl TypeEmpty
          else Inl (InvalidType (msg_type msg)))"

definition bad_dns :: "string \<Rightarrow> bool" where
  "bad_dns d \<longleftrightarrow> trim_space d = [] \<or> parse_v4 (trim_space d) = None"

definition ValidateOffer :: "message \<Rightarrow> string \<Rightarrow> vdhcp_error option" where
  "ValidateOffer msg reqID =
     (if msg_type msg \<noteq> MessageTypeOffer then Some (UnexpectedType (msg_type msg))
      else if msg_reqID msg \<noteq> reqID then Some RequestMismatch
      else if msg_ip msg = [] \<or> msg_mask msg = [] \<or> msg_gateway msg = [] then Some MissingAddress
      else if length (msg_dns msg) = 0 then Some MissingDNS
      else (case find bad_dns (msg_dns msg) of
          Some d \<Rightarrow> Some (BadOfferDNS (trim_space d))
        | None \<Rightarrow> if msg_mtu msg \<le> 0 then Some BadMTU
                  else if msg_lease msg \<le> 0 then Some BadLease
                  else None))"

section \<open>A codec\<close>

text \<open>
  A concrete pair with the law: strings with a mark before every character, numbers as their
  sign and their size in unary.
\<close>

fun put_str :: "string \<Rightarrow> bytes" where
  "put_str [] = [0]"
| "put_str (c # s) = 1 # byte_of_char c # put_str s"

fun get_str :: "bytes \<Rightarrow> (string \<times> bytes) option" where
  "get_str (m # bs) =
     (if m = 0 then Some ([], bs)
      else case bs of [] \<Rightarrow> None
        | b # bs' \<Rightarrow> map_option (\<lambda>(s, r). (char_of (unat b) # s, r)) (get_str bs'))"
| "get_str [] = None"

definition put_nat :: "nat \<Rightarrow> bytes" where
  "put_nat n = replicate n 1 @ [0]"

fun get_nat :: "bytes \<Rightarrow> (nat \<times> bytes) option" where
  "get_nat [] = None"
| "get_nat (b # bs) = (if b = 0 then Some (0, bs) else map_option (apfst Suc) (get_nat bs))"

definition put_int :: "int \<Rightarrow> bytes" where
  "put_int i = (if i < 0 then 1 else 0) # put_nat (nat \<bar>i\<bar>)"

fun get_int :: "bytes \<Rightarrow> (int \<times> bytes) option" where
  "get_int [] = None"
| "get_int (b # bs) = map_option (apfst (\<lambda>n. if b = 0 then int n else - int n)) (get_nat bs)"

definition put_strs :: "string list \<Rightarrow> bytes" where
  "put_strs ss = put_nat (length ss) @ concat (map put_str ss)"

fun get_many :: "nat \<Rightarrow> bytes \<Rightarrow> (string list \<times> bytes) option" where
  "get_many 0 bs = Some ([], bs)"
| "get_many (Suc n) bs =
     Option.bind (get_str bs) (\<lambda>(s, r). map_option (apfst ((#) s)) (get_many n r))"

lemma byte_of_char_back: "char_of (unat (byte_of_char c)) = c"
proof -
  have "(of_char c :: nat) < 256" by (rule nat_of_char_less_256)
  moreover have "byte_of_char c = of_nat (of_char c)" by (simp add: byte_of_char_def of_nat_of_char)
  ultimately show ?thesis by (simp add: unsigned_of_nat take_bit_nat_eq_self)
qed

lemma get_put_str [simp]: "get_str (put_str s @ r) = Some (s, r)"
  by (induction s) (simp_all add: byte_of_char_back)

lemma get_put_nat [simp]: "get_nat (put_nat n @ r) = Some (n, r)"
  by (induction n) (simp_all add: put_nat_def)

lemma get_put_int [simp]: "get_int (put_int i @ r) = Some (i, r)"
  using get_put_nat [of "nat \<bar>i\<bar>" r] by (simp add: put_int_def)

lemma get_put_many [simp]: "get_many (length ss) (concat (map put_str ss) @ r) = Some (ss, r)"
  by (induction ss) simp_all

definition toy_json :: json_codec where
  "toy_json =
     \<lparr>j_enc = (\<lambda>m. put_str (msg_type m) @ put_str (msg_reqID m) @ put_str (msg_ip m) @
        put_str (msg_mask m) @ put_str (msg_gateway m) @ put_strs (msg_dns m) @
        put_int (msg_mtu m) @ put_int (msg_lease m) @ put_str (msg_reason m)),
      j_dec = (\<lambda>bs.
        Option.bind (get_str bs) (\<lambda>(t, bs). Option.bind (get_str bs) (\<lambda>(q, bs).
        Option.bind (get_str bs) (\<lambda>(i, bs). Option.bind (get_str bs) (\<lambda>(k, bs).
        Option.bind (get_str bs) (\<lambda>(g, bs). Option.bind (get_nat bs) (\<lambda>(n, bs).
        Option.bind (get_many n bs) (\<lambda>(d, bs). Option.bind (get_int bs) (\<lambda>(u, bs).
        Option.bind (get_int bs) (\<lambda>(l, bs). Option.bind (get_str bs) (\<lambda>(r, bs).
          Some \<lparr>msg_type = t, msg_reqID = q, msg_ip = i, msg_mask = k, msg_gateway = g,
                msg_dns = d, msg_mtu = u, msg_lease = l, msg_reason = r\<rparr>)))))))))))\<rparr>"

lemma toy_json_ok: "json_ok toy_json"
proof -
  have "get_str (put_str s) = Some (s, [])" for s using get_put_str [of s "[]"] by simp
  then show ?thesis by (simp add: json_ok_def toy_json_def put_strs_def)
qed

section \<open>Decoding offers\<close>

lemma parse_v4_Nil: "parse_v4 [] = None"
  by (simp add: parse_v4_def ParseIP_def)

lemma find_bad_dns_None:
  "find bad_dns ds = None \<longleftrightarrow> (\<forall>d\<in>set ds. parse_v4 (trim_space d) \<noteq> None)"
  using parse_v4_Nil by (auto simp: find_None_iff bad_dns_def)

lemma offer_decodes:
  assumes "json_ok J" and "plain_message (offer_message reqID ip mask4 gateway dns mtu lease)"
  shows "DecodeMessage J (EncodeOffer J reqID ip mask4 gateway dns mtu lease) =
    Inr (offer_message reqID ip mask4 gateway dns mtu lease)"
proof -
  let ?m = "offer_message reqID ip mask4 gateway dns mtu lease"
  have "j_dec J (j_enc J ?m) = Some ?m" using assms by (simp add: json_ok_def)
  then show ?thesis by (simp add: DecodeMessage_def EncodeOffer_def offer_message_def)
qed

lemma offer_validates:
  assumes "ip \<noteq> []" and "mask4 \<noteq> []" and "gateway \<noteq> []" and "dns \<noteq> []"
    and "\<forall>d\<in>set dns. parse_v4 (trim_space d) \<noteq> None" and "0 < mtu" and "1000000000 \<le> lease"
  shows "ValidateOffer (offer_message reqID ip mask4 gateway dns mtu lease) req =
    (if req = reqID then None else Some RequestMismatch)"
proof -
  have "0 < lease div 1000000000" using assms(7) by (simp add: pos_imp_zdiv_pos_iff)
  moreover have "find bad_dns dns = None" using assms(5) by (simp add: find_bad_dns_None)
  ultimately show ?thesis using assms(1-4,6) by (simp add: offer_message_def ValidateOffer_def)
qed

section \<open>Properties\<close>

text \<open>
  C23: Offers reach the client. An offer that the server encodes with an address, a mask, a
  gateway, IPv4 name servers, a positive MTU and a term of at least a second is decoded by the
  client to the same values, and validation accepts it for the request it answers and for no
  other request.
\<close>

theorem offer_accepted:
  assumes "json_ok J" and "plain_message (offer_message reqID ip mask4 gateway dns mtu lease)"
    and "ip \<noteq> []" and "mask4 \<noteq> []" and "gateway \<noteq> []" and "dns \<noteq> []"
    and "\<forall>d\<in>set dns. parse_v4 (trim_space d) \<noteq> None" and "0 < mtu" and "1000000000 \<le> lease"
  shows "\<exists>m. DecodeMessage J (EncodeOffer J reqID ip mask4 gateway dns mtu lease) = Inr m \<and>
    msg_ip m = ip \<and> msg_mask m = mask4 \<and> msg_gateway m = gateway \<and> msg_dns m = dns \<and>
    msg_mtu m = mtu \<and>
    (\<forall>req. ValidateOffer m req = (if req = reqID then None else Some RequestMismatch))"
  using offer_decodes [OF assms(1,2)] offer_validates [OF assms(3-9)]
  by (auto simp: offer_message_def)

theorem offer_accepted_witness:
  "\<exists>m. DecodeMessage toy_json (EncodeOffer toy_json ''r1'' ''10.0.0.9'' ''255.0.0.0'' ''10.0.0.1''
     [dotted 0x08080808] 1300 (86400 * 1000000000)) = Inr m \<and> ValidateOffer m ''r1'' = None"
proof -
  have a: "list_all (\<lambda>c. (of_char c :: nat) < 128) (dotted v)" for v
    using decimal_digits by (fastforce simp: dotted_def v4_string_def list_all_iff is_digit_def)
  then have "plain_message (offer_message ''r1'' ''10.0.0.9'' ''255.0.0.0'' ''10.0.0.1''
      [dotted 0x08080808] 1300 (86400 * 1000000000))"
    by (simp add: plain_message_def offer_message_def ascii_def MessageTypeOffer_def int64_def)
  from offer_accepted [OF toy_json_ok this] show ?thesis by fastforce
qed

text \<open>
  What validation lets through. A message that \<open>ValidateOffer\<close> accepts is an offer for the
  pending request with an address, a mask and a gateway, at least one name server, every one of
  which is an IPv4 address, and positive MTU and term; and every such message is accepted.
\<close>

theorem validate_offer_iff:
  "ValidateOffer m req = None \<longleftrightarrow>
     msg_type m = MessageTypeOffer \<and> msg_reqID m = req \<and>
     msg_ip m \<noteq> [] \<and> msg_mask m \<noteq> [] \<and> msg_gateway m \<noteq> [] \<and> msg_dns m \<noteq> [] \<and>
     (\<forall>d\<in>set (msg_dns m). parse_v4 (trim_space d) \<noteq> None) \<and> 0 < msg_mtu m \<and> 0 < msg_lease m"
  unfolding ValidateOffer_def find_bad_dns_None [symmetric]
  by (cases "find bad_dns (msg_dns m)") (auto simp: not_le)

theorem validate_offer_iff_witness:
  "ValidateOffer (offer_message ''r'' ''10.0.0.9'' ''255.0.0.0'' ''10.0.0.1'' [dotted 0x08080808]
     1300 (86400 * 1000000000)) ''r'' = None"
  by (simp add: validate_offer_iff offer_message_def)

end
