(* ===== verification/Config.thy ===== *)
theory Config
  imports Keys Net_IP Dhcp_Manager
begin

text \<open>
  The package \<^verbatim>\<open>config\<close>: the configuration records and the durations of \<^verbatim>\<open>schema.go\<close>, the
  defaults, the validation and the loading sequence of \<^verbatim>\<open>config.go\<close>. Reading and decoding the file
  and writing a generated key back to it are arguments of the loader.
\<close>

section \<open>Records\<close>

record transport_config =
  ReadTimeoutSeconds :: int
  WriteTimeoutSeconds :: int
  HeartbeatBaseSeconds :: int
  HeartbeatJitterSeconds :: int
  KeyRotateIntervalSeconds :: int
  OldKeyGraceSeconds :: int
  ReconnectBaseSeconds :: int
  ReconnectJitterSeconds :: int

record vdhcp_config =
  v_start :: string
  v_end :: string
  v_mask :: string
  v_gateway :: string
  v_dns :: "string list"

record management_config =
  g_enabled :: bool
  g_addr :: string
  g_token :: string

record client_config =
  cc_privateKey :: string
  cc_server :: string
  cc_serverPublicKey :: string
  cc_ifName :: string
  cc_proxy :: bool
  cc_tcp :: transport_config

record server_config =
  sv_privateKey :: string
  sv_port :: int
  sv_ifName :: string
  sv_mtu :: int
  sv_proxy :: bool
  sv_vdhcp :: vdhcp_config
  sv_tcp :: transport_config
  sv_management :: management_config

section \<open>Durations\<close>

text \<open>
  \<^verbatim>\<open>time.Duration\<close> is a signed 64-bit number of nanoseconds and its product wraps around.
\<close>

definition wrap64 :: "int \<Rightarrow> int" where
  "wrap64 i = signed_take_bit 63 i"

definition secondsOrDefault :: "int \<Rightarrow> int \<Rightarrow> int" where
  "secondsOrDefault v d = (if v \<le> 0 then d else wrap64 (v * 1000000000))"

definition ClientReadTimeout :: "transport_config \<Rightarrow> int" where
  "ClientReadTimeout c = secondsOrDefault (ReadTimeoutSeconds c) (10 * second)"
definition ClientWriteTimeout :: "transport_config \<Rightarrow> int" where
  "ClientWriteTimeout c = secondsOrDefault (WriteTimeoutSeconds c) (8 * second)"
definition ServerReadTimeout :: "transport_config \<Rightarrow> int" where
  "ServerReadTimeout c = secondsOrDefault (ReadTimeoutSeconds c) (60 * second)"
definition ServerWriteTimeout :: "transport_config \<Rightarrow> int" where
  "ServerWriteTimeout c = secondsOrDefault (WriteTimeoutSeconds c) (15 * second)"
definition ClientHeartbeatBase :: "transport_config \<Rightarrow> int" where
  "ClientHeartbeatBase c = secondsOrDefault (HeartbeatBaseSeconds c) (4 * second)"
definition ClientHeartbeatJitter :: "transport_config \<Rightarrow> int" where
  "ClientHeartbeatJitter c = secondsOrDefault (HeartbeatJitterSeconds c) second"
definition ServerHeartbeatBase :: "transport_config \<Rightarrow> int" where
  "ServerHeartbeatBase c = secondsOrDefault (HeartbeatBaseSeconds c) (10 * second)"
definition ServerHeartbeatJitter :: "transport_config \<Rightarrow> int" where
  "ServerHeartbeatJitter c = secondsOrDefault (HeartbeatJitterSeconds c) (5 * second)"
definition KeyRotateInterval :: "transport_config \<Rightarrow> int" where
  "KeyRotateInterval c = secondsOrDefault (KeyRotateIntervalSeconds c) (45 * second)"
definition OldKeyGrace :: "transport_config \<Rightarrow> int" where
  "OldKeyGrace c = secondsOrDefault (OldKeyGraceSeconds c) (30 * second)"
definition ClientOldKeyGrace :: "transport_config \<Rightarrow> int" where
  "ClientOldKeyGrace c = secondsOrDefault (OldKeyGraceSeconds c) (20 * second)"
definition ReconnectBase :: "transport_config \<Rightarrow> int" where
  "ReconnectBase c = secondsOrDefault (ReconnectBaseSeconds c) second"
definition ReconnectJitter :: "transport_config \<Rightarrow> int" where
  "ReconnectJitter c = secondsOrDefault (ReconnectJitterSeconds c) (3 * second)"

section \<open>Defaults and validation\<close>

definition applyClientDefaults :: "client_config \<Rightarrow> client_config" where
  "applyClientDefaults c =
     (if cc_ifName c = [] then c\<lparr>cc_ifName := ''LwyV-NetAdapter''\<rparr> else c)"

definition defaultDNSServers :: "string list" where
  "defaultDNSServers = [''8.8.8.8'', ''1.1.1.1'']"

text \<open>The package has its own copy of \<open>normalizeDNSServers\<close>.\<close>

definition config_normalizeDNSServers :: "string list \<Rightarrow> string list" where
  "config_normalizeDNSServers xs = filter (\<lambda>d. d \<noteq> []) (map trim_space xs)"

definition vdhcp_defaults :: "vdhcp_config \<Rightarrow> vdhcp_config" where
  "vdhcp_defaults v =
     (let dns = config_normalizeDNSServers (v_dns v)
      in \<lparr>v_start = (if v_start v = [] then ''172.19.0.10'' else v_start v),
          v_end = (if v_end v = [] then ''172.19.0.200'' else v_end v),
          v_mask = (if v_mask v = [] then ''255.255.255.0'' else v_mask v),
          v_gateway = (if v_gateway v = [] then ''172.19.0.254'' else v_gateway v),
          v_dns = (if dns = [] then defaultDNSServers else dns)\<rparr>)"

definition applyServerDefaults :: "server_config \<Rightarrow> server_config" where
  "applyServerDefaults c =
     c\<lparr>sv_port := (if sv_port c \<le> 0 then 9999 else sv_port c),
       sv_ifName := (if sv_ifName c = [] then ''LwyV-Gateway'' else sv_ifName c),
       sv_mtu := (if sv_mtu c \<le> 0 then 1300 else sv_mtu c),
       sv_vdhcp := vdhcp_defaults (sv_vdhcp c),
       sv_management := (if g_addr (sv_management c) = []
         then (sv_management c)\<lparr>g_addr := ''127.0.0.1:18080''\<rparr> else sv_management c)\<rparr>"

datatype config_error =
    LoadJSON | EmptyServer | EmptyServerKey | KeyGenFailed tcp_error | PatchFailed
  | BadPrivateKey tcp_error | BadServerKey tcp_error
  | BadStartIP string | BadEndIP string | BadGatewayIP string | DNSEmpty | BadDNSServer string
  | StartAfterEnd | BadSubnetMask string

definition validateVDHCP :: "vdhcp_config \<Rightarrow> config_error option" where
  "validateVDHCP v =
     (case parse_v4 (v_start v) of
        None \<Rightarrow> Some (BadStartIP (v_start v))
      | Some start \<Rightarrow>
          (case parse_v4 (v_end v) of
             None \<Rightarrow> Some (BadEndIP (v_end v))
           | Some end4 \<Rightarrow>
               if parse_v4 (v_gateway v) = None then Some (BadGatewayIP (v_gateway v))
               else if v_dns v = [] then Some DNSEmpty
               else (case find (\<lambda>d. parse_v4 d = None) (v_dns v) of
                   Some d \<Rightarrow> Some (BadDNSServer d)
                 | None \<Rightarrow>
                     if ipToUint32 start > ipToUint32 end4 then Some StartAfterEnd
                     else if MaskToPrefix (v_mask v) = None then Some (BadSubnetMask (v_mask v))
                     else None)))"

section \<open>Loading\<close>

text \<open>
  \<open>ensurePrivateKey\<close> returns the key to use and the key it has put into the file; \<open>patch\<close> says
  whether \<^verbatim>\<open>patchPrivateKey\<close> succeeds with a key.
\<close>

definition ensurePrivateKey ::
    "crypto \<Rightarrow> (string \<Rightarrow> bool) \<Rightarrow> bytes \<Rightarrow> string \<Rightarrow> (config_error + string) \<times> string option" where
  "ensurePrivateKey C patch ent key =
     (if trim_space key \<noteq> [] then (Inr key, None)
      else case GenerateStaticKeyBase64 C ent of
          Inl e \<Rightarrow> (Inl (KeyGenFailed e), None)
        | Inr (privateKey, publicKey) \<Rightarrow>
            if patch privateKey then (Inr privateKey, Some privateKey)
            else (Inl PatchFailed, Some privateKey))"

definition LoadClientConfigFrom ::
    "crypto \<Rightarrow> client_config option \<Rightarrow> (string \<Rightarrow> bool) \<Rightarrow> bytes \<Rightarrow>
      (config_error + client_config) \<times> string option" where
  "LoadClientConfigFrom C loaded patch ent =
     (case loaded of
        None \<Rightarrow> (Inl LoadJSON, None)
      | Some conf0 \<Rightarrow>
          let conf = applyClientDefaults conf0
          in if trim_space (cc_server conf) = [] then (Inl EmptyServer, None)
             else if trim_space (cc_serverPublicKey conf) = [] then (Inl EmptyServerKey, None)
             else case ensurePrivateKey C patch ent (cc_privateKey conf) of
                 (Inl e, w) \<Rightarrow> (Inl e, w)
               | (Inr key, w) \<Rightarrow>
                   (case ParsePrivateKeyAny key of
                      Inl e \<Rightarrow> (Inl (BadPrivateKey e), w)
                    | Inr _ \<Rightarrow>
                        (case ParsePublicKeyAny (cc_serverPublicKey conf) of
                           Inl e \<Rightarrow> (Inl (BadServerKey e), w)
                         | Inr _ \<Rightarrow> (Inr (conf\<lparr>cc_privateKey := key\<rparr>), w))))"

definition LoadServerConfigFrom ::
    "crypto \<Rightarrow> server_config option \<Rightarrow> (string \<Rightarrow> bool) \<Rightarrow> bytes \<Rightarrow>
      (config_error + server_config) \<times> string option" where
  "LoadServerConfigFrom C loaded patch ent =
     (case loaded of
        None \<Rightarrow> (Inl LoadJSON, None)
      | Some conf0 \<Rightarrow>
          let conf = applyServerDefaults conf0
          in case validateVDHCP (sv_vdhcp conf) of
               Some e \<Rightarrow> (Inl e, None)
             | None \<Rightarrow>
                 (case ensurePrivateKey C patch ent (sv_privateKey conf) of
                    (Inl e, w) \<Rightarrow> (Inl e, w)
                  | (Inr key, w) \<Rightarrow>
                      (case ParsePrivateKeyAny key of
                         Inl e \<Rightarrow> (Inl (BadPrivateKey e), w)
                       | Inr _ \<Rightarrow> (Inr (conf\<lparr>sv_privateKey := key\<rparr>), w))))"

text \<open>What the server hands to \<^verbatim>\<open>vdhcp.NewManager\<close> (\<^verbatim>\<open>vlan/server.go\<close>, \<^verbatim>\<open>initDHCP\<close>).\<close>

definition serverLeaseTTL :: int where "serverLeaseTTL = 24 * hour"
definition serverOfflineGrace :: int where "serverOfflineGrace = 5 * minute"

definition dhcp_config_of :: "server_config \<Rightarrow> manager_config" where
  "dhcp_config_of conf =
     \<lparr>mc_start = v_start (sv_vdhcp conf), mc_end = v_end (sv_vdhcp conf),
      mc_mask = v_mask (sv_vdhcp conf), mc_gateway = v_gateway (sv_vdhcp conf),
      mc_dns = v_dns (sv_vdhcp conf), mc_mtu = sv_mtu conf, mc_ttl = serverLeaseTTL,
      mc_grace = serverOfflineGrace\<rparr>"

definition initDHCP :: "server_config \<Rightarrow> dhcp_error + manager" where
  "initDHCP conf = NewManager (dhcp_config_of conf)"

section \<open>Lemmas\<close>

lemma normalize_idem:
  "normalizeDNSServers (config_normalizeDNSServers xs) = config_normalizeDNSServers xs"
proof -
  have "map trim_space (filter (\<lambda>d. d \<noteq> []) (map trim_space xs)) = filter (\<lambda>d. d \<noteq> []) (map trim_space xs)"
    by (induction xs) auto
  then show ?thesis by (simp add: normalizeDNSServers_def config_normalizeDNSServers_def)
qed

lemma default_dns_normal: "normalizeDNSServers defaultDNSServers = defaultDNSServers"
proof -
  have "trim_space ''8.8.8.8'' = ''8.8.8.8''" "trim_space ''1.1.1.1'' = ''1.1.1.1''"
    by (rule trim_space_visible; simp add: visible_def)+
  then show ?thesis by (simp add: normalizeDNSServers_def defaultDNSServers_def)
qed

lemma defaults_dns_normal:
  "normalizeDNSServers (v_dns (vdhcp_defaults v)) = v_dns (vdhcp_defaults v)"
  by (simp add: vdhcp_defaults_def Let_def normalize_idem default_dns_normal)

lemma MaskToPrefix_parses: "MaskToPrefix m \<noteq> None \<Longrightarrow> parse_v4 m \<noteq> None"
  by (auto simp: MaskToPrefix_def split: option.splits)

lemma validateVDHCP_None:
  "validateVDHCP v = None \<longleftrightarrow>
     (\<exists>s e. parse_v4 (v_start v) = Some s \<and> parse_v4 (v_end v) = Some e \<and>
            ipToUint32 s \<le> ipToUint32 e) \<and>
     parse_v4 (v_gateway v) \<noteq> None \<and> v_dns v \<noteq> [] \<and>
     find (\<lambda>d. parse_v4 d = None) (v_dns v) = None \<and> MaskToPrefix (v_mask v) \<noteq> None"
  by (auto simp: validateVDHCP_def not_less split: option.splits if_splits)

lemma NewManager_valid:
  assumes "validateVDHCP v = None" and "normalizeDNSServers (v_dns v) = v_dns v"
    and "mc_start cfg = v_start v" "mc_end cfg = v_end v" "mc_mask cfg = v_mask v"
    "mc_gateway cfg = v_gateway v" "mc_dns cfg = v_dns v"
  shows "\<exists>m. NewManager cfg = Inr m"
  using assms MaskToPrefix_parses [of "v_mask v"]
  by (auto simp: validateVDHCP_None NewManager_def Let_def)

section \<open>Properties\<close>

definition sample_server_conf :: server_config where
  "sample_server_conf =
     \<lparr>sv_privateKey = [], sv_port = 0, sv_ifName = [], sv_mtu = 0, sv_proxy = False,
      sv_vdhcp = \<lparr>v_start = [], v_end = [], v_mask = [], v_gateway = [], v_dns = []\<rparr>,
      sv_tcp = \<lparr>ReadTimeoutSeconds = 0, WriteTimeoutSeconds = 0, HeartbeatBaseSeconds = 0,
        HeartbeatJitterSeconds = 0, KeyRotateIntervalSeconds = 0, OldKeyGraceSeconds = 0,
        ReconnectBaseSeconds = 0, ReconnectJitterSeconds = 0\<rparr>,
      sv_management = \<lparr>g_enabled = False, g_addr = [], g_token = []\<rparr>\<rparr>"

lemma default_addresses:
  "parse_v4 ''172.19.0.10'' = Some [172, 19, 0, 10]"
  "parse_v4 ''172.19.0.200'' = Some [172, 19, 0, 200]"
  "parse_v4 ''172.19.0.254'' = Some [172, 19, 0, 254]"
  "parse_v4 ''255.255.255.0'' = Some [255, 255, 255, 0]"
  "parse_v4 ''8.8.8.8'' = Some [8, 8, 8, 8]" "parse_v4 ''1.1.1.1'' = Some [1, 1, 1, 1]"
  by (simp_all add: parse_v4_def ParseIP_def parse_ipv4_def is_digit_def digit_val_def)

lemma defaults_valid:
  "validateVDHCP (vdhcp_defaults \<lparr>v_start = [], v_end = [], v_mask = [], v_gateway = [], v_dns = []\<rparr>)
     = None"
  by (simp add: validateVDHCP_None vdhcp_defaults_def Let_def default_addresses
      config_normalizeDNSServers_def defaultDNSServers_def MaskToPrefix_def mask_Size_def
      byte_ones_def ipToUint32_def)

text \<open>
  A server configuration that loads also starts. Whatever the file holds, if loading succeeds
  then the address manager can be created from the configuration and satisfies its invariant,
  the private key normalises to a text that the transport parses to the same key, and the port
  and the MTU are positive.
\<close>

theorem loaded_server_starts:
  assumes "LoadServerConfigFrom C loaded patch ent = (Inr conf, w)"
  shows "(\<exists>m. initDHCP conf = Inr m \<and> mgr_ok m) \<and>
    (\<exists>h k. NormalizePrivateKeyHex (sv_privateKey conf) = Inr h \<and> ParsePrivateKeyHex h = Inr k \<and>
       ParsePrivateKeyAny (sv_privateKey conf) = Inr k) \<and>
    0 < sv_port conf \<and> 0 < sv_mtu conf"
proof -
  from assms obtain conf0 key k where conf: "conf = (applyServerDefaults conf0)\<lparr>sv_privateKey := key\<rparr>"
    and v: "validateVDHCP (sv_vdhcp (applyServerDefaults conf0)) = None"
    and k: "ParsePrivateKeyAny key = Inr k"
    by (auto simp: LoadServerConfigFrom_def Let_def split: option.splits prod.splits sum.splits)
  have "\<exists>m. NewManager (dhcp_config_of conf) = Inr m"
    by (rule NewManager_valid [OF v])
      (simp_all add: conf applyServerDefaults_def dhcp_config_of_def defaults_dns_normal)
  moreover have "length k = 32" using k DecodeX25519Key_length
    by (auto simp: ParsePrivateKeyAny_def x25519_new_def split: sum.splits if_splits)
  ultimately show ?thesis
    using k NewManager_ok
    by (auto simp: conf initDHCP_def NormalizePrivateKeyHex_def ParsePrivateKeyHex_def
        x25519_new_def applyServerDefaults_def)
qed

lemma sample_load:
  "LoadServerConfigFrom toy_crypto (Some sample_server_conf) (\<lambda>k. True) (replicate 32 7) =
     (Inr ((applyServerDefaults sample_server_conf)
        \<lparr>sv_privateKey := b64_encode False True (replicate 32 7)\<rparr>),
      Some (b64_encode False True (replicate 32 7)))"
proof -
  have "ParsePrivateKeyAny (b64_encode False True (replicate 32 7)) = Inr (replicate 32 7)"
    using key_text_dec [of "replicate 32 7"] by (simp add: ParsePrivateKeyAny_def x25519_new_def)
  then show ?thesis
    using defaults_valid
    by (simp add: LoadServerConfigFrom_def Let_def ensurePrivateKey_def sample_server_conf_def
        GenerateStaticKeyBase64_def applyServerDefaults_def)
qed

theorem loaded_server_starts_witness:
  "\<exists>m. initDHCP ((applyServerDefaults sample_server_conf)
     \<lparr>sv_privateKey := b64_encode False True (replicate 32 7)\<rparr>) = Inr m \<and> mgr_ok m"
  using loaded_server_starts [OF sample_load] by blast

text \<open>
  A generated key is kept. When the configuration has no private key and the file can be
  written, the key that is used is the key that was written to the file, and the next load of
  the file parses it to the generated 32 bytes without generating another one.
\<close>

theorem generated_key_kept:
  assumes "trim_space key = []" and "32 \<le> length ent" and "patch (b64_encode False True (take 32 ent))"
  shows "\<exists>text. ensurePrivateKey C patch ent key = (Inr text, Some text) \<and>
    ParsePrivateKeyAny text = Inr (take 32 ent) \<and>
    (\<forall>patch' ent'. ensurePrivateKey C patch' ent' text = (Inr text, None))"
proof -
  let ?t = "b64_encode False True (take 32 ent)"
  have len: "length (take 32 ent) = 32" using assms(2) by simp
  then have "ParsePrivateKeyAny ?t = Inr (take 32 ent)"
    using key_text_dec [OF len] by (simp add: ParsePrivateKeyAny_def x25519_new_def)
  moreover have "?t \<noteq> []" using length_b64_encode [of False True "take 32 ent"] len by auto
  ultimately show ?thesis using assms
    by (intro exI [of _ ?t]) (simp add: ensurePrivateKey_def GenerateStaticKeyBase64_def Let_def)
qed

theorem generated_key_kept_witness:
  "\<exists>text. ensurePrivateKey toy_crypto (\<lambda>k. True) (replicate 40 1) ''  '' = (Inr text, Some text)"
proof -
  have "trim_space ''  '' = []"
    by (simp add: trim_space_def strip_front.simps space_runes_def starts_with_def)
  from generated_key_kept [OF this, of "replicate 40 1" "\<lambda>k. True" toy_crypto] show ?thesis by auto
qed

text \<open>
  Seconds become nanoseconds exactly up to 9223372036. For a positive number of seconds the
  duration is the number times \<open>10 ^ 9\<close> if and only if the number is at most 9223372036; the next
  number already gives a negative duration, which the transport takes as no time-out at all.
\<close>

theorem seconds_exact:
  "(0 < v \<longrightarrow> (secondsOrDefault v d = v * 1000000000 \<longleftrightarrow> v \<le> 9223372036)) \<and>
   secondsOrDefault 9223372037 d < 0"
proof -
  have "wrap64 (v * 1000000000) = v * 1000000000 \<longleftrightarrow> v \<le> 9223372036" if "0 < v"
    using that by (auto simp: wrap64_def signed_take_bit_int_eq_self_iff)
  moreover have "wrap64 (9223372037 * 1000000000) < 0"
    by (simp add: wrap64_def)
  ultimately show ?thesis by (simp add: secondsOrDefault_def)
qed

theorem seconds_exact_witness: "secondsOrDefault 3600 0 = 3600000000000"
  using seconds_exact [of 3600 0] by simp

end
