(* ===== verification/Tun_Commands.thy ===== *)
theory Tun_Commands
  imports Net_IP
begin

text \<open>
  \<^verbatim>\<open>tunSetup/tun_linux.go\<close>: the commands that set up the TUN interface, the routes and the name
  servers on Linux. The operating system is a parameter: which commands succeed and what they
  print may depend on all the commands run before. The log of the commands is the state.
\<close>

section \<open>Running commands\<close>

type_synonym cmd_log = "(string list \<times> bool) list"

text \<open>
  \<open>he_run\<close>: does the command end without an error; \<open>he_out\<close>: what it prints; \<open>he_lookpath\<close>: is
  there a program of this name; \<open>he_lookup\<close>: the addresses the resolver gives for a name.
\<close>

record host_env =
  he_run :: "cmd_log \<Rightarrow> string list \<Rightarrow> bool"
  he_out :: "cmd_log \<Rightarrow> string list \<Rightarrow> string"
  he_lookpath :: "string \<Rightarrow> bool"
  he_lookup :: "string \<Rightarrow> bytes list option"

definition exec_cmd :: "host_env \<Rightarrow> string list \<Rightarrow> cmd_log \<Rightarrow> bool \<times> cmd_log" where
  "exec_cmd E argv log = (let ok = he_run E log argv in (ok, log @ [(argv, ok)]))"

definition exec_output :: "host_env \<Rightarrow> string list \<Rightarrow> cmd_log \<Rightarrow> bool \<times> string \<times> cmd_log" where
  "exec_output E argv log =
     (let ok = he_run E log argv in (ok, he_out E log argv, log @ [(argv, ok)]))"

lemma exec_cmd_log: "exec_cmd E argv log = (ok, log') \<Longrightarrow> log' = log @ [(argv, ok)]"
  by (auto simp: exec_cmd_def Let_def)

datatype tun_error =
    BadMask4 string
  | CommandFailed
  | NoDefaultRoute
  | EmptyDefaultRoute
  | ParseDefaultRoute string
  | IPv6Server string
  | LookupFailed
  | NoIPv4Address string
  | EgressFailed
  | EgressEmpty
  | IptablesFailed string string "string list"

text \<open>The outcome of one command as an error or none.\<close>

definition exec_err :: "host_env \<Rightarrow> string list \<Rightarrow> cmd_log \<Rightarrow> tun_error option \<times> cmd_log" where
  "exec_err E argv log = apfst (\<lambda>ok. if ok then None else Some CommandFailed) (exec_cmd E argv log)"

section \<open>The interface\<close>

text \<open>The package's own copy of \<open>MaskToPrefix\<close>.\<close>

definition tun_MaskToPrefix :: "string \<Rightarrow> tun_error + nat" where
  "tun_MaskToPrefix msk =
     (case parse_v4 msk of
        None \<Rightarrow> Inl (BadMask4 msk)
      | Some ip \<Rightarrow>
          let (ones, bits) = mask_Size ip in if bits \<noteq> 32 then Inl (BadMask4 msk) else Inr ones)"

lemma prefix_of_sample_mask: "tun_MaskToPrefix ''255.255.255.0'' = Inr 24"
  by (simp add: tun_MaskToPrefix_def parse_v4_def ParseIP_def parse_ipv4_def is_digit_def
      digit_val_def mask_Size_def byte_ones_def)

definition ConfigureTunAddress ::
    "host_env \<Rightarrow> string \<Rightarrow> string \<Rightarrow> string \<Rightarrow> cmd_log \<Rightarrow> tun_error option \<times> cmd_log" where
  "ConfigureTunAddress E ifName ip msk log =
     (case tun_MaskToPrefix msk of
        Inl e \<Rightarrow> (Some e, log)
      | Inr n \<Rightarrow>
          (case exec_err E [''ip'', ''link'', ''set'', ''dev'', ifName, ''up''] log of
             (Some e, log1) \<Rightarrow> (Some e, log1)
           | (None, log1) \<Rightarrow>
               exec_err E [''ip'', ''addr'', ''replace'', ip @ ''/'' @ decimal n, ''dev'', ifName] log1))"

definition AllowTunTraffic :: "string \<Rightarrow> tun_error option" where
  "AllowTunTraffic ifName = None"

definition SetInterfaceDNS ::
    "host_env \<Rightarrow> string \<Rightarrow> string list \<Rightarrow> cmd_log \<Rightarrow> tun_error option \<times> cmd_log" where
  "SetInterfaceDNS E ifName dns log =
     (if \<not> he_lookpath E ''resolvectl'' then (None, log)
      else (case exec_err E ([''resolvectl'', ''dns'', ifName] @ dns) log of
              (Some e, log1) \<Rightarrow> (Some e, log1)
            | (None, log1) \<Rightarrow> exec_err E [''resolvectl'', ''domain'', ifName, ''~.''] log1))"

definition ResetInterfaceDNS :: "host_env \<Rightarrow> string \<Rightarrow> cmd_log \<Rightarrow> tun_error option \<times> cmd_log" where
  "ResetInterfaceDNS E ifName log =
     (if \<not> he_lookpath E ''resolvectl'' then (None, log)
      else exec_err E [''resolvectl'', ''revert'', ifName] log)"

section \<open>Routes\<close>

record default_route =
  dr_gateway :: string
  dr_ifName :: string
  dr_ifIndex :: string

text \<open>The loop over the fields; a later \<^verbatim>\<open>via\<close> or \<^verbatim>\<open>dev\<close> overrides an earlier one.\<close>

fun route_fields :: "string list \<Rightarrow> default_route \<Rightarrow> default_route" where
  "route_fields [] r = r"
| "route_fields (f # fs) r =
     route_fields fs
       (if f = ''via'' then (if fs \<noteq> [] then r\<lparr>dr_gateway := hd fs\<rparr> else r)
        else if f = ''dev'' then (if fs \<noteq> [] then r\<lparr>dr_ifName := hd fs\<rparr> else r)
        else r)"

definition GetDefaultRoute :: "host_env \<Rightarrow> cmd_log \<Rightarrow> (tun_error + default_route) \<times> cmd_log" where
  "GetDefaultRoute E log =
     (case exec_output E [''sh'', ''-c'', ''ip route show default | head -n 1''] log of
        (ok, out, log1) \<Rightarrow>
          (if \<not> ok then Inl NoDefaultRoute
           else let line = trim_space out in
             if line = [] then Inl EmptyDefaultRoute
             else let info = route_fields (Fields line)
                               \<lparr>dr_gateway = [], dr_ifName = [], dr_ifIndex = []\<rparr>
                  in if dr_gateway info = [] \<or> dr_ifName info = [] then Inl (ParseDefaultRoute line)
                     else Inr info, log1))"

definition AddHostRoute ::
    "host_env \<Rightarrow> string \<Rightarrow> string \<Rightarrow> string \<Rightarrow> cmd_log \<Rightarrow> tun_error option \<times> cmd_log" where
  "AddHostRoute E hostIP gateway ifName log =
     exec_err E [''ip'', ''route'', ''replace'', hostIP @ ''/32'', ''via'', gateway, ''dev'', ifName] log"

definition DeleteHostRoute ::
    "host_env \<Rightarrow> string \<Rightarrow> string \<Rightarrow> string \<Rightarrow> cmd_log \<Rightarrow> tun_error option \<times> cmd_log" where
  "DeleteHostRoute E hostIP gateway ifName log =
     exec_err E [''ip'', ''route'', ''del'', hostIP @ ''/32'', ''via'', gateway, ''dev'', ifName] log"

definition AddDefaultRoute ::
    "host_env \<Rightarrow> string \<Rightarrow> string \<Rightarrow> cmd_log \<Rightarrow> tun_error option \<times> cmd_log" where
  "AddDefaultRoute E ifName gateway log =
     exec_err E [''ip'', ''route'', ''replace'', ''default'', ''via'', gateway, ''dev'', ifName] log"

definition AddDefaultRouteToTun ::
    "host_env \<Rightarrow> string \<Rightarrow> string \<Rightarrow> cmd_log \<Rightarrow> tun_error option \<times> cmd_log" where
  "AddDefaultRouteToTun E ifName gateway log = AddDefaultRoute E ifName gateway log"

definition AddSplitDefaultRoutesToTun ::
    "host_env \<Rightarrow> string \<Rightarrow> string \<Rightarrow> cmd_log \<Rightarrow> tun_error option \<times> cmd_log" where
  "AddSplitDefaultRoutesToTun E ifName gateway log =
     (case exec_err E [''ip'', ''route'', ''replace'', ''0.0.0.0/1'', ''via'', gateway,
                       ''dev'', ifName, ''metric'', ''1''] log of
        (Some e, log1) \<Rightarrow> (Some e, log1)
      | (None, log1) \<Rightarrow>
          exec_err E [''ip'', ''route'', ''replace'', ''128.0.0.0/1'', ''via'', gateway,
                      ''dev'', ifName, ''metric'', ''1''] log1)"

definition DeleteDefaultRoute ::
    "host_env \<Rightarrow> string \<Rightarrow> string \<Rightarrow> cmd_log \<Rightarrow> tun_error option \<times> cmd_log" where
  "DeleteDefaultRoute E ifName gateway log =
     exec_err E [''ip'', ''route'', ''del'', ''default'', ''via'', gateway, ''dev'', ifName] log"

definition DeleteSplitDefaultRoutesFromTun ::
    "host_env \<Rightarrow> string \<Rightarrow> string \<Rightarrow> cmd_log \<Rightarrow> tun_error option \<times> cmd_log" where
  "DeleteSplitDefaultRoutesFromTun E ifName gateway log =
     (let (_, log1) = exec_err E [''ip'', ''route'', ''del'', ''0.0.0.0/1'', ''via'', gateway,
                                  ''dev'', ifName] log;
          (_, log2) = exec_err E [''ip'', ''route'', ''del'', ''128.0.0.0/1'', ''via'', gateway,
                                  ''dev'', ifName] log1
      in (None, log2))"

end
