(* ===== verification/Tun_Routes.thy ===== *)
theory Tun_Routes
  imports Tun_Commands
begin

text \<open>
  \<^verbatim>\<open>tunSetup/tun_route.go\<close>: the routes of a client that sends all its traffic through the tunnel,
  the state kept about them, and their removal. The mutex makes each operation one step.
\<close>

section \<open>State and addresses\<close>

record proxy_route =
  cp_active :: bool
  cp_serverIP :: string
  cp_origGateway :: string
  cp_origIfName :: string
  cp_origIfIndex :: string
  cp_tunIfName :: string
  cp_tunGateway :: string
  cp_dnsApplied :: bool

definition no_proxy_route :: proxy_route where
  "no_proxy_route =
     \<lparr>cp_active = False, cp_serverIP = [], cp_origGateway = [], cp_origIfName = [],
      cp_origIfIndex = [], cp_tunIfName = [], cp_tunGateway = [], cp_dnsApplied = False\<rparr>"

text \<open>\<^verbatim>\<open>strings.LastIndexByte\<close> and \<^verbatim>\<open>strings.IndexByte\<close>.\<close>

definition last_index :: "char \<Rightarrow> string \<Rightarrow> nat option" where
  "last_index c s =
     (if c \<in> set s then Some (length s - 1 - length (takeWhile (\<lambda>x. x \<noteq> c) (rev s))) else None)"

definition index_of :: "char \<Rightarrow> string \<Rightarrow> nat option" where
  "index_of c s = (if c \<in> set s then Some (length (takeWhile (\<lambda>x. x \<noteq> c) s)) else None)"

text \<open>\<^verbatim>\<open>net.SplitHostPort\<close>: the host, or \<open>None\<close> for any of its errors.\<close>

definition SplitHost :: "string \<Rightarrow> string option" where
  "SplitHost hp =
     (case last_index (CHR '':'') hp of
        None \<Rightarrow> None
      | Some i \<Rightarrow>
          if hp ! 0 = CHR ''['' then
            (case index_of (CHR '']'') hp of
               None \<Rightarrow> None
             | Some e \<Rightarrow>
                 if e + 1 \<noteq> i then None
                 else if CHR ''['' \<in> set (drop 1 hp) \<or> CHR '']'' \<in> set (drop (e + 1) hp) then None
                 else Some (drop 1 (take e hp)))
          else if CHR '':'' \<in> set (take i hp) then None
          else if CHR ''['' \<in> set hp \<or> CHR '']'' \<in> set hp then None
          else Some (take i hp))"

definition ResolveServerIPv4 :: "host_env \<Rightarrow> string \<Rightarrow> tun_error + string" where
  "ResolveServerIPv4 E serverAddr =
     (let host = (case SplitHost serverAddr of Some h \<Rightarrow> h | None \<Rightarrow> trim_space serverAddr)
      in case ParseIP host of
           Some ip \<Rightarrow>
             (case To4 ip of None \<Rightarrow> Inl (IPv6Server host) | Some q \<Rightarrow> Inr (v4_string q))
         | None \<Rightarrow>
             (case he_lookup E host of
                None \<Rightarrow> Inl LookupFailed
              | Some ips \<Rightarrow>
                  (case find (\<lambda>ip. To4 ip \<noteq> None) ips of
                     Some ip \<Rightarrow> Inr (v4_string (the (To4 ip)))
                   | None \<Rightarrow> Inl (NoIPv4Address host))))"

section \<open>Clean-up\<close>

definition if_ref :: "string \<Rightarrow> string \<Rightarrow> string" where
  "if_ref ifName ifIndex = (if ifIndex \<noteq> [] then ifIndex else ifName)"

definition CleanupClientProxyRoutingLocked ::
    "host_env \<Rightarrow> proxy_route \<Rightarrow> cmd_log \<Rightarrow> proxy_route \<times> cmd_log" where
  "CleanupClientProxyRoutingLocked E st log =
     (if \<not> cp_active st then (st, log)
      else
        let ref = if_ref (cp_origIfName st) (cp_origIfIndex st);
            (_, log1) = DeleteSplitDefaultRoutesFromTun E (cp_tunIfName st) (cp_tunGateway st) log;
            log2 = (if cp_dnsApplied st then snd (ResetInterfaceDNS E (cp_tunIfName st) log1) else log1);
            (_, log3) = AddDefaultRoute E ref (cp_origGateway st) log2;
            (_, log4) = DeleteHostRoute E (cp_serverIP st) (cp_origGateway st) ref log3
        in (no_proxy_route, log4))"

definition CleanupClientProxyRouting ::
    "host_env \<Rightarrow> proxy_route \<Rightarrow> cmd_log \<Rightarrow> proxy_route \<times> cmd_log" where
  "CleanupClientProxyRouting E st log = CleanupClientProxyRoutingLocked E st log"

section \<open>Set-up\<close>

text \<open>The steps that fail, in the error that is returned.\<close>

datatype setup_error =
    ResolveFailed tun_error | DefaultRouteFailed tun_error | HostRouteFailed tun_error
  | SplitRoutesFailed tun_error | DNSFailed tun_error

definition SetupClientProxyRouting ::
    "host_env \<Rightarrow> string \<Rightarrow> string \<Rightarrow> string \<Rightarrow> string list \<Rightarrow> proxy_route \<Rightarrow> cmd_log \<Rightarrow>
     setup_error option \<times> proxy_route \<times> cmd_log" where
  "SetupClientProxyRouting E serverAddr tunIfName tunGateway dns st0 log0 =
     (let (st, log) = (if cp_active st0 then CleanupClientProxyRoutingLocked E st0 log0
                       else (st0, log0))
      in case ResolveServerIPv4 E serverAddr of
           Inl e \<Rightarrow> (Some (ResolveFailed e), st, log)
         | Inr serverIP \<Rightarrow>
       (case GetDefaultRoute E log of
          (Inl e, log1) \<Rightarrow> (Some (DefaultRouteFailed e), st, log1)
        | (Inr orig, log1) \<Rightarrow>
            let ref = if_ref (dr_ifName orig) (dr_ifIndex orig)
            in case AddHostRoute E serverIP (dr_gateway orig) ref log1 of
                 (Some e, log2) \<Rightarrow> (Some (HostRouteFailed e), st, log2)
               | (None, log2) \<Rightarrow>
       (case AddSplitDefaultRoutesToTun E tunIfName tunGateway log2 of
          (Some e, log3) \<Rightarrow>
            (Some (SplitRoutesFailed e), st,
             snd (DeleteHostRoute E serverIP (dr_gateway orig) ref log3))
        | (None, log3) \<Rightarrow>
            let (err, log4) = (if length dns > 0 then SetInterfaceDNS E tunIfName dns log3
                               else (None, log3))
            in case err of
                 Some e \<Rightarrow>
                   (Some (DNSFailed e), st,
                    snd (DeleteHostRoute E serverIP (dr_gateway orig) ref
                      (snd (DeleteSplitDefaultRoutesFromTun E tunIfName tunGateway log4))))
               | None \<Rightarrow>
                   (None, \<lparr>cp_active = True, cp_serverIP = serverIP,
                      cp_origGateway = dr_gateway orig, cp_origIfName = dr_ifName orig,
                      cp_origIfIndex = dr_ifIndex orig, cp_tunIfName = tunIfName,
                      cp_tunGateway = tunGateway, cp_dnsApplied = (length dns > 0)\<rparr>, log4))))"

section \<open>Routes that are left\<close>

text \<open>
  Destinations for which the last route command of the log is a \<^verbatim>\<open>replace\<close> that succeeded; a \<^verbatim>\<open>del\<close>
  counts whether it succeeds or not, as it fails only when there is no such route.
\<close>

fun pending_cmd :: "string list \<times> bool \<Rightarrow> string set \<Rightarrow> string set" where
  "pending_cmd (p # r # a # dest # opts, ok) D =
     (if p = ''ip'' \<and> r = ''route'' \<and> a = ''replace'' then if ok then insert dest D else D
      else if p = ''ip'' \<and> r = ''route'' \<and> a = ''del'' then D - {dest} else D)"
| "pending_cmd _ D = D"

definition pending :: "cmd_log \<Rightarrow> string set" where
  "pending log = fold pending_cmd log {}"

lemma pending_snoc: "pending (log @ [c]) = pending_cmd c (pending log)"
  by (simp add: pending_def)

lemma pending_cmd_route [simp]:
  "pending_cmd (''ip'' # ''route'' # ''replace'' # d # opts, ok) D = (if ok then insert d D else D)"
  "pending_cmd (''ip'' # ''route'' # ''del'' # d # opts, ok) D = D - {d}"
  by simp_all

lemma pending_cmd_other: "p \<noteq> ''ip'' \<Longrightarrow> pending_cmd (p # xs, ok) D = D"
  by (cases "((p # xs, ok), D)" rule: pending_cmd.cases) auto

declare pending_cmd.simps(1) [simp del]

lemma exec_err_cases:
  obtains "exec_err E argv log = (None, log @ [(argv, True)])"
    "pending (snd (exec_err E argv log)) = pending_cmd (argv, True) (pending log)"
  | "exec_err E argv log = (Some CommandFailed, log @ [(argv, False)])"
    "pending (snd (exec_err E argv log)) = pending_cmd (argv, False) (pending log)"
  by (cases "he_run E log argv") (simp_all add: exec_err_def exec_cmd_def pending_snoc)

lemma pending_exec_err:
  "pending (snd (exec_err E argv log)) = pending_cmd (argv, he_run E log argv) (pending log)"
  by (simp add: exec_err_def exec_cmd_def Let_def pending_snoc)

lemma pending_DNS [simp]:
  "pending (snd (SetInterfaceDNS E i dns log)) = pending log"
  "pending (snd (ResetInterfaceDNS E i log)) = pending log"
proof -
  have d: "pending (snd (exec_err E (''resolvectl'' # xs) log)) = pending log" for xs log
    by (simp add: pending_exec_err pending_cmd_other)
  show "pending (snd (ResetInterfaceDNS E i log)) = pending log"
    by (simp add: ResetInterfaceDNS_def d)
  show "pending (snd (SetInterfaceDNS E i dns log)) = pending log"
    using d [of "[''dns'', i] @ dns" log] d [of "[''domain'', i, ''~.'']"]
    by (simp add: SetInterfaceDNS_def split: prod.split option.split) (metis snd_conv)
qed

lemma pending_DeleteHostRoute [simp]:
  "pending (snd (DeleteHostRoute E ip gw i log)) = pending log - {ip @ ''/32''}"
  by (simp add: DeleteHostRoute_def pending_exec_err)

lemma pending_DeleteSplit [simp]:
  "pending (snd (DeleteSplitDefaultRoutesFromTun E i gw log)) =
     pending log - {''0.0.0.0/1'', ''128.0.0.0/1''}"
  by (simp add: DeleteSplitDefaultRoutesFromTun_def Let_def case_prod_beta pending_exec_err) blast

lemma pending_AddHostRoute:
  "AddHostRoute E ip gw i log = (e, log') \<Longrightarrow>
     pending log' = (if e = None then insert (ip @ ''/32'') (pending log) else pending log)"
  unfolding AddHostRoute_def
  by (rule exec_err_cases [of E "[''ip'', ''route'', ''replace'', ip @ ''/32'', ''via'', gw, ''dev'', i]" log])
    auto

lemma pending_GetDefaultRoute: "GetDefaultRoute E log = (r, log') \<Longrightarrow> pending log' = pending log"
  by (auto simp: GetDefaultRoute_def exec_output_def Let_def pending_snoc pending_cmd_other)

text \<open>The command that adds one half of the default route.\<close>

definition half_cmd :: "string \<Rightarrow> string \<Rightarrow> string \<Rightarrow> string list" where
  "half_cmd dest gw i =
     [''ip'', ''route'', ''replace'', dest, ''via'', gw, ''dev'', i, ''metric'', ''1'']"

lemma pending_AddSplit:
  assumes "AddSplitDefaultRoutesToTun E i gw log = (e, log')"
  shows "pending log' =
    (if e = None then {''0.0.0.0/1'', ''128.0.0.0/1''} \<union> pending log
     else if (half_cmd ''0.0.0.0/1'' gw i, True) \<in> set (drop (length log) log')
       then insert ''0.0.0.0/1'' (pending log)
     else pending log)"
proof (rule exec_err_cases [of E "half_cmd ''0.0.0.0/1'' gw i" log])
  assume 1: "exec_err E (half_cmd ''0.0.0.0/1'' gw i) log =
      (None, log @ [(half_cmd ''0.0.0.0/1'' gw i, True)])"
  show ?thesis
    by (rule exec_err_cases [of E "half_cmd ''128.0.0.0/1'' gw i"
          "log @ [(half_cmd ''0.0.0.0/1'' gw i, True)]"])
      (use assms 1 in \<open>auto simp: AddSplitDefaultRoutesToTun_def half_cmd_def pending_snoc\<close>)
qed (use assms in \<open>auto simp: AddSplitDefaultRoutesToTun_def half_cmd_def pending_snoc\<close>)

section \<open>What set-up leaves\<close>

lemma last_not_half: "hostIP @ ''/32'' \<noteq> ''0.0.0.0/1''" "hostIP @ ''/32'' \<noteq> ''128.0.0.0/1''"
proof -
  have "last (hostIP @ ''/32'') = CHR ''2''" by simp
  then show "hostIP @ ''/32'' \<noteq> ''0.0.0.0/1''" "hostIP @ ''/32'' \<noteq> ''128.0.0.0/1''"
    by (auto simp del: last_appendR)
qed

text \<open>The run of a set-up that resolves the server and finds the default route.\<close>

lemma Setup_inactive:
  assumes "\<not> cp_active st" and "SetupClientProxyRouting E addr i gw dns st log = (res, st', log')"
  obtains (early) e where "res = Some e" "st' = st" "pending log' = pending log"
      "\<And>x. e \<noteq> SplitRoutesFailed x"
  | (split) e ip og ref log2 log3 where "res = Some (SplitRoutesFailed e)" "st' = st"
      "pending log2 = insert (ip @ ''/32'') (pending log)"
      "AddSplitDefaultRoutesToTun E i gw log2 = (Some e, log3)"
      "log' = snd (DeleteHostRoute E ip og ref log3)"
  | (dns) e where "res = Some (DNSFailed e)" "st' = st" "pending log' \<subseteq> pending log"
  | (set_up) ip where "res = None" "cp_active st'" "cp_serverIP st' = ip"
      "pending log' = {ip @ ''/32'', ''0.0.0.0/1'', ''128.0.0.0/1''} \<union> pending log"
proof -
  show thesis
  proof (cases "ResolveServerIPv4 E addr")
    case (Inl e)
    with assms show ?thesis by (intro early) (auto simp: SetupClientProxyRouting_def)
  next
    case ip: (Inr ip)
    obtain r log1 where g: "GetDefaultRoute E log = (r, log1)" by fastforce
    note p1 = pending_GetDefaultRoute [OF g]
    show ?thesis
    proof (cases r)
      case (Inl e)
      with assms ip g p1 show ?thesis by (intro early) (auto simp: SetupClientProxyRouting_def)
    next
      case orig: (Inr orig)
      let ?ref = "if_ref (dr_ifName orig) (dr_ifIndex orig)"
      obtain e2 log2 where a: "AddHostRoute E ip (dr_gateway orig) ?ref log1 = (e2, log2)" by fastforce
      note p2 = pending_AddHostRoute [OF a]
      obtain e3 log3 where s: "AddSplitDefaultRoutesToTun E i gw log2 = (e3, log3)" by fastforce
      note p3 = pending_AddSplit [OF s]
      obtain e4 log4 where d: "(if length dns > 0 then SetInterfaceDNS E i dns log3 else (None, log3))
          = (e4, log4)" by fastforce
      have p4: "pending log4 = pending log3"
        using arg_cong [OF d, of "\<lambda>x. pending (snd x)"] by (simp split: if_splits)
      consider x where "e2 = Some x" | x where "e2 = None" "e3 = Some x"
        | x where "e2 = None" "e3 = None" "e4 = Some x" | "e2 = None" "e3 = None" "e4 = None"
        by (cases e2; cases e3; cases e4) auto
      then show ?thesis
      proof cases
        case 1
        with assms ip g orig a p1 p2 show ?thesis
          by (intro early) (auto simp: SetupClientProxyRouting_def Let_def)
      next
        case 2
        with assms ip g orig a s p1 p2 show ?thesis
          by (intro split) (auto simp: SetupClientProxyRouting_def Let_def)
      next
        case 3
        with assms ip g orig a s d have "res = Some (DNSFailed x)" "st' = st"
          "log' = snd (DeleteHostRoute E ip (dr_gateway orig) ?ref
             (snd (DeleteSplitDefaultRoutesFromTun E i gw log4)))"
          by (auto simp: SetupClientProxyRouting_def Let_def)
        with 3 p1 p2 p3 p4 show ?thesis by (intro dns) auto
      next
        case 4
        with assms ip g orig a s d p1 p2 p3 p4 show ?thesis
          by (intro set_up) (auto simp: SetupClientProxyRouting_def Let_def)
      qed
    qed
  qed
qed

section \<open>Properties\<close>


text \<open>
  A failed set-up. When the set-up fails, nothing is recorded, so a later clean-up runs no
  command. No route is left behind except in one case: when adding the second half of the
  default route fails after the first half was added, the host route is taken back but the first
  half stays, and half of the addresses are routed into the tunnel without end.
\<close>

theorem proxy_setup_failure:
  assumes "SetupClientProxyRouting E addr i gw dns st log = (Some e, st', log')" and "\<not> cp_active st"
    and "''0.0.0.0/1'' \<notin> pending log"
  shows "st' = st \<and> CleanupClientProxyRouting E st' log' = (st', log') \<and>
    ((\<forall>x. e \<noteq> SplitRoutesFailed x) \<longrightarrow> pending log' \<subseteq> pending log) \<and>
    (\<forall>x. e = SplitRoutesFailed x \<longrightarrow>
      (\<exists>log2 rest. log' = log2 @ (half_cmd ''0.0.0.0/1'' gw i,
           he_run E log2 (half_cmd ''0.0.0.0/1'' gw i)) # rest \<and>
        (''0.0.0.0/1'' \<in> pending log' \<longleftrightarrow> he_run E log2 (half_cmd ''0.0.0.0/1'' gw i))) \<and>
        pending log' - {''0.0.0.0/1''} \<subseteq> pending log)"
  using assms(2,1)
proof (cases rule: Setup_inactive)
  case (early e')
  with assms(2) show ?thesis
    by (simp add: CleanupClientProxyRouting_def CleanupClientProxyRoutingLocked_def)
next
  case (split e' ip og ref log2 log3)
  let ?h = "he_run E log2 (half_cmd ''0.0.0.0/1'' gw i)"
  have h: "(half_cmd ''0.0.0.0/1'' gw i, True) \<in> set (drop (length log2) log3) \<longleftrightarrow> ?h"
    and x: "\<exists>rest. log3 = log2 @ (half_cmd ''0.0.0.0/1'' gw i, ?h) # rest"
    using split(4)
    by (auto simp: AddSplitDefaultRoutesToTun_def exec_err_def exec_cmd_def half_cmd_def Let_def
        split: if_splits)
  from x obtain rest where rest: "log3 = log2 @ (half_cmd ''0.0.0.0/1'' gw i, ?h) # rest" ..
  have "\<exists>c. log' = log3 @ [c]"
    by (simp add: split(5) DeleteHostRoute_def exec_err_def exec_cmd_def Let_def)
  with rest obtain rest' where l: "log' = log2 @ (half_cmd ''0.0.0.0/1'' gw i, ?h) # rest'" by auto
  have n: "''0.0.0.0/1'' \<notin> pending log2"
    using assms(3) split(3) last_not_half(1) [of ip] by auto
  have p: "pending log' = (if ?h then insert ''0.0.0.0/1'' (pending log2) else pending log2) -
      {ip @ ''/32''}"
    using pending_AddSplit [OF split(4)] h by (simp add: split(5))
  have "''0.0.0.0/1'' \<in> pending log' \<longleftrightarrow> ?h"
    using n last_not_half(1) [of ip] by (auto simp: p)
  moreover have "pending log' - {''0.0.0.0/1''} \<subseteq> pending log"
    by (auto simp: p split(3))
  ultimately show ?thesis
    using assms(2) split(1,2) l
    by (simp add: CleanupClientProxyRouting_def CleanupClientProxyRoutingLocked_def) blast
next
  case (dns e')
  with assms(2) show ?thesis
    by (simp add: CleanupClientProxyRouting_def CleanupClientProxyRoutingLocked_def)
qed simp_all

section \<open>A host\<close>

definition sample_host :: "(string list \<Rightarrow> bool) \<Rightarrow> host_env" where
  "sample_host ok =
     \<lparr>he_run = (\<lambda>log argv. ok argv),
      he_out = (\<lambda>log argv. ''default via 10.0.0.1 dev eth0''),
      he_lookpath = (\<lambda>p. False), he_lookup = (\<lambda>h. None)\<rparr>"

lemma fields_visible:
  assumes "visible c"
  shows "fields_from cur (c # s) = fields_from (cur @ [c]) s"
proof -
  have "find (\<lambda>r. r \<noteq> [] \<and> starts_with r (c # s)) space_runes = None"
    using not_starts_with_visible [OF assms] by (auto simp: find_None_iff)
  then show ?thesis by (simp add: fields_from.simps)
qed

lemma fields_blank:
  "fields_from cur (CHR '' '' # s) = (if cur = [] then [] else [cur]) @ fields_from [] s"
proof -
  have "find (\<lambda>r. r \<noteq> [] \<and> starts_with r (CHR '' '' # s)) space_runes = Some [32]"
    by (simp add: space_runes_def starts_with_def)
  then show ?thesis by (simp add: fields_from.simps)
qed

lemma sample_fields:
  "Fields ''default via 10.0.0.1 dev eth0'' = [''default'', ''via'', ''10.0.0.1'', ''dev'', ''eth0'']"
  by (simp add: Fields_def fields_visible fields_blank visible_def fields_from.simps(1))

lemma sample_line: "trim_space ''default via 10.0.0.1 dev eth0'' = ''default via 10.0.0.1 dev eth0''"
  by (rule trim_space_visible) (simp_all add: visible_def)

lemma sample_default_route:
  "ok [''sh'', ''-c'', ''ip route show default | head -n 1''] \<Longrightarrow>
   \<exists>log'. GetDefaultRoute (sample_host ok) log =
     (Inr \<lparr>dr_gateway = ''10.0.0.1'', dr_ifName = ''eth0'', dr_ifIndex = []\<rparr>, log')"
  by (simp add: GetDefaultRoute_def exec_output_def sample_host_def Let_def sample_line sample_fields)

lemma sample_resolve: "ResolveServerIPv4 E ''1.2.3.4:9999'' = Inr (v4_string [1, 2, 3, 4])"
  by (simp add: ResolveServerIPv4_def SplitHost_def last_index_def ParseIP_def parse_ipv4_def
      is_digit_def digit_val_def Let_def)

lemma sample_half_first: "half_cmd ''0.0.0.0/1'' g i \<noteq> half_cmd ''128.0.0.0/1'' g i"
  by (simp add: half_cmd_def)


lemma AddSplit_half:
  "AddSplitDefaultRoutesToTun E i gw log =
     (case exec_err E (half_cmd ''0.0.0.0/1'' gw i) log of
        (Some e, log1) \<Rightarrow> (Some e, log1)
      | (None, log1) \<Rightarrow> exec_err E (half_cmd ''128.0.0.0/1'' gw i) log1)"
  unfolding AddSplitDefaultRoutesToTun_def half_cmd_def by (rule refl)

theorem proxy_setup_failure_witness:
  "\<exists>E st' log'. SetupClientProxyRouting E ''1.2.3.4:9999'' ''tun0'' ''172.19.0.254'' []
       no_proxy_route [] = (Some (SplitRoutesFailed CommandFailed), st', log') \<and>
     CleanupClientProxyRouting E st' log' = (st', log') \<and> ''0.0.0.0/1'' \<in> pending log'"
proof -
  let ?bad = "half_cmd ''128.0.0.0/1'' ''172.19.0.254'' ''tun0''"
  let ?good = "half_cmd ''0.0.0.0/1'' ''172.19.0.254'' ''tun0''"
  let ?E = "sample_host (\<lambda>c. c \<noteq> ?bad)"
  have run: "exec_err ?E c log = (if c \<noteq> ?bad then None else Some CommandFailed, log @ [(c, c \<noteq> ?bad)])"
    for c log by (simp add: exec_err_def exec_cmd_def sample_host_def)
  obtain lg where g: "GetDefaultRoute ?E [] =
      (Inr \<lparr>dr_gateway = ''10.0.0.1'', dr_ifName = ''eth0'', dr_ifIndex = []\<rparr>, lg)"
    using sample_default_route [of "\<lambda>c. c \<noteq> ?bad" "[]"] by (auto simp: half_cmd_def)
  have host: "[''ip'', ''route'', ''replace'', d, ''via'', gw, ''dev'', f] \<noteq> ?bad" for d gw f
    by (simp add: half_cmd_def)
  obtain st' log' where s: "SetupClientProxyRouting ?E ''1.2.3.4:9999'' ''tun0'' ''172.19.0.254'' []
      no_proxy_route [] = (Some (SplitRoutesFailed CommandFailed), st', log')"
    using sample_half_first host
    by (simp add: SetupClientProxyRouting_def no_proxy_route_def sample_resolve g Let_def
        AddHostRoute_def AddSplit_half run)
  have i: "\<not> cp_active no_proxy_route" "''0.0.0.0/1'' \<notin> pending []"
    by (simp_all add: no_proxy_route_def pending_def)
  have h: "he_run ?E l ?good" for l using sample_half_first by (simp add: sample_host_def)
  from proxy_setup_failure [OF s i] h s show ?thesis by fast
qed

end
