(* ===== verification/Tun_Tunnel.thy ===== *)
theory Tun_Tunnel
  imports Frame
begin

text \<open>
  \<^verbatim>\<open>tunSetup/tun_tunnel.go\<close>: the two queues between the blocking TUN device and the rest of the
  program, with the turns of the two loops that serve them. A \<^verbatim>\<open>select\<close> with several ready cases takes
  any of them: the choice is an argument of the operation. What the device answers is an argument
  of the turn that asks it; \<open>None\<close> is an operation that waits.
\<close>

section \<open>State and operations\<close>

definition tunPacketQueueSize :: nat where "tunPacketQueueSize = 16 * 1024"

text \<open>
  \<open>tt_pending\<close>: what the last read of the device gave and \<^verbatim>\<open>readLoop\<close> has still to put into its queue;
  \<open>tt_rclosed\<close>, \<open>tt_writing\<close>: the read loop has ended and closed its queue, the write loop runs;
  \<open>tt_out\<close>: the batches the device took; \<open>tt_closes\<close>: how often the device was closed.
\<close>

record tunnel =
  tt_batch :: nat
  tt_rq :: "bytes list"
  tt_pending :: "(int \<times> bytes) list"
  tt_rclosed :: bool
  tt_wq :: "bytes list"
  tt_writing :: bool
  tt_done :: bool
  tt_out :: "bytes list list"
  tt_closes :: nat

definition NewTUNTunnel :: "int \<Rightarrow> tunnel" where
  "NewTUNTunnel batchSize =
     \<lparr>tt_batch = (if batchSize < 1 then 1 else nat batchSize), tt_rq = [], tt_pending = [],
      tt_rclosed = False, tt_wq = [], tt_writing = True, tt_done = False, tt_out = [],
      tt_closes = 0\<rparr>"

text \<open>\<open>pick\<close>: the \<^verbatim>\<open>select\<close> takes the closed tunnel when the queue has room as well.\<close>

definition tt_write :: "bool \<Rightarrow> bytes \<Rightarrow> tunnel \<Rightarrow> (bool \<times> tunnel) option" where
  "tt_write pick pkt t =
     (if pkt = [] then Some (True, t)
      else if tt_done t \<and> (pick \<or> length (tt_wq t) \<ge> tunPacketQueueSize) then Some (False, t)
      else if length (tt_wq t) < tunPacketQueueSize
      then Some (True, t\<lparr>tt_wq := tt_wq t @ [pkt]\<rparr>)
      else None)"

definition tt_close :: "tunnel \<Rightarrow> tunnel" where
  "tt_close t = (if tt_done t then t else t\<lparr>tt_done := True, tt_closes := tt_closes t + 1\<rparr>)"

text \<open>
  A turn of \<^verbatim>\<open>readLoop\<close> that reads: the device fails, or fills buffers and gives their sizes.
\<close>

definition read_turn :: "(int \<times> bytes) list option \<Rightarrow> tunnel \<Rightarrow> tunnel option" where
  "read_turn answer t =
     (if tt_rclosed t \<or> tt_pending t \<noteq> [] then None
      else if tt_done t then Some (t\<lparr>tt_rclosed := True\<rparr>)
      else (case answer of
          None \<Rightarrow> Some ((tt_close t)\<lparr>tt_rclosed := True\<rparr>)
        | Some got \<Rightarrow> Some (t\<lparr>tt_pending := got\<rparr>)))"

text \<open>A turn of \<^verbatim>\<open>readLoop\<close> that puts one packet into the queue.\<close>

definition put_turn :: "bool \<Rightarrow> tunnel \<Rightarrow> tunnel option" where
  "put_turn pick t =
     (case tt_pending t of
        [] \<Rightarrow> None
      | (sz, buf) # rest \<Rightarrow>
          if sz \<le> 0 \<or> sz > int (length buf) then Some (t\<lparr>tt_pending := rest\<rparr>)
          else if tt_done t \<and> (pick \<or> length (tt_rq t) \<ge> tunPacketQueueSize)
          then Some (t\<lparr>tt_pending := [], tt_rclosed := True\<rparr>)
          else if length (tt_rq t) < tunPacketQueueSize
          then Some (t\<lparr>tt_pending := rest, tt_rq := tt_rq t @ [take (nat sz) buf]\<rparr>)
          else None)"

text \<open>
  The inner loop of \<^verbatim>\<open>writeLoop\<close>: \<open>room\<close> packets more fit into the batch. \<open>None\<close>: the loop has ended and
  the batch is lost. \<open>pick k\<close>: the \<^verbatim>\<open>select\<close> before the packet with \<open>k\<close> packets behind it takes the
  closed tunnel.
\<close>

fun drain :: "bool \<Rightarrow> (nat \<Rightarrow> bool) \<Rightarrow> nat \<Rightarrow> bytes list \<Rightarrow> bytes list \<Rightarrow> bytes list option \<times> bytes list" where
  "drain closed pick room batch [] =
     (if room > 0 \<and> closed then (None, []) else (Some batch, []))"
| "drain closed pick room batch (pkt # q) =
     (if room = 0 then (Some batch, pkt # q)
      else if closed \<and> pick (length q) then (None, pkt # q)
      else if pkt = [] then drain closed pick room batch q
      else drain closed pick (room - 1) (batch @ [pkt]) q)"

definition write_turn :: "(nat \<Rightarrow> bool) \<Rightarrow> bool \<Rightarrow> tunnel \<Rightarrow> tunnel option" where
  "write_turn pick ok t =
     (if \<not> tt_writing t then None
      else (case tt_wq t of
          [] \<Rightarrow> if tt_done t then Some (t\<lparr>tt_writing := False\<rparr>) else None
        | pkt # q \<Rightarrow>
            if tt_done t \<and> pick (length q) then Some (t\<lparr>tt_writing := False\<rparr>)
            else if pkt = [] then Some (t\<lparr>tt_wq := q\<rparr>)
            else (case drain (tt_done t) pick (tt_batch t - 1) [pkt] q of
                (None, rest) \<Rightarrow> Some (t\<lparr>tt_wq := rest, tt_writing := False\<rparr>)
              | (Some batch, rest) \<Rightarrow>
                  if ok then Some (t\<lparr>tt_wq := rest, tt_out := tt_out t @ [batch]\<rparr>)
                  else Some ((tt_close t)\<lparr>tt_wq := rest, tt_writing := False\<rparr>))))"

text \<open>A turn of the reader of the queue: \<open>Inl\<close> when the queue is closed and empty.\<close>

definition tt_receive :: "tunnel \<Rightarrow> (unit + bytes \<times> tunnel) option" where
  "tt_receive t =
     (case tt_rq t of
        pkt # q \<Rightarrow> Some (Inr (pkt, t\<lparr>tt_rq := q\<rparr>))
      | [] \<Rightarrow> if tt_rclosed t then Some (Inl ()) else None)"

section \<open>Runs\<close>

text \<open>The turns of the two loops.\<close>

datatype tunnel_event =
    ReadTurn "(int \<times> bytes) list option"
  | PutTurn bool
  | WriteTurn "nat \<Rightarrow> bool" bool

fun tunnel_step :: "tunnel_event \<Rightarrow> tunnel \<Rightarrow> tunnel option" where
  "tunnel_step (ReadTurn answer) t = read_turn answer t"
| "tunnel_step (PutTurn pick) t = put_turn pick t"
| "tunnel_step (WriteTurn pick ok) t = write_turn pick ok t"

text \<open>The packets among what a read gives.\<close>

definition read_packets :: "(int \<times> bytes) list \<Rightarrow> bytes list" where
  "read_packets got =
     map (\<lambda>(sz, buf). take (nat sz) buf) (filter (\<lambda>(sz, buf). 0 < sz \<and> sz \<le> int (length buf)) got)"

fun step_reads :: "tunnel_event \<Rightarrow> tunnel \<Rightarrow> bytes list" where
  "step_reads (ReadTurn (Some got)) t = (if tt_done t then [] else read_packets got)"
| "step_reads ev t = []"

text \<open>
  \<open>tunnel_run t0 acc rd got t\<close>: from \<open>t0\<close>, writes that gave no error have handed over \<open>acc\<close>, the
  device has given the packets \<open>rd\<close>, and the reader has received \<open>got\<close>.
\<close>

inductive tunnel_run :: "tunnel \<Rightarrow> bytes list \<Rightarrow> bytes list \<Rightarrow> bytes list \<Rightarrow> tunnel \<Rightarrow> bool" for t0 where
  start: "tunnel_run t0 [] [] [] t0"
| hand: "\<lbrakk>tunnel_run t0 acc rd got t; tt_write pick pkt t = Some (ok, t')\<rbrakk> \<Longrightarrow>
    tunnel_run t0 (acc @ (if ok \<and> pkt \<noteq> [] then [pkt] else [])) rd got t'"
| receive: "\<lbrakk>tunnel_run t0 acc rd got t; tt_receive t = Some (Inr (pkt, t'))\<rbrakk> \<Longrightarrow>
    tunnel_run t0 acc rd (got @ [pkt]) t'"
| close: "tunnel_run t0 acc rd got t \<Longrightarrow> tunnel_run t0 acc rd got (tt_close t)"
| step: "\<lbrakk>tunnel_run t0 acc rd got t; tunnel_step ev t = Some t'\<rbrakk> \<Longrightarrow>
    tunnel_run t0 acc (rd @ step_reads ev t) got t'"

section \<open>The invariant\<close>

lemma drain_parts:
  "drain closed pick room batch q = (r, rest) \<Longrightarrow> [] \<notin> set q \<Longrightarrow>
   \<exists>taken. q = taken @ rest \<and> length taken \<le> room \<and>
     (case r of Some b \<Rightarrow> b = batch @ taken | None \<Rightarrow> closed)"
proof (induction closed pick room batch q rule: drain.induct)
  case (1 closed pick room batch)
  then show ?case by (auto split: if_splits)
next
  case (2 closed pick room batch pkt q)
  show ?case
  proof (cases "room = 0 \<or> closed \<and> pick (length q)")
    case True
    with 2(3) show ?thesis by (intro exI [of _ "[]"]) (auto split: if_splits)
  next
    case False
    with 2(3,4) have "drain closed pick (room - 1) (batch @ [pkt]) q = (r, rest)" "pkt \<noteq> []" "[] \<notin> set q"
      by auto
    from 2(2) [OF _ _ this(2,1,3)] False obtain taken where "q = taken @ rest"
      "length taken \<le> room - 1"
      "case r of Some b \<Rightarrow> b = (batch @ [pkt]) @ taken | None \<Rightarrow> closed"
      by auto
    with False show ?thesis by (intro exI [of _ "pkt # taken"]) (auto split: option.splits)
  qed
qed

text \<open>
  Everything handed over is, in order, in the batches of the device or still in the queue, as long
  as the write loop runs; when it has ended, a part between the two may be lost.
\<close>

definition tunnel_ok :: "bytes list \<Rightarrow> tunnel \<Rightarrow> bool" where
  "tunnel_ok acc t \<longleftrightarrow>
     (\<exists>lost. acc = concat (tt_out t) @ lost @ tt_wq t \<and> (tt_writing t \<longrightarrow> lost = []) \<and>
        length lost \<le> tt_batch t) \<and>
     [] \<notin> set (tt_wq t) \<and> (\<forall>b\<in>set (tt_out t). 0 < length b \<and> length b \<le> tt_batch t) \<and>
     0 < tt_batch t \<and> (\<not> tt_writing t \<longrightarrow> tt_done t) \<and>
     tt_closes t = (if tt_done t then 1 else 0)"

lemma tunnel_ok_new: "tunnel_ok [] (NewTUNTunnel b)"
  by (simp add: tunnel_ok_def NewTUNTunnel_def)

lemma tunnel_ok_close: "tunnel_ok acc t \<Longrightarrow> tunnel_ok acc (tt_close t)"
  by (auto simp: tunnel_ok_def tt_close_def)

lemma tunnel_okI:
  assumes "acc = concat (tt_out t) @ lost @ tt_wq t" "tt_writing t \<Longrightarrow> lost = []"
    "length lost \<le> tt_batch t" "[] \<notin> set (tt_wq t)"
    "\<forall>b\<in>set (tt_out t). 0 < length b \<and> length b \<le> tt_batch t" "0 < tt_batch t"
    "\<not> tt_writing t \<Longrightarrow> tt_done t" "tt_closes t = (if tt_done t then 1 else 0)"
  shows "tunnel_ok acc t"
  using assms unfolding tunnel_ok_def by blast

lemma tunnel_okD:
  assumes "tunnel_ok acc t"
  shows "[] \<notin> set (tt_wq t)" "\<forall>b\<in>set (tt_out t). 0 < length b \<and> length b \<le> tt_batch t"
    "0 < tt_batch t" "tt_closes t = (if tt_done t then 1 else 0)"
    "tt_writing t \<Longrightarrow> acc = concat (tt_out t) @ tt_wq t"
  using assms unfolding tunnel_ok_def by auto

lemma tunnel_ok_write:
  assumes "tunnel_ok acc t" and "tt_write pick pkt t = Some (ok, t')"
  shows "tunnel_ok (acc @ (if ok \<and> pkt \<noteq> [] then [pkt] else [])) t'"
proof -
  have "tunnel_ok (acc @ [pkt]) (t\<lparr>tt_wq := tt_wq t @ [pkt]\<rparr>)" if "pkt \<noteq> []"
  proof -
    from assms(1) obtain lost where "acc = concat (tt_out t) @ lost @ tt_wq t"
      "tt_writing t \<longrightarrow> lost = []" "length lost \<le> tt_batch t"
      unfolding tunnel_ok_def by blast
    with that assms(1) show ?thesis
      by (intro tunnel_okI [of _ _ lost]) (simp_all add: tunnel_ok_def)
  qed
  with assms show ?thesis by (auto simp: tt_write_def split: if_splits)
qed

lemma tunnel_ok_stop: "tunnel_ok acc t \<Longrightarrow> tt_done t \<Longrightarrow> tunnel_ok acc (t\<lparr>tt_writing := False\<rparr>)"
  by (auto simp: tunnel_ok_def)

lemma tt_close_simps [simp]:
  "tt_out (tt_close t) = tt_out t" "tt_wq (tt_close t) = tt_wq t" "tt_batch (tt_close t) = tt_batch t"
  "tt_done (tt_close t)" "tt_writing (tt_close t) = tt_writing t" "tt_rq (tt_close t) = tt_rq t"
  "tt_rclosed (tt_close t) = tt_rclosed t"
  by (simp_all add: tt_close_def)

lemma write_turn_ok:
  assumes ok: "tunnel_ok acc t" and w: "write_turn pick good t = Some t'"
  shows "tunnel_ok acc t'"
proof (cases "tt_wq t")
  case Nil
  with w have "t' = t\<lparr>tt_writing := False\<rparr>" "tt_done t" by (auto simp: write_turn_def split: if_splits)
  with tunnel_ok_stop [OF ok] show ?thesis by simp
next
  case (Cons pkt q)
  note D = tunnel_okD [OF ok]
  from w have wr: "tt_writing t" by (auto simp: write_turn_def split: if_splits)
  from D(5) [OF wr] D(1) Cons have acc: "acc = concat (tt_out t) @ pkt # q"
    and ne: "pkt \<noteq> []" "[] \<notin> set q" by auto
  show ?thesis
  proof (cases "tt_done t \<and> pick (length q)")
    case True
    with w wr Cons have "t' = t\<lparr>tt_writing := False\<rparr>" by (simp add: write_turn_def)
    with tunnel_ok_stop [OF ok] True show ?thesis by simp
  next
    case False
    obtain r rest where d: "drain (tt_done t) pick (tt_batch t - 1) [pkt] q = (r, rest)" by fastforce
    from drain_parts [OF d ne(2)] obtain taken where q: "q = taken @ rest"
      "length taken \<le> tt_batch t - 1" "case r of Some bt \<Rightarrow> bt = [pkt] @ taken | None \<Rightarrow> tt_done t"
      by blast
    from q(2) D(3) have len: "length (pkt # taken) \<le> tt_batch t" by simp
    have rest: "[] \<notin> set rest" using ne q(1) by simp
    show ?thesis
    proof (cases r)
      case None
      with w wr Cons False ne d have t': "t' = t\<lparr>tt_wq := rest, tt_writing := False\<rparr>"
        by (simp add: write_turn_def)
      show ?thesis
        using acc q None len rest D(2-4) unfolding t'
        by (intro tunnel_okI [of _ _ "pkt # taken"]) simp_all
    next
      case (Some bt)
      with q have bt: "bt = pkt # taken" by simp
      from w wr Cons False ne d Some have t': "t' = (if good then t\<lparr>tt_wq := rest, tt_out := tt_out t @ [bt]\<rparr>
          else (tt_close t)\<lparr>tt_wq := rest, tt_writing := False\<rparr>)"
        by (auto simp: write_turn_def split: if_splits)
      show ?thesis
      proof (cases good)
        case True
        have "tt_done t" if "\<not> tt_writing t" using that wr by simp
        with True t' acc q(1) bt len rest D(2-4) show ?thesis
          by (intro tunnel_okI [of _ _ "[]"]) auto
      next
        case False
        with t' acc q(1) len rest D(2-4) show ?thesis
          by (intro tunnel_okI [of _ _ "pkt # taken"]) (auto simp: tt_close_def)
      qed
    qed
  qed
qed

lemma tunnel_ok_cong:
  assumes "tt_out t' = tt_out t" "tt_wq t' = tt_wq t" "tt_batch t' = tt_batch t"
    "tt_writing t' = tt_writing t" "tt_done t' = tt_done t" "tt_closes t' = tt_closes t"
  shows "tunnel_ok acc t' = tunnel_ok acc t"
  unfolding tunnel_ok_def assms ..

lemma read_turn_ok:
  assumes "tunnel_ok acc t" and "read_turn answer t = Some t'"
  shows "tunnel_ok acc t'"
proof -
  have "tunnel_ok acc (u\<lparr>tt_rclosed := b\<rparr>) = tunnel_ok acc u" "tunnel_ok acc (u\<lparr>tt_pending := p\<rparr>) = tunnel_ok acc u"
    for u b p by (rule tunnel_ok_cong; simp)+
  with assms tunnel_ok_close [OF assms(1)] show ?thesis
    by (auto simp: read_turn_def split: if_splits option.splits)
qed

lemma put_turn_ok:
  assumes "tunnel_ok acc t" and "put_turn pick t = Some t'"
  shows "tunnel_ok acc t'"
proof -
  have "tunnel_ok acc (t\<lparr>tt_pending := p\<rparr>) = tunnel_ok acc t"
    "tunnel_ok acc (t\<lparr>tt_pending := p, tt_rclosed := b\<rparr>) = tunnel_ok acc t"
    "tunnel_ok acc (t\<lparr>tt_pending := p, tt_rq := r\<rparr>) = tunnel_ok acc t"
    for b p r by (rule tunnel_ok_cong; simp)+
  with assms show ?thesis by (auto simp: put_turn_def split: if_splits list.splits)
qed

lemma tunnel_ok_step: "tunnel_ok acc t \<Longrightarrow> tunnel_step ev t = Some t' \<Longrightarrow> tunnel_ok acc t'"
  by (cases ev) (auto intro: write_turn_ok read_turn_ok put_turn_ok)

lemma tunnel_ok_receive:
  assumes "tunnel_ok acc t" and "tt_receive t = Some (Inr (pkt, t'))"
  shows "tunnel_ok acc t'"
proof -
  have "tunnel_ok acc (t\<lparr>tt_rq := r\<rparr>) = tunnel_ok acc t" for r by (rule tunnel_ok_cong; simp)
  with assms show ?thesis by (auto simp: tt_receive_def split: list.splits if_splits)
qed

lemma tunnel_run_ok: "tunnel_run (NewTUNTunnel b) acc rd got t \<Longrightarrow> tunnel_ok acc t"
  by (induction rule: tunnel_run.induct)
    (auto intro: tunnel_ok_new tunnel_ok_close tunnel_ok_receive tunnel_ok_step dest: tunnel_ok_write
      simp del: tunnel_step.simps)

text \<open>The reading side.\<close>

definition reads_ok :: "bytes list \<Rightarrow> bytes list \<Rightarrow> tunnel \<Rightarrow> bool" where
  "reads_ok rd got t \<longleftrightarrow>
     (\<exists>lost. rd = got @ tt_rq t @ lost \<and> (\<not> tt_rclosed t \<longrightarrow> lost = read_packets (tt_pending t))) \<and>
     (tt_rclosed t \<longrightarrow> tt_pending t = [] \<and> tt_done t) \<and> length (tt_rq t) \<le> tunPacketQueueSize"

lemma reads_ok_cong:
  assumes "tt_rq t' = tt_rq t" "tt_pending t' = tt_pending t" "tt_rclosed t' = tt_rclosed t"
    "tt_done t \<Longrightarrow> tt_done t'"
  shows "reads_ok rd got t \<Longrightarrow> reads_ok rd got t'"
  using assms(4) unfolding reads_ok_def assms(1-3) by blast

lemma tt_close_pending [simp]: "tt_pending (tt_close t) = tt_pending t"
  by (simp add: tt_close_def)

lemma reads_ok_write_turn:
  "reads_ok rd got t \<Longrightarrow> write_turn pick good t = Some t' \<Longrightarrow> reads_ok rd got t'"
  by (rule reads_ok_cong [of t' t])
    (auto simp: write_turn_def split: if_splits list.splits prod.splits option.splits)

lemma read_packets_simps [simp]:
  "read_packets [] = []"
  "read_packets ((sz, buf) # r) =
     (if sz \<le> 0 \<or> sz > int (length buf) then read_packets r else take (nat sz) buf # read_packets r)"
  by (auto simp: read_packets_def)

lemma reads_ok_put_turn:
  assumes "reads_ok rd got t" and "put_turn pick t = Some t'"
  shows "reads_ok rd got t'"
proof -
  from assms(2) obtain sz buf rest where p: "tt_pending t = (sz, buf) # rest"
    by (auto simp: put_turn_def split: list.splits)
  with assms show ?thesis
    by (auto simp: reads_ok_def put_turn_def split: if_splits)
qed

lemma reads_ok_read_turn:
  assumes "reads_ok rd got t" and "read_turn answer t = Some t'"
  shows "reads_ok (rd @ step_reads (ReadTurn answer) t) got t'"
proof -
  from assms(2) have p: "\<not> tt_rclosed t" "tt_pending t = []" by (auto simp: read_turn_def split: if_splits)
  with assms(1) have rd: "rd = got @ tt_rq t" "length (tt_rq t) \<le> tunPacketQueueSize"
    by (auto simp: reads_ok_def)
  with p assms(2) show ?thesis
    by (cases answer) (auto simp: reads_ok_def read_turn_def split: if_splits)
qed

lemma tunnel_reads_ok: "tunnel_run (NewTUNTunnel b) acc rd got t \<Longrightarrow> reads_ok rd got t"
proof (induction rule: tunnel_run.induct)
  case start
  then show ?case by (simp add: reads_ok_def NewTUNTunnel_def)
next
  case (hand acc rd got t pick pkt ok t')
  then show ?case
    by (auto simp: tt_write_def split: if_splits elim!: reads_ok_cong [rotated -1])
next
  case (receive acc rd got t pkt t')
  then show ?case by (auto simp: reads_ok_def tt_receive_def split: list.splits if_splits)
next
  case (close acc rd got t)
  then show ?case by (auto intro: reads_ok_cong [of "tt_close t" t])
next
  case (step acc rd got t ev t')
  then show ?case
    by (cases ev) (auto dest: reads_ok_read_turn reads_ok_put_turn reads_ok_write_turn
        simp del: step_reads.simps(1) simp: step_reads.simps(2,3))
qed

section \<open>Properties\<close>

text \<open>
  C25: The queues lose nothing and keep the order. Whatever the scheduler and the device do: the
  packets handed over are, in order, in the batches the device took followed by the queue, and
  those the device gave are, in order, what the reader received followed by its queue and what is
  still to be put; only when a loop has ended is something between lost, of the writing side at most
  one batch. No batch is empty or above the size of the device, a loop ends only when the tunnel
  is closed, and the device is closed at most once.
\<close>

theorem tunnel_keeps_order:
  assumes "tunnel_run (NewTUNTunnel b) acc rd got t"
  shows "\<exists>lost left. acc = concat (tt_out t) @ lost @ tt_wq t \<and> rd = got @ tt_rq t @ left \<and>
    (if tt_writing t then lost = [] else tt_done t \<and> length lost \<le> tt_batch t) \<and>
    (if tt_rclosed t then tt_done t else left = read_packets (tt_pending t)) \<and>
    (\<forall>bt\<in>set (tt_out t). bt \<noteq> [] \<and> length bt \<le> tt_batch t) \<and>
    tt_closes t = (if tt_done t then 1 else 0)"
proof -
  note w = tunnel_run_ok [OF assms] and r = tunnel_reads_ok [OF assms]
  from w obtain lost where l: "acc = concat (tt_out t) @ lost @ tt_wq t"
    "tt_writing t \<longrightarrow> lost = []" "length lost \<le> tt_batch t" "\<not> tt_writing t \<longrightarrow> tt_done t"
    unfolding tunnel_ok_def by blast
  from r obtain left where f: "rd = got @ tt_rq t @ left"
    "\<not> tt_rclosed t \<longrightarrow> left = read_packets (tt_pending t)" "tt_rclosed t \<longrightarrow> tt_done t"
    unfolding reads_ok_def by blast
  from tunnel_okD(2) [OF w] have "\<forall>bt\<in>set (tt_out t). bt \<noteq> [] \<and> length bt \<le> tt_batch t" by simp
  with l f tunnel_okD(4) [OF w] show ?thesis
    by (intro exI [of _ lost] exI [of _ left] conjI) simp_all
qed

theorem tunnel_keeps_order_witness:
  "\<exists>t lost. tunnel_run (NewTUNTunnel 2) [[1], [2], [3]] [] [] t \<and> tt_wq t = [[3]] \<and>
     [[1], [2], [3::byte]] = concat (tt_out t) @ lost @ tt_wq t \<and> lost = []"
proof -
  let ?n = "NewTUNTunnel 2"
  let ?q = "\<lambda>q. ?n\<lparr>tt_wq := q\<rparr>"
  have w: "tt_write False p (?q q) = Some (True, ?q (q @ [p]))" if "length q < 3" "p \<noteq> []" for p q
    using that by (simp add: tt_write_def NewTUNTunnel_def tunPacketQueueSize_def)
  have h: "tunnel_run ?n (acc @ [p]) [] [] (?q (q @ [p]))"
    if "tunnel_run ?n acc [] [] (?q q)" "length q < 3" "p \<noteq> []" for acc p q
    using tunnel_run.hand [OF that(1) w [OF that(2,3)]] that(3) by simp
  have "tunnel_run ?n [] [] [] (?q [])" using tunnel_run.start [of ?n] by (simp add: NewTUNTunnel_def)
  from h [OF h [OF h [OF this, of "[1]"], of "[2]"], of "[3]"]
  have r: "tunnel_run ?n [[1], [2], [3]] [] [] (?q [[1], [2], [3]])" by simp
  define t where "t = ?n\<lparr>tt_wq := [[3]], tt_out := [[[1], [2]]]\<rparr>"
  have st: "tunnel_step (WriteTurn (\<lambda>_. False) True) (?q [[1], [2], [3]]) = Some t"
    by (simp add: write_turn_def NewTUNTunnel_def t_def)
  from tunnel_run.step [OF r st] have run: "tunnel_run ?n [[1], [2], [3]] [] [] t" by simp
  have "tt_writing t" "tt_wq t = [[3]]" by (simp_all add: t_def NewTUNTunnel_def)
  with tunnel_keeps_order [OF run] run show ?thesis by auto
qed

end
