(* ===== verification/Replay.thy ===== *)
theory Replay
  imports Prelude
begin

text \<open>
  \<^verbatim>\<open>tcpx/replay.go\<close>: the 64-bit sliding window that rejects repeated sequence numbers, the
  interface it offers to the encrypted connection, and its abstract meaning as the set of all
  sequence numbers accepted so far.
\<close>

section \<open>The interface\<close>

fun accept_run :: "('w \<Rightarrow> 'n \<Rightarrow> bool \<times> 'w) \<Rightarrow> 'w \<Rightarrow> 'n list \<Rightarrow> 'n list \<times> 'w" where
  "accept_run acc w [] = ([], w)"
| "accept_run acc w (n # ns) =
     (case acc w n of
        (True, w') \<Rightarrow> (case accept_run acc w' ns of (ms, w'') \<Rightarrow> (n # ms, w''))
      | (False, w') \<Rightarrow> accept_run acc w' ns)"

text \<open>\<open>tracks w S\<close>: the filter in state \<open>w\<close> has accepted exactly the numbers in \<open>S\<close>.\<close>

locale replay_filter =
  fixes acc :: "'w \<Rightarrow> 'n \<Rightarrow> bool \<times> 'w"
    and tracks :: "'w \<Rightarrow> 'n set \<Rightarrow> bool"
  assumes acc_True: "\<lbrakk>tracks w S; acc w n = (True, w')\<rbrakk> \<Longrightarrow> n \<notin> S \<and> tracks w' (insert n S)"
    and acc_False: "\<lbrakk>tracks w S; acc w n = (False, w')\<rbrakk> \<Longrightarrow> tracks w' S"
begin

lemma run_distinct:
  assumes "tracks w S" and "accept_run acc w ns = (ms, w')"
  shows "distinct ms \<and> set ms \<inter> S = {} \<and> set ms \<subseteq> set ns \<and> tracks w' (S \<union> set ms)"
  using assms
proof (induction ns arbitrary: w S ms)
  case Nil
  then show ?case by simp
next
  case (Cons n ns)
  obtain b w1 where a: "acc w n = (b, w1)" by fastforce
  show ?case
  proof (cases b)
    case True
    with a have "acc w n = (True, w1)" by simp
    from acc_True [OF Cons.prems(1) this] have n: "n \<notin> S" "tracks w1 (insert n S)" by simp_all
    from a True Cons.prems(2) obtain ms1 where
      ms1: "accept_run acc w1 ns = (ms1, w')" "ms = n # ms1"
      by (auto split: prod.splits)
    from Cons.IH [OF n(2) ms1(1)] n(1) ms1(2) show ?thesis by auto
  next
    case False
    with a have "acc w n = (False, w1)" by simp
    with acc_False [OF Cons.prems(1) this] Cons.prems(2)
    have "tracks w1 S" "accept_run acc w1 ns = (ms, w')" by simp_all
    from Cons.IH [OF this] show ?thesis by auto
  qed
qed

end

text \<open>A filter that also never drops a number above all it has accepted.\<close>

locale live_replay_filter = replay_filter acc tracks
  for acc :: "'w \<Rightarrow> 'n::{linorder, zero} \<Rightarrow> bool \<times> 'w" and tracks +
  assumes acc_newer: "\<lbrakk>tracks w S; \<forall>m\<in>S. m < n; 0 < n\<rbrakk> \<Longrightarrow> fst (acc w n)"
begin

lemma run_increasing:
  assumes "tracks w S" and "sorted_wrt (<) ns" and "\<forall>n\<in>set ns. 0 < n \<and> (\<forall>m\<in>S. m < n)"
  shows "fst (accept_run acc w ns) = ns"
  using assms
proof (induction ns arbitrary: w S)
  case Nil
  then show ?case by simp
next
  case (Cons n ns)
  then have "fst (acc w n)" using acc_newer [of w S n] by simp
  then obtain w1 where a: "acc w n = (True, w1)" by (cases "acc w n") auto
  with Cons.prems(1) acc_True have "tracks w1 (insert n S)" by blast
  from Cons.IH [OF this] Cons.prems(2,3) have "fst (accept_run acc w1 ns) = ns" by auto
  with a show ?case by (cases "accept_run acc w1 ns") simp
qed

end

section \<open>The window\<close>

record replay_window =
  maxSeq :: "64 word"
  bits :: "64 word"
  wsize :: "64 word"

definition newReplayWindow :: "64 word \<Rightarrow> replay_window" where
  "newReplayWindow sz =
     \<lparr>maxSeq = 0, bits = 0, wsize = (if sz = 0 \<or> sz > 64 then 64 else sz)\<rparr>"

definition accept :: "replay_window \<Rightarrow> 64 word \<Rightarrow> bool \<times> replay_window" where
  "accept w seq =
     (if seq = 0 then (False, w)
      else if maxSeq w = 0 then (True, w\<lparr>maxSeq := seq, bits := 1\<rparr>)
      else if seq > maxSeq w then
        let diff = seq - maxSeq w
        in (True, w\<lparr>bits := (if diff \<ge> wsize w then 1
                             else push_bit (unat diff) (bits w) OR 1),
                    maxSeq := seq\<rparr>)
      else
        let diff = maxSeq w - seq
        in if diff \<ge> wsize w then (False, w)
           else let mask = push_bit (unat diff) 1
                in if bits w AND mask \<noteq> 0 then (False, w)
                   else (True, w\<lparr>bits := bits w OR mask\<rparr>))"

section \<open>Its meaning\<close>

text \<open>
  \<open>replay_tracks w S\<close>: the largest number of \<open>S\<close> is \<open>maxSeq\<close>, and bit \<open>i\<close> of the bitmap, for
  \<open>i\<close> below the window size, says whether \<open>maxSeq - i\<close> is in \<open>S\<close>. Bits at or above the size
  may be stale; the code never reads them.
\<close>

definition replay_tracks :: "replay_window \<Rightarrow> 64 word set \<Rightarrow> bool" where
  "replay_tracks w S \<longleftrightarrow>
     0 < wsize w \<and> wsize w \<le> 64 \<and> 0 \<notin> S \<and>
     (if S = {} then maxSeq w = 0 else maxSeq w \<in> S) \<and> (\<forall>s\<in>S. s \<le> maxSeq w) \<and>
     (\<forall>i < unat (wsize w). i \<le> unat (maxSeq w) \<longrightarrow> S \<noteq> {} \<longrightarrow>
        bit (bits w) i \<longleftrightarrow> maxSeq w - of_nat i \<in> S)"

text \<open>What the window should accept: a new number that is not too old.\<close>

definition acceptable :: "64 word \<Rightarrow> 64 word set \<Rightarrow> 64 word \<Rightarrow> bool" where
  "acceptable sz S seq \<longleftrightarrow>
     seq \<noteq> 0 \<and> seq \<notin> S \<and> (\<forall>m\<in>S. m < seq \<or> m - seq < sz)"

lemma tracks_new: "replay_tracks (newReplayWindow sz) {}"
proof -
  have "sz = 0 \<or> sz > 64 \<or> (0 < sz \<and> sz \<le> 64)" by (auto simp: word_gt_0 not_less)
  then show ?thesis by (auto simp: replay_tracks_def newReplayWindow_def)
qed

lemma unat_minus_nat:
  fixes s :: "64 word"
  assumes "i \<le> unat s"
  shows "unat (s - of_nat i) = unat s - i"
proof -
  have "i < 2 ^ LENGTH(64)" using assms unsigned_less [of s, where ?'a = nat] by simp
  then have i: "unat (of_nat i :: 64 word) = i" by (simp add: unsigned_of_nat take_bit_nat_eq_self)
  with assms have "of_nat i \<le> s" by (simp add: word_le_nat_alt)
  then show ?thesis by (simp add: unat_sub i)
qed

lemma word_diff_unat:
  fixes s t :: "64 word"
  shows "s \<le> t \<Longrightarrow> unat (t - s) = unat t - unat s"
  by (simp add: unat_sub)

lemma and_mask_eq_0: "a AND 2 ^ n = 0 \<longleftrightarrow> \<not> bit a n" for a :: "64 word"
  by (simp add: bit_iff_and_push_bit_not_eq_0)

lemma tracks_max:
  assumes "replay_tracks w S" and "S \<noteq> {}"
  shows "maxSeq w \<in> S" and "maxSeq w \<noteq> 0" and "s \<in> S \<Longrightarrow> s \<le> maxSeq w"
  using assms by (auto simp: replay_tracks_def)

lemma tracks_bit:
  assumes t: "replay_tracks w S" and "S \<noteq> {}" and s: "s \<le> maxSeq w" "maxSeq w - s < wsize w"
  shows "bit (bits w) (unat (maxSeq w - s)) \<longleftrightarrow> s \<in> S"
proof -
  have "unat (maxSeq w - s) < unat (wsize w)" using s by (simp add: word_less_nat_alt)
  moreover have "unat (maxSeq w - s) \<le> unat (maxSeq w)" using s by (simp add: word_diff_unat)
  ultimately show ?thesis using t \<open>S \<noteq> {}\<close> by (simp add: replay_tracks_def)
qed

lemma accept_acceptable:
  assumes t: "replay_tracks w S"
  shows "fst (accept w seq) \<longleftrightarrow> acceptable (wsize w) S seq"
proof (cases "seq = 0 \<or> S = {}")
  case True
  with t show ?thesis by (auto simp: accept_def acceptable_def replay_tracks_def)
next
  case False
  note mx = tracks_max [OF t]
  show ?thesis
  proof (cases "maxSeq w < seq")
    case True
    with False mx have "acceptable (wsize w) S seq" by (force simp: acceptable_def)
    with True False mx show ?thesis by (simp add: accept_def Let_def)
  next
    case le: False
    have old: "m - seq < wsize w"
      if "maxSeq w - seq < wsize w" "m \<in> S" "\<not> m < seq" for m
      using that mx(3) [of m] False le
      by (simp add: word_less_nat_alt word_le_nat_alt word_diff_unat not_less)
    show ?thesis
    proof (cases "wsize w \<le> maxSeq w - seq")
      case True
      with False le mx have "\<not> acceptable (wsize w) S seq"
        by (auto simp: acceptable_def not_less)
      with True le False mx show ?thesis by (simp add: accept_def Let_def)
    next
      case False
      then have lt: "maxSeq w - seq < wsize w" "\<not> wsize w \<le> maxSeq w - seq" by simp_all
      with tracks_bit [OF t, of seq] \<open>\<not> (seq = 0 \<or> S = {})\<close> le
      have bit: "bit (bits w) (unat (maxSeq w - seq)) \<longleftrightarrow> seq \<in> S" by (simp add: not_less)
      have "fst (accept w seq) \<longleftrightarrow> seq \<notin> S"
        using \<open>\<not> (seq = 0 \<or> S = {})\<close> le lt(2) mx(2) bit
        by (simp add: accept_def Let_def and_mask_eq_0)
      moreover have "\<forall>m\<in>S. m < seq \<or> m - seq < wsize w" using old lt(1) by blast
      ultimately show ?thesis
        using \<open>\<not> (seq = 0 \<or> S = {})\<close> by (auto simp: acceptable_def)
    qed
  qed
qed

text \<open>Preservation, one lemma for each way the code accepts.\<close>

lemma tracksI:
  assumes "0 < wsize w" "wsize w \<le> 64" "0 \<notin> S" "maxSeq w \<in> S" "\<And>s. s \<in> S \<Longrightarrow> s \<le> maxSeq w"
    and "\<And>s. \<lbrakk>s \<le> maxSeq w; maxSeq w - s < wsize w\<rbrakk> \<Longrightarrow>
           bit (bits w) (unat (maxSeq w - s)) \<longleftrightarrow> s \<in> S"
  shows "replay_tracks w S"
proof -
  have "bit (bits w) i \<longleftrightarrow> maxSeq w - of_nat i \<in> S"
    if i: "i < unat (wsize w)" "i \<le> unat (maxSeq w)" for i
  proof -
    have "i < 2 ^ LENGTH(64)" using i(2) unsigned_less [of "maxSeq w", where ?'a = nat] by simp
    then have u: "unat (of_nat i :: 64 word) = i"
      by (simp add: unsigned_of_nat take_bit_nat_eq_self)
    let ?s = "maxSeq w - of_nat i"
    have "maxSeq w - ?s = of_nat i" by simp
    moreover have "?s \<le> maxSeq w" using unat_minus_nat [OF i(2)] by (simp add: word_le_nat_alt)
    ultimately show ?thesis using assms(6) [of ?s] i(1) u by (simp add: word_less_nat_alt)
  qed
  then show ?thesis using assms(1-5) by (auto simp: replay_tracks_def)
qed

lemma tracks_size:
  assumes "replay_tracks w S"
  shows "0 < wsize w" "wsize w \<le> 64" "0 \<notin> S" "s \<in> S \<Longrightarrow> s \<le> maxSeq w"
  using assms by (auto simp: replay_tracks_def)

lemma bit_one_iff: "bit (1 :: 64 word) n \<longleftrightarrow> n = 0"
  by (simp add: bit_simps)

lemma tracks_first:
  assumes t: "replay_tracks w {}" and "seq \<noteq> 0"
  shows "replay_tracks (w\<lparr>maxSeq := seq, bits := 1\<rparr>) {seq}"
  using assms tracks_size [OF t]
  by (intro tracksI) (auto simp: bit_one_iff unat_eq_0)

lemma tracks_newer:
  assumes t: "replay_tracks w S" and ne: "S \<noteq> {}" and lt: "maxSeq w < seq"
    and b: "b = (if wsize w \<le> seq - maxSeq w then 1
                 else push_bit (unat (seq - maxSeq w)) (bits w) OR 1)"
  shows "replay_tracks (w\<lparr>bits := b, maxSeq := seq\<rparr>) (insert seq S)"
proof (rule tracksI; simp)
  show "0 < wsize w" "wsize w \<le> 64" using tracks_size [OF t] by simp_all
  show "seq \<noteq> 0 \<and> 0 \<notin> S" using tracks_size [OF t] lt by auto
  show "s \<le> seq" if "s = seq \<or> s \<in> S" for s using that tracks_size(4) [OF t, of s] lt by auto
next
  fix s
  assume s: "s \<le> seq" "seq - s < wsize w"
  let ?n = "unat (seq - s)" and ?d = "unat (seq - maxSeq w)"
  have nd: "?n = unat seq - unat s" "?d = unat seq - unat (maxSeq w)"
    using s(1) lt by (simp_all add: word_diff_unat)
  have n64: "?n < 64"
    using s(2) tracks_size(2) [OF t] by (simp add: word_less_nat_alt word_le_nat_alt)
  have new: "s \<notin> S" if "maxSeq w < s" using tracks_size(4) [OF t, of s] that by auto
  have old: "bit (bits w) (unat (maxSeq w - s)) \<longleftrightarrow> s \<in> S" if "s \<le> maxSeq w"
  proof (rule tracks_bit [OF t ne that])
    show "maxSeq w - s < wsize w"
      using s that lt by (simp add: word_less_nat_alt word_le_nat_alt word_diff_unat)
  qed
  have eq: "s = seq \<longleftrightarrow> ?n = 0"
    using s(1) by (auto simp: nd word_le_nat_alt word_unat_eq_iff)
  show "bit b ?n \<longleftrightarrow> s = seq \<or> s \<in> S"
  proof (cases "s \<le> maxSeq w")
    case True
    then have le: "?d \<le> ?n" and sub: "?n - ?d = unat (maxSeq w - s)"
      using lt by (simp_all add: nd word_le_nat_alt word_less_nat_alt word_diff_unat)
    have "\<not> wsize w \<le> seq - maxSeq w"
      using le s(2) by (simp add: word_le_nat_alt word_less_nat_alt)
    with True le n64 show ?thesis by (auto simp: b bit_simps sub old eq)
  next
    case False
    then have "?n < ?d" using s(1) by (simp add: nd word_le_nat_alt)
    with False new show ?thesis by (auto simp: b bit_simps bit_one_iff eq not_le)
  qed
qed

lemma tracks_older:
  assumes t: "replay_tracks w S" and ne: "S \<noteq> {}" and le: "seq \<le> maxSeq w" and "seq \<noteq> 0"
    and lt: "maxSeq w - seq < wsize w"
  shows "replay_tracks (w\<lparr>bits := bits w OR push_bit (unat (maxSeq w - seq)) 1\<rparr>) (insert seq S)"
proof (rule tracksI; simp)
  show "0 < wsize w" "wsize w \<le> 64" using tracks_size [OF t] by simp_all
  show "seq \<noteq> 0 \<and> 0 \<notin> S" using tracks_size [OF t] \<open>seq \<noteq> 0\<close> by simp
  show "maxSeq w = seq \<or> maxSeq w \<in> S" using tracks_max(1) [OF t ne] by simp
  show "s \<le> maxSeq w" if "s = seq \<or> s \<in> S" for s using that tracks_size(4) [OF t, of s] le by auto
next
  fix s
  assume s: "s \<le> maxSeq w" "maxSeq w - s < wsize w"
  have "unat (maxSeq w - s) = unat (maxSeq w - seq) \<longleftrightarrow> s = seq"
    using s(1) le by (auto simp: word_diff_unat word_le_nat_alt word_unat_eq_iff)
  moreover have "unat (maxSeq w - s) < 64"
    using s(2) tracks_size(2) [OF t] by (simp add: word_less_nat_alt word_le_nat_alt)
  ultimately show "bit (bits w OR 2 ^ unat (maxSeq w - seq)) (unat (maxSeq w - s)) \<longleftrightarrow>
      s = seq \<or> s \<in> S"
    using tracks_bit [OF t ne s] by (auto simp: bit_simps)
qed

lemma accept_tracks_True:
  assumes t: "replay_tracks w S" and a: "accept w seq = (True, w')"
  shows "replay_tracks w' (insert seq S)"
proof (cases "S = {}")
  case True
  with t have "maxSeq w = 0" by (simp add: replay_tracks_def)
  with a True tracks_first [of w seq] t show ?thesis
    by (auto simp: accept_def split: if_splits)
next
  case False
  note mx = tracks_max(2) [OF t False]
  show ?thesis
  proof (cases "maxSeq w < seq")
    case True
    with a mx tracks_newer [OF t False True refl] show ?thesis
      by (auto simp: accept_def Let_def split: if_splits)
  next
    case le: False
    with a mx tracks_older [OF t False, of seq] show ?thesis
      by (auto simp: accept_def Let_def not_less not_le split: if_splits)
  qed
qed

lemma accept_False: "accept w seq = (False, w') \<Longrightarrow> w' = w"
  by (auto simp: accept_def Let_def split: if_splits)

lemma accept_newer:
  assumes "replay_tracks w S" "\<forall>m\<in>S. m < n" "0 < n"
  shows "fst (accept w n)"
  using assms by (auto simp: accept_acceptable acceptable_def)

interpretation window: live_replay_filter accept replay_tracks
proof (unfold_locales, goal_cases)
  case (1 w S n w')
  then show ?case using accept_acceptable [OF 1(1), of n] accept_tracks_True [OF 1]
    by (simp add: acceptable_def)
next
  case (2 w S n w')
  then show ?case by (auto dest: accept_False)
next
  case (3 w S n)
  then show ?case by (rule accept_newer)
qed

lemma accept_wsize [simp, frame_rules]: "wsize (snd (accept w n)) = wsize w"
  by (simp add: accept_def Let_def)

section \<open>Properties\<close>

text \<open>
  No sequence number passes the window twice. Over any sequence of calls of \<open>accept\<close> on a
  new window of any configured size, the numbers for which it returned true are all different,
  and zero is not among them.
\<close>

theorem accept_never_repeats:
  "distinct (fst (accept_run accept (newReplayWindow sz) ns)) \<and>
   0 \<notin> set (fst (accept_run accept (newReplayWindow sz) ns))"
proof -
  obtain ms w where r: "accept_run accept (newReplayWindow sz) ns = (ms, w)" by fastforce
  from window.run_distinct [OF tracks_new r] r show ?thesis by (auto dest: tracks_size(3))
qed

text \<open>
  C24: What the window accepts. In a state that has accepted the set \<open>S\<close>, a number passes exactly
  when it is not zero, not in \<open>S\<close>, and less than the window size below every number of \<open>S\<close>;
  the state then stands for \<open>S\<close> with the number added, and for \<open>S\<close> when the number is refused.
\<close>

theorem accept_refines_set:
  assumes "replay_tracks w S"
  shows "fst (accept w seq) = acceptable (wsize w) S seq \<and>
    replay_tracks (snd (accept w seq))
      (if acceptable (wsize w) S seq then insert seq S else S)"
  using accept_acceptable [OF assms, of seq] accept_tracks_True [OF assms, of seq]
    accept_False [of w seq] assms
  by (cases "accept w seq") auto

theorem accept_refines_set_witness:
  "fst (accept (newReplayWindow 0) 7) = acceptable 64 {} 7 \<and> acceptable 64 {} 7"
  using accept_refines_set [OF tracks_new [of 0], of 7]
  by (simp add: newReplayWindow_def acceptable_def)

text \<open>
  In-order numbers are never dropped. Sequence numbers that arrive in increasing order,
  starting above zero, all pass a new window.
\<close>

theorem accept_in_order:
  assumes "sorted_wrt (<) ns" and "\<forall>n\<in>set ns. 0 < n"
  shows "fst (accept_run accept (newReplayWindow sz) ns) = ns"
  using assms by (intro window.run_increasing [OF tracks_new]) auto

theorem accept_in_order_witness:
  "fst (accept_run accept (newReplayWindow 8) [1, 2, 5, 900]) = [1, 2, 5, 900]"
  using accept_in_order [of "[1, 2, 5, 900]" 8] by simp

end
