(* ===== verification/Secure_Conn.thy ===== *)
theory Secure_Conn
  imports Frame Replay Hkdf
begin

text \<open>
  \<^verbatim>\<open>tcpx/secure_conn.go\<close>: the encrypted connection. Every call of \<^verbatim>\<open>time.Now\<close> and
  \<^verbatim>\<open>rand.Read\<close> takes its value from an oracle in the state: the clock readings in order, and
  the bytes the system's generator still supplies.
\<close>

section \<open>State\<close>

record key_state =
  ks_id :: "32 word"
  ks_key :: bytes
  ks_created :: int
  ks_expires :: int
  ks_seq :: "64 word"
  ks_replay :: replay_window

record secure_conn =
  sc_conn :: net_conn
  sc_cfg :: base_config
  sendKey :: key_state
  recvKey :: "key_state option"
  oldRecv :: "key_state option"
  closed :: bool
  sc_clock :: "nat \<Rightarrow> int"
  sc_ticks :: nat
  sc_entropy :: bytes

definition time_now :: "secure_conn \<Rightarrow> int \<times> secure_conn" where
  "time_now s = (sc_clock s (sc_ticks s), s\<lparr>sc_ticks := Suc (sc_ticks s)\<rparr>)"

definition rand_read :: "nat \<Rightarrow> secure_conn \<Rightarrow> bytes option \<times> secure_conn" where
  "rand_read n s =
     (if n \<le> length (sc_entropy s)
      then (Some (take n (sc_entropy s)), s\<lparr>sc_entropy := drop n (sc_entropy s)\<rparr>)
      else (None, s))"

definition zero_replay :: replay_window where
  "zero_replay = \<lparr>maxSeq = 0, bits = 0, wsize = 0\<rparr>"

definition newSecureConn ::
    "net_conn \<Rightarrow> base_config \<Rightarrow> bytes \<Rightarrow> bytes \<Rightarrow> (nat \<Rightarrow> int) \<Rightarrow> nat \<Rightarrow> bytes \<Rightarrow> secure_conn" where
  "newSecureConn conn cfg sk rk clk ticks ent =
     (let now = clk ticks in
      \<lparr>sc_conn = conn, sc_cfg = cfg,
       sendKey = \<lparr>ks_id = 1, ks_key = sk, ks_created = now, ks_expires = 0, ks_seq = 0,
                  ks_replay = zero_replay\<rparr>,
       recvKey = Some \<lparr>ks_id = 1, ks_key = rk, ks_created = now, ks_expires = 0, ks_seq = 0,
                       ks_replay = newReplayWindow (replaySize cfg)\<rparr>,
       oldRecv = None, closed = False,
       sc_clock = clk, sc_ticks = Suc ticks, sc_entropy = ent\<rparr>)"

definition scClose :: "secure_conn \<Rightarrow> tcp_error option \<times> secure_conn" where
  "scClose s = (case net_close (sc_conn s) of
     (e, c) \<Rightarrow> (e, s\<lparr>closed := True, sc_conn := c\<rparr>))"

section \<open>Keys, nonces and additional data\<close>

definition newAEAD :: "bytes \<Rightarrow> tcp_error + bytes" where
  "newAEAD key = (if length key \<in> {16, 24, 32} then Inr key else Inl ErrKeySize)"

definition seqNonce :: "64 word \<Rightarrow> bytes" where
  "seqNonce seq = replicate 4 0 @ put_u64 seq"

definition encryptedAAD :: "base_config \<Rightarrow> 32 word \<Rightarrow> 64 word \<Rightarrow> bytes" where
  "encryptedAAD cfg keyID seq =
     put_u32 (magic cfg) @ put_u16 (version cfg) @ [frameEncrypted] @ put_u32 keyID @ put_u64 seq"

definition deriveRotatedKey :: "crypto \<Rightarrow> bytes \<Rightarrow> bytes \<Rightarrow> bytes" where
  "deriveRotatedKey C oldKey salt = hkdfKey C oldKey salt (str_bytes ''tcpx rotate key v1'')"

section \<open>Writing\<close>

definition encryptAndWrite ::
    "crypto \<Rightarrow> byte \<Rightarrow> bytes \<Rightarrow> secure_conn \<Rightarrow> tcp_error option \<times> secure_conn" where
  "encryptAndWrite C innerType payload s =
     (if closed s then (Some ErrClosed, s)
      else
        let seq = ks_seq (sendKey s) + 1;
            s1 = s\<lparr>sendKey := (sendKey s)\<lparr>ks_seq := seq\<rparr>\<rparr>;
            keyID = ks_id (sendKey s1)
        in case newAEAD (ks_key (sendKey s1)) of
             Inl e \<Rightarrow> (Some e, s1)
           | Inr key \<Rightarrow>
               let cipherText =
                     seal C key (seqNonce seq) (innerType # payload)
                       (encryptedAAD (sc_cfg s) keyID seq)
               in case writeFrame (sc_cfg s) frameEncrypted
                         (put_u32 keyID @ put_u64 seq @ cipherText) (sc_conn s1) of
                    (e, c) \<Rightarrow> (e, s1\<lparr>sc_conn := c\<rparr>))"

definition rotateSendKeyIfNeeded ::
    "crypto \<Rightarrow> secure_conn \<Rightarrow> tcp_error option \<times> secure_conn" where
  "rotateSendKeyIfNeeded C s =
     (if keyRotateInterval (sc_cfg s) \<le> 0 then (None, s)
      else case time_now s of (now, s1) \<Rightarrow>
        if now - ks_created (sendKey s1) < keyRotateInterval (sc_cfg s1) then (None, s1)
        else case rand_read 32 s1 of
               (None, s2) \<Rightarrow> (Some ErrRand, s2)
             | (Some salt, s2) \<Rightarrow>
                 (case encryptAndWrite C innerKeyUpdate salt s2 of
                    (Some e, s3) \<Rightarrow> (Some e, s3)
                  | (None, s3) \<Rightarrow>
                      (case time_now s3 of (created, s4) \<Rightarrow>
                         (None, s4\<lparr>sendKey :=
                            \<lparr>ks_id = ks_id (sendKey s4) + 1,
                             ks_key = deriveRotatedKey C (ks_key (sendKey s4)) salt,
                             ks_created = created, ks_expires = 0, ks_seq = 0,
                             ks_replay = zero_replay\<rparr>\<rparr>))))"

definition writeInner ::
    "crypto \<Rightarrow> byte \<Rightarrow> bytes \<Rightarrow> secure_conn \<Rightarrow> tcp_error option \<times> secure_conn" where
  "writeInner C innerType payload s =
     (case rotateSendKeyIfNeeded C s of
        (Some e, s1) \<Rightarrow> (Some e, s1)
      | (None, s1) \<Rightarrow> encryptAndWrite C innerType payload s1)"

definition scWrite :: "crypto \<Rightarrow> bytes \<Rightarrow> secure_conn \<Rightarrow> tcp_error option \<times> secure_conn" where
  "scWrite C payload s = writeInner C innerData payload s"

definition sendPing :: "crypto \<Rightarrow> secure_conn \<Rightarrow> tcp_error option \<times> secure_conn" where
  "sendPing C s = writeInner C innerPing [] s"

definition sendPong :: "crypto \<Rightarrow> secure_conn \<Rightarrow> tcp_error option \<times> secure_conn" where
  "sendPong C s = writeInner C innerPong [] s"

section \<open>Reading\<close>

text \<open>
  \<open>lookupRecvKey\<close> reads the clock before it looks at the keys; the copy it returns carries only
  the number and the key.
\<close>

definition lookupRecvKey ::
    "32 word \<Rightarrow> secure_conn \<Rightarrow> (tcp_error + bytes) \<times> secure_conn" where
  "lookupRecvKey keyID s =
     (case time_now s of (now, s1) \<Rightarrow>
        (case (recvKey s1, oldRecv s1) of
           (rk, old) \<Rightarrow>
             if (case rk of None \<Rightarrow> False | Some k \<Rightarrow> ks_id k = keyID)
               then (Inr (ks_key (the rk)), s1)
             else if (case old of None \<Rightarrow> False | Some k \<Rightarrow> ks_id k = keyID \<and> now < ks_expires k)
               then (Inr (ks_key (the old)), s1)
             else (Inl (ErrBadFrameKey keyID), s1)))"

text \<open>
  The second half of \<^verbatim>\<open>markReplayOK\<close>: the clock is read only when the previous key has the
  number looked for.
\<close>

definition markOldOK :: "32 word \<Rightarrow> 64 word \<Rightarrow> secure_conn \<Rightarrow> bool \<times> secure_conn" where
  "markOldOK keyID seq s =
     (case oldRecv s of
        None \<Rightarrow> (False, s)
      | Some k \<Rightarrow>
          if ks_id k = keyID then
            (case time_now s of (now, s1) \<Rightarrow>
               if now < ks_expires k then
                 (case accept (ks_replay k) seq of
                    (ok, w) \<Rightarrow> (ok, s1\<lparr>oldRecv := Some (k\<lparr>ks_replay := w\<rparr>)\<rparr>))
               else (False, s1))
          else (False, s))"

definition markReplayOK :: "32 word \<Rightarrow> 64 word \<Rightarrow> secure_conn \<Rightarrow> bool \<times> secure_conn" where
  "markReplayOK keyID seq s =
     (case recvKey s of
        Some k \<Rightarrow>
          if ks_id k = keyID then
            (case accept (ks_replay k) seq of
               (ok, w) \<Rightarrow> (ok, s\<lparr>recvKey := Some (k\<lparr>ks_replay := w\<rparr>)\<rparr>))
          else markOldOK keyID seq s
      | None \<Rightarrow> markOldOK keyID seq s)"

definition installRecvKey ::
    "crypto \<Rightarrow> 32 word \<Rightarrow> bytes \<Rightarrow> secure_conn \<Rightarrow> tcp_error option \<times> secure_conn" where
  "installRecvKey C fromKeyID salt s =
     (case recvKey s of
        None \<Rightarrow> (Some (ErrBadFrameUpdate fromKeyID), s)
      | Some old \<Rightarrow>
          if ks_id old \<noteq> fromKeyID then (Some (ErrBadFrameUpdate fromKeyID), s)
          else (case time_now s of (now, s1) \<Rightarrow>
            (None, s1\<lparr>oldRecv := Some (old\<lparr>ks_expires := now + oldKeyGrace (sc_cfg s1)\<rparr>),
                      recvKey := Some
                        \<lparr>ks_id = fromKeyID + 1,
                         ks_key = deriveRotatedKey C (ks_key old) salt,
                         ks_created = now, ks_expires = 0, ks_seq = 0,
                         ks_replay = newReplayWindow (replaySize (sc_cfg s1))\<rparr>\<rparr>)))"

text \<open>
  One turn of the loop of \<^verbatim>\<open>readInner\<close>: \<open>Inr None\<close> is \<^verbatim>\<open>continue\<close> after a key update,
  \<open>Inr (Some (t, p))\<close> the return of an inner message.
\<close>

definition open_record ::
    "crypto \<Rightarrow> frame \<Rightarrow> secure_conn \<Rightarrow> (tcp_error + (byte \<times> bytes) option) \<times> secure_conn" where
  "open_record C fr s =
     (if fr_type fr = frameClose then (Inl ErrClosed, s)
      else if fr_type fr \<noteq> frameEncrypted \<or> length (fr_payload fr) < 12 then (Inl ErrBadFrame, s)
      else
        let keyID = get_u32 (gslice 0 4 (fr_payload fr));
            seq = get_u64 (gslice 4 12 (fr_payload fr));
            cipherText = drop 12 (fr_payload fr)
        in case lookupRecvKey keyID s of
             (Inl e, s1) \<Rightarrow> (Inl e, s1)
           | (Inr key, s1) \<Rightarrow>
               (case newAEAD key of
                  Inl e \<Rightarrow> (Inl e, s1)
                | Inr k \<Rightarrow>
                    (case aopen C k (seqNonce seq) cipherText
                            (encryptedAAD (sc_cfg s1) keyID seq) of
                       None \<Rightarrow> (Inl ErrOpen, s1)
                     | Some [] \<Rightarrow> (Inl ErrBadFrame, s1)
                     | Some (innerType # payload) \<Rightarrow>
                         (case markReplayOK keyID seq s1 of
                            (False, s2) \<Rightarrow> (Inl ErrReplay, s2)
                          | (True, s2) \<Rightarrow>
                              if innerType = innerKeyUpdate then
                                if length payload \<noteq> 32 then (Inl ErrBadFrame, s2)
                                else (case installRecvKey C keyID payload s2 of
                                        (Some e, s3) \<Rightarrow> (Inl e, s3)
                                      | (None, s3) \<Rightarrow> (Inr None, s3))
                              else (Inr (Some (innerType, payload)), s2)))))"

definition read_step ::
    "crypto \<Rightarrow> secure_conn \<Rightarrow> (tcp_error + (byte \<times> bytes) option) \<times> secure_conn" where
  "read_step C s =
     (case readFrame (sc_cfg s) (sc_conn s) of
        (Inl e, c) \<Rightarrow> (Inl e, s\<lparr>sc_conn := c\<rparr>)
      | (Inr fr, c) \<Rightarrow> open_record C fr (s\<lparr>sc_conn := c\<rparr>))"

text \<open>Reading leaves the stream alone apart from the frame it takes: the loops terminate.\<close>

lemma lookupRecvKey_state [frame_rules]:
  "lookupRecvKey i s = (r, s') \<Longrightarrow> s' = s\<lparr>sc_ticks := Suc (sc_ticks s)\<rparr>"
  by (auto simp: time_now_def lookupRecvKey_def split: if_splits option.splits)

definition same_writer :: "secure_conn \<Rightarrow> secure_conn \<Rightarrow> bool" where
  "same_writer s s' \<longleftrightarrow>
     sc_conn s' = sc_conn s \<and> sc_cfg s' = sc_cfg s \<and> sendKey s' = sendKey s \<and>
     closed s' = closed s \<and> sc_clock s' = sc_clock s \<and> sc_entropy s' = sc_entropy s"

lemma same_writer_refl [simp]: "same_writer s s"
  by (simp add: same_writer_def)

lemma same_writer_trans: "same_writer s t \<Longrightarrow> same_writer t u \<Longrightarrow> same_writer s u"
  by (simp add: same_writer_def)

lemma lookup_same: "lookupRecvKey i s = (r, s') \<Longrightarrow> same_writer s s'"
  by (auto dest!: lookupRecvKey_state simp: same_writer_def)

lemma mark_same: "markReplayOK i q s = (b, s') \<Longrightarrow> same_writer s s'"
  by (auto simp: time_now_def markReplayOK_def markOldOK_def same_writer_def
      split: option.splits prod.splits if_splits)

lemma install_same: "installRecvKey C i x s = (e, s') \<Longrightarrow> same_writer s s'"
  by (auto simp: time_now_def installRecvKey_def same_writer_def split: option.splits if_splits)

lemma open_record_same: "open_record C fr s = (r, s') \<Longrightarrow> same_writer s s'"
  by (auto simp: open_record_def Let_def
      split: if_splits prod.splits sum.splits option.splits list.splits bool.splits
      dest!: lookup_same mark_same install_same intro: same_writer_trans)

lemma readFrame_shrinks:
  assumes "readFrame cfg c = (Inr f, c')"
  shows "length (incoming c') + headerSize \<le> length (incoming c)"
  using readFrame_SomeD [OF assms] by (auto simp: open_with_def)

lemma read_step_shrinks:
  assumes "read_step C s = (Inr m, s')"
  shows "length (incoming (sc_conn s')) < length (incoming (sc_conn s))"
proof -
  from assms obtain fr c where r: "readFrame (sc_cfg s) (sc_conn s) = (Inr fr, c)"
    and o: "open_record C fr (s\<lparr>sc_conn := c\<rparr>) = (Inr m, s')"
    by (auto simp: read_step_def split: prod.splits sum.splits)
  from open_record_same [OF o] have "sc_conn s' = c" by (simp add: same_writer_def)
  with readFrame_shrinks [OF r] show ?thesis by (simp add: headerSize_def)
qed

function readInner ::
    "crypto \<Rightarrow> secure_conn \<Rightarrow> (tcp_error + byte \<times> bytes) \<times> secure_conn" where
  "readInner C s =
     (case read_step C s of
        (Inl e, s') \<Rightarrow> (Inl e, s')
      | (Inr (Some m), s') \<Rightarrow> (Inr m, s')
      | (Inr None, s') \<Rightarrow> readInner C s')"
  by pat_completeness auto
termination
  by (relation "measure (\<lambda>(C, s). length (incoming (sc_conn s)))") (auto dest: read_step_shrinks [OF sym])

declare readInner.simps [simp del]

lemma readInner_shrinks:
  "readInner C s = (Inr m, s') \<Longrightarrow>
   length (incoming (sc_conn s')) < length (incoming (sc_conn s))"
proof (induction C s rule: readInner.induct)
  case (1 C s)
  obtain r s1 where r: "read_step C s = (r, s1)" by fastforce
  show ?case
  proof (cases "r = Inr None")
    case True
    with r "1.prems" have "readInner C s1 = (Inr m, s')" by (simp add: readInner.simps [of C s])
    with "1.IH" [OF r [symmetric]] True read_step_shrinks [of C s None s1] r show ?thesis by auto
  next
    case False
    with r "1.prems" show ?thesis
      by (auto simp: readInner.simps [of C s] split: sum.splits option.splits
          dest: read_step_shrinks)
  qed
qed

text \<open>Writing leaves the reading half alone.\<close>

definition same_reader :: "secure_conn \<Rightarrow> secure_conn \<Rightarrow> bool" where
  "same_reader s s' \<longleftrightarrow>
     incoming (sc_conn s') = incoming (sc_conn s) \<and> rd_err (sc_conn s') = rd_err (sc_conn s) \<and>
     shut (sc_conn s') = shut (sc_conn s) \<and> sc_cfg s' = sc_cfg s \<and> recvKey s' = recvKey s \<and>
     oldRecv s' = oldRecv s \<and> closed s' = closed s \<and> sc_clock s' = sc_clock s"

lemma same_reader_refl [simp]: "same_reader s s"
  by (simp add: same_reader_def)

lemma same_reader_trans: "same_reader s t \<Longrightarrow> same_reader t u \<Longrightarrow> same_reader s u"
  by (simp add: same_reader_def)

lemma net_write_same:
  assumes "net_write b c = (e, c')"
  shows "incoming c' = incoming c" "rd_err c' = rd_err c" "shut c' = shut c"
    "rd_deadline c' = rd_deadline c"
  using assms by (auto simp: net_write_def split: if_splits)

lemma writeFrame_same:
  assumes "writeFrame cfg t p c = (e, c')"
  shows "incoming c' = incoming c" "rd_err c' = rd_err c" "shut c' = shut c"
  using assms by (auto simp: writeFrame_def dest: net_write_same split: if_splits)

lemma encryptAndWrite_same: "encryptAndWrite C t p s = (e, s') \<Longrightarrow> same_reader s s'"
  by (auto simp: encryptAndWrite_def Let_def same_reader_def split: if_splits sum.splits prod.splits
      dest: writeFrame_same)

lemma time_now_same: "time_now s = (x, s') \<Longrightarrow> same_reader s s'"
  by (auto simp: time_now_def same_reader_def)

lemma rand_read_same: "rand_read n s = (x, s') \<Longrightarrow> same_reader s s'"
  by (auto simp: rand_read_def same_reader_def split: if_splits)

lemma rotate_same: "rotateSendKeyIfNeeded C s = (e, s') \<Longrightarrow> same_reader s s'"
  by (auto simp: rotateSendKeyIfNeeded_def split: if_splits prod.splits option.splits
      dest!: time_now_same rand_read_same encryptAndWrite_same) (auto simp: same_reader_def)

lemma writeInner_same: "writeInner C t p s = (e, s') \<Longrightarrow> same_reader s s'"
  by (auto simp: writeInner_def split: prod.splits option.splits
      dest!: rotate_same encryptAndWrite_same intro: same_reader_trans)

function scRead :: "crypto \<Rightarrow> secure_conn \<Rightarrow> (tcp_error + bytes) \<times> secure_conn" where
  "scRead C s =
     (case readInner C s of
        (Inl e, s') \<Rightarrow> (Inl e, s')
      | (Inr (innerType, payload), s') \<Rightarrow>
          if innerType = innerData then (Inr payload, s')
          else if innerType = innerPing then scRead C (snd (sendPong C s'))
          else if innerType = innerPong then scRead C s'
          else if innerType = innerKeyUpdate then scRead C s'
          else (Inl ErrBadFrame, s'))"
  by pat_completeness auto
termination
proof (relation "measure (\<lambda>(C, s). length (incoming (sc_conn s)))", goal_cases)
  case 1
  then show ?case by simp
next
  case (2 C s x s' y t p)
  obtain e s'' where w: "sendPong C s' = (e, s'')" by fastforce
  then have "incoming (sc_conn s'') = incoming (sc_conn s')"
    using writeInner_same [of C innerPong "[]" s'] by (simp add: sendPong_def same_reader_def)
  with 2 w readInner_shrinks [of C s "(t, p)" s'] show ?case by simp
next
  case (3 C s x s' y t p)
  with readInner_shrinks [of C s "(t, p)" s'] show ?case by simp
next
  case (4 C s x s' y t p)
  with readInner_shrinks [of C s "(t, p)" s'] show ?case by simp
qed

declare scRead.simps [simp del]

end
