(* ===== verification/Secure_Channel.thy ===== *)
theory Secure_Channel
  imports Secure_Conn
begin

text \<open>
  What two ends of an encrypted connection guarantee together: the records one end writes are
  read by the other in order and unchanged, across key rotations and heartbeats, and no record
  is ever accepted twice.
\<close>

section \<open>Synchronised ends\<close>

text \<open>
  \<open>in_sync a b\<close>: the receiving half of \<open>b\<close> is ready for the next record of the sending half of
  \<open>a\<close>: same header constants, same key and key number, and no accepted number above the
  sender's counter.
\<close>

definition in_sync :: "secure_conn \<Rightarrow> secure_conn \<Rightarrow> bool" where
  "in_sync a b \<longleftrightarrow>
     magic (sc_cfg b) = magic (sc_cfg a) \<and> version (sc_cfg b) = version (sc_cfg a) \<and>
     maxPayload (sc_cfg a) \<le> maxPayload (sc_cfg b) \<and> \<not> shut (sc_conn b) \<and>
     length (ks_key (sendKey a)) = 32 \<and>
     (\<exists>k S. recvKey b = Some k \<and> ks_id k = ks_id (sendKey a) \<and> ks_key k = ks_key (sendKey a) \<and>
        replay_tracks (ks_replay k) S \<and> (\<forall>m\<in>S. m \<le> ks_seq (sendKey a)))"

lemma in_sync_same_reader: "in_sync a b \<Longrightarrow> same_reader b b' \<Longrightarrow> in_sync a b'"
  by (simp add: in_sync_def same_reader_def)

text \<open>The frame that carries one record.\<close>

definition record_frame ::
    "crypto \<Rightarrow> base_config \<Rightarrow> key_state \<Rightarrow> byte \<Rightarrow> bytes \<Rightarrow> frame" where
  "record_frame C cfg ks t p =
     \<lparr>fr_magic = magic cfg, fr_version = version cfg, fr_type = frameEncrypted,
      fr_payload = put_u32 (ks_id ks) @ put_u64 (ks_seq ks) @
        seal C (ks_key ks) (seqNonce (ks_seq ks)) (t # p)
          (encryptedAAD cfg (ks_id ks) (ks_seq ks))\<rparr>"

lemma gslice_record [simp]:
  "gslice 0 4 (put_u32 i @ put_u64 q @ ct) = put_u32 i"
  "gslice 4 12 (put_u32 i @ put_u64 q @ ct) = put_u64 q"
  "drop 12 (put_u32 i @ put_u64 q @ ct) = ct"
  by (simp_all add: gslice_def)

lemma length_seqNonce [simp, codec_simps]: "length (seqNonce q) = 12"
  by (simp add: seqNonce_def)

lemma record_frame_simps [simp]:
  "fr_type (record_frame C cfg ks t p) = frameEncrypted"
  "\<not> length (fr_payload (record_frame C cfg ks t p)) < 12"
  "get_u32 (gslice 0 4 (fr_payload (record_frame C cfg ks t p))) = ks_id ks"
  "get_u64 (gslice 4 12 (fr_payload (record_frame C cfg ks t p))) = ks_seq ks"
  by (simp_all add: record_frame_def)

lemma length_record_frame:
  "seal_len C \<Longrightarrow> length (fr_payload (record_frame C cfg ks t p)) = length p + 29"
  by (simp add: record_frame_def seal_len_def)

lemma encryptAndWrite_None:
  assumes w: "encryptAndWrite C t p a = (None, a')" and "seal_len C" and len: "length p + 29 < 2 ^ 32"
    and "length (ks_key (sendKey a)) = 32"
  defines "ks \<equiv> (sendKey a)\<lparr>ks_seq := ks_seq (sendKey a) + 1\<rparr>"
  shows "outgoing (sc_conn a') =
           outgoing (sc_conn a) @ frame_bytes (sc_cfg a) (record_frame C (sc_cfg a) ks t p)"
    and "sendable_frame (sc_cfg a) (record_frame C (sc_cfg a) ks t p)"
    and "sendKey a' = ks" and "sc_cfg a' = sc_cfg a"
proof -
  let ?fr = "record_frame C (sc_cfg a) ks t p"
  from w assms(4) obtain c where
    wf: "writeFrame (sc_cfg a) frameEncrypted (fr_payload ?fr) (sc_conn a) = (None, c)"
    and a': "a' = a\<lparr>sendKey := ks, sc_conn := c\<rparr>"
    by (auto simp: encryptAndWrite_def Let_def newAEAD_def ks_def record_frame_def
        split: if_splits prod.splits)
  show "sendKey a' = ks" "sc_cfg a' = sc_cfg a" by (simp_all add: a')
  have l: "length (fr_payload ?fr) < 2 ^ 32"
    using length_record_frame [OF \<open>seal_len C\<close>] len by simp
  then have u: "unat (of_nat (length (fr_payload ?fr)) :: 32 word) = length (fr_payload ?fr)"
    by (simp add: unsigned_of_nat take_bit_nat_eq_self)
  from wf have "\<not> maxPayload (sc_cfg a) < of_nat (length (fr_payload ?fr))"
    by (auto simp: writeFrame_def split: if_splits)
  then have "length (fr_payload ?fr) \<le> unat (maxPayload (sc_cfg a))"
    using u by (simp add: word_less_nat_alt)
  then show "sendable_frame (sc_cfg a) ?fr" by (simp add: sendable_frame_def record_frame_def)
  show "outgoing (sc_conn a') = outgoing (sc_conn a) @ frame_bytes (sc_cfg a) ?fr"
    using wf by (auto simp: a' writeFrame_def net_write_def split: if_splits)
qed

lemma encode_frame_cfg:
  "magic cfg' = magic cfg \<Longrightarrow> version cfg' = version cfg \<Longrightarrow>
   encode_frame cfg' t p = encode_frame cfg t p"
  by (simp add: encode_frame_def)

lemma sendable_frame_mono:
  assumes "sendable_frame cfg f" "magic cfg' = magic cfg" "version cfg' = version cfg"
    "maxPayload cfg \<le> maxPayload cfg'"
  shows "sendable_frame cfg' f"
  using assms by (simp add: sendable_frame_def word_le_nat_alt)

text \<open>Opening the next record of a synchronised sender.\<close>

lemma open_next_record:
  assumes "aead_ok C" and k: "recvKey b = Some k" "ks_id k = ks_id ks" "ks_key k = ks_key ks"
    and cfg: "magic (sc_cfg b) = magic cfg" "version (sc_cfg b) = version cfg"
    and len: "length (ks_key ks) = 32" and acc: "accept (ks_replay k) (ks_seq ks) = (True, w)"
  shows "t \<noteq> innerKeyUpdate \<Longrightarrow>
      open_record C (record_frame C cfg ks t p) b =
        (Inr (Some (t, p)), b\<lparr>sc_ticks := Suc (sc_ticks b), recvKey := Some (k\<lparr>ks_replay := w\<rparr>)\<rparr>)"
    and "length p = 32 \<Longrightarrow> \<exists>b' k'.
      open_record C (record_frame C cfg ks innerKeyUpdate p) b = (Inr None, b') \<and>
      same_writer b b' \<and> recvKey b' = Some k' \<and> ks_id k' = ks_id ks + 1 \<and>
      ks_key k' = deriveRotatedKey C (ks_key ks) p \<and>
      ks_replay k' = newReplayWindow (replaySize (sc_cfg b))"
proof -
  have aad: "encryptedAAD (sc_cfg b) i q = encryptedAAD cfg i q" for i q
    by (simp add: encryptedAAD_def cfg)
  have op: "aopen C (ks_key ks) (seqNonce (ks_seq ks))
      (seal C (ks_key ks) (seqNonce (ks_seq ks)) x (encryptedAAD cfg i q))
      (encryptedAAD cfg i q) = Some x" for x i q
    using \<open>aead_ok C\<close> len by (simp add: aead_ok_def)
  have fc: "frameEncrypted \<noteq> frameClose" by (simp add: frameEncrypted_def frameClose_def)
  show "open_record C (record_frame C cfg ks t p) b =
      (Inr (Some (t, p)), b\<lparr>sc_ticks := Suc (sc_ticks b), recvKey := Some (k\<lparr>ks_replay := w\<rparr>)\<rparr>)"
    if "t \<noteq> innerKeyUpdate"
    using that k len acc fc op
    by (simp add: open_record_def lookupRecvKey_def time_now_def newAEAD_def aad markReplayOK_def
        Let_def) (simp add: record_frame_def markReplayOK_def)
  show "\<exists>b' k'.
      open_record C (record_frame C cfg ks innerKeyUpdate p) b = (Inr None, b') \<and>
      same_writer b b' \<and> recvKey b' = Some k' \<and> ks_id k' = ks_id ks + 1 \<and>
      ks_key k' = deriveRotatedKey C (ks_key ks) p \<and>
      ks_replay k' = newReplayWindow (replaySize (sc_cfg b))" if "length p = 32"
    using that k len acc fc op
    by (simp add: open_record_def lookupRecvKey_def time_now_def newAEAD_def aad markReplayOK_def
        Let_def installRecvKey_def same_writer_def) (simp add: record_frame_def markReplayOK_def
        installRecvKey_def time_now_def same_writer_def)
qed

lemma word_succ_above:
  fixes s :: "64 word"
  assumes "m \<le> s" and "s + 1 \<noteq> 0"
  shows "m < s + 1"
  using assms unatSuc [of s] by (simp add: word_less_nat_alt word_le_nat_alt add.commute)

text \<open>One record, from the writer's buffer to the reader's state.\<close>

lemma read_step_record:
  assumes sync: "in_sync a b" and laws: "aead_ok C" "hmac_len C"
    and send: "sendable_frame (sc_cfg a) (record_frame C (sc_cfg a) ks t p)"
    and ks: "ks = (sendKey a)\<lparr>ks_seq := ks_seq (sendKey a) + 1\<rparr>"
    and nowrap: "ks_seq (sendKey a) + 1 \<noteq> 0"
    and inc: "incoming (sc_conn b) =
      frame_bytes (sc_cfg a) (record_frame C (sc_cfg a) ks t p) @ rest"
  shows "t \<noteq> innerKeyUpdate \<Longrightarrow> \<exists>b'. read_step C b = (Inr (Some (t, p)), b') \<and>
      incoming (sc_conn b') = rest \<and> (\<forall>a'. sendKey a' = ks \<longrightarrow> sc_cfg a' = sc_cfg a \<longrightarrow> in_sync a' b')"
    and "t = innerKeyUpdate \<Longrightarrow> length p = 32 \<Longrightarrow> \<exists>b'. read_step C b = (Inr None, b') \<and>
      incoming (sc_conn b') = rest \<and>
      (\<forall>a'. ks_id (sendKey a') = ks_id ks + 1 \<longrightarrow>
         ks_key (sendKey a') = deriveRotatedKey C (ks_key ks) p \<longrightarrow> sc_cfg a' = sc_cfg a \<longrightarrow>
         in_sync a' b')"
proof -
  let ?fr = "record_frame C (sc_cfg a) ks t p"
  from sync obtain k S where k: "recvKey b = Some k" "ks_id k = ks_id ks" "ks_key k = ks_key ks"
    and S: "replay_tracks (ks_replay k) S" "\<forall>m\<in>S. m \<le> ks_seq (sendKey a)"
    and cfg: "magic (sc_cfg b) = magic (sc_cfg a)" "version (sc_cfg b) = version (sc_cfg a)"
      "maxPayload (sc_cfg a) \<le> maxPayload (sc_cfg b)" and op: "\<not> shut (sc_conn b)"
    and len: "length (ks_key ks) = 32"
    by (auto simp: in_sync_def ks)
  have gt: "\<forall>m\<in>S. m < ks_seq ks" and pos: "0 < ks_seq ks"
    using S(2) nowrap by (auto simp: ks word_succ_above word_gt_0)
  then have "fst (accept (ks_replay k) (ks_seq ks))" using accept_newer [OF S(1)] by blast
  then obtain w where w: "accept (ks_replay k) (ks_seq ks) = (True, w)"
    by (cases "accept (ks_replay k) (ks_seq ks)") auto
  have S': "replay_tracks w (insert (ks_seq ks) S)" by (rule accept_tracks_True [OF S(1) w])
  have rf: "readFrame (sc_cfg b) (sc_conn b) =
      (Inr ?fr, (arm_read (sc_cfg b) (sc_conn b))\<lparr>incoming := rest\<rparr>)"
    using op inc by (intro readFrame_frame sendable_frame_mono [OF send])
      (simp_all add: cfg open_with_def encode_frame_cfg [OF cfg(1,2)])
  let ?b = "b\<lparr>sc_conn := (arm_read (sc_cfg b) (sc_conn b))\<lparr>incoming := rest\<rparr>\<rparr>"
  have kb: "recvKey ?b = Some k" "magic (sc_cfg ?b) = magic (sc_cfg a)"
      "version (sc_cfg ?b) = version (sc_cfg a)"
    by (simp_all add: k cfg)
  note rec = open_next_record [OF laws(1) kb(1) k(2,3) kb(2,3) len w]
  show "\<exists>b'. read_step C b = (Inr (Some (t, p)), b') \<and> incoming (sc_conn b') = rest \<and>
      (\<forall>a'. sendKey a' = ks \<longrightarrow> sc_cfg a' = sc_cfg a \<longrightarrow> in_sync a' b')"
    if "t \<noteq> innerKeyUpdate"
  proof -
    have "in_sync a' (?b\<lparr>sc_ticks := Suc (sc_ticks ?b), recvKey := Some (k\<lparr>ks_replay := w\<rparr>)\<rparr>)"
      if "sendKey a' = ks" "sc_cfg a' = sc_cfg a" for a'
      using S' gt k cfg op len that by (force simp: in_sync_def)
    with rec(1) [OF that] show ?thesis by (simp add: read_step_def rf)
  qed
  show "\<exists>b'. read_step C b = (Inr None, b') \<and> incoming (sc_conn b') = rest \<and>
      (\<forall>a'. ks_id (sendKey a') = ks_id ks + 1 \<longrightarrow>
         ks_key (sendKey a') = deriveRotatedKey C (ks_key ks) p \<longrightarrow> sc_cfg a' = sc_cfg a \<longrightarrow>
         in_sync a' b')"
    if "t = innerKeyUpdate" "length p = 32"
  proof -
    from rec(2) [OF that(2)] obtain b' k' where
      b': "open_record C (record_frame C (sc_cfg a) ks innerKeyUpdate p) ?b = (Inr None, b')"
        "same_writer ?b b'" "recvKey b' = Some k'"
        "ks_id k' = ks_id ks + 1" "ks_key k' = deriveRotatedKey C (ks_key ks) p"
        "ks_replay k' = newReplayWindow (replaySize (sc_cfg ?b))"
      by blast
    have "in_sync a' b'" if "ks_id (sendKey a') = ks_id ks + 1"
        "ks_key (sendKey a') = deriveRotatedKey C (ks_key ks) p" "sc_cfg a' = sc_cfg a" for a'
      using b'(2-6) cfg op that length_hkdfKey [OF laws(2)] tracks_new
      by (force simp: in_sync_def same_writer_def deriveRotatedKey_def)
    moreover have "incoming (sc_conn b') = rest" using b'(2) by (simp add: same_writer_def)
    ultimately show ?thesis using b'(1) that(1) by (simp add: read_step_def rf)
  qed
qed

section \<open>Writers and their readers\<close>

definition crypto_laws :: "crypto \<Rightarrow> bool" where
  "crypto_laws C \<longleftrightarrow> aead_ok C \<and> hmac_len C \<and> seal_len C"

text \<open>
  \<open>writes_read C a bs a' r\<close>: between \<open>a\<close> and \<open>a'\<close> the writer put the bytes \<open>bs\<close> on the wire,
  and a synchronised reader that finds them next behaves as \<open>r\<close> says and is in step with \<open>a'\<close>.
\<close>

definition writes_read ::
    "secure_conn \<Rightarrow> secure_conn \<Rightarrow> (secure_conn \<Rightarrow> secure_conn \<Rightarrow> bool) \<Rightarrow> bool" where
  "writes_read a a' r \<longleftrightarrow>
     sc_cfg a' = sc_cfg a \<and> length (ks_key (sendKey a')) = 32 \<and>
     (\<exists>bs. outgoing (sc_conn a') = outgoing (sc_conn a) @ bs \<and>
        (\<forall>b rest. in_sync a b \<longrightarrow> incoming (sc_conn b) = bs @ rest \<longrightarrow>
           (\<exists>b'. r b b' \<and> incoming (sc_conn b') = rest \<and> in_sync a' b')))"

lemma writes_read_comp:
  assumes "writes_read a a1 r1" and "writes_read a1 a2 r2"
  shows "writes_read a a2 (\<lambda>b b'. \<exists>b1. r1 b b1 \<and> r2 b1 b')"
proof -
  from assms obtain bs1 bs2 where
    1: "outgoing (sc_conn a1) = outgoing (sc_conn a) @ bs1"
      "\<And>b rest. in_sync a b \<Longrightarrow> incoming (sc_conn b) = bs1 @ rest \<Longrightarrow>
         \<exists>b'. r1 b b' \<and> incoming (sc_conn b') = rest \<and> in_sync a1 b'"
    and 2: "outgoing (sc_conn a2) = outgoing (sc_conn a1) @ bs2"
      "\<And>b rest. in_sync a1 b \<Longrightarrow> incoming (sc_conn b) = bs2 @ rest \<Longrightarrow>
         \<exists>b'. r2 b b' \<and> incoming (sc_conn b') = rest \<and> in_sync a2 b'"
    by (auto simp: writes_read_def)
  have "\<exists>b'. (\<exists>b1. r1 b b1 \<and> r2 b1 b') \<and> incoming (sc_conn b') = rest \<and> in_sync a2 b'"
    if "in_sync a b" "incoming (sc_conn b) = (bs1 @ bs2) @ rest" for b rest
    using 1(2) [OF that(1), of "bs2 @ rest"] that(2) 2(2) by fastforce
  with assms 1(1) 2(1) show ?thesis by (auto simp: writes_read_def)
qed

lemma writes_read_then:
  assumes w: "writes_read a a' r"
    and step: "\<And>b b1. r b b1 \<Longrightarrow> in_sync a' b1 \<Longrightarrow>
      \<exists>b'. r' b b' \<and> incoming (sc_conn b') = incoming (sc_conn b1) \<and> in_sync a' b'"
  shows "writes_read a a' r'"
proof -
  from w obtain bs where
    bs: "outgoing (sc_conn a') = outgoing (sc_conn a) @ bs"
      "\<And>b rest. in_sync a b \<Longrightarrow> incoming (sc_conn b) = bs @ rest \<Longrightarrow>
         \<exists>b'. r b b' \<and> incoming (sc_conn b') = rest \<and> in_sync a' b'"
    by (auto simp: writes_read_def)
  have "\<exists>b'. r' b b' \<and> incoming (sc_conn b') = rest \<and> in_sync a' b'"
    if "in_sync a b" "incoming (sc_conn b) = bs @ rest" for b rest
    using bs(2) [OF that] step by metis
  with w bs(1) show ?thesis by (auto simp: writes_read_def)
qed

lemma writes_read_weaken:
  "writes_read a a' r \<Longrightarrow> (\<And>b b'. r b b' \<Longrightarrow> r' b b') \<Longrightarrow> writes_read a a' r'"
  unfolding writes_read_def by meson

lemma writes_read_start:
  assumes "sc_conn s = sc_conn a" "sc_cfg s = sc_cfg a" "sendKey s = sendKey a"
  shows "writes_read s a' r = writes_read a a' r"
proof -
  have "in_sync s = in_sync a" using assms by (simp add: in_sync_def fun_eq_iff)
  with assms show ?thesis by (simp add: writes_read_def)
qed

lemma encryptAndWrite_data:
  assumes w: "encryptAndWrite C t p a = (None, a')" and laws: "crypto_laws C"
    and len: "length p + 29 < 2 ^ 32" and key: "length (ks_key (sendKey a)) = 32"
    and nowrap: "ks_seq (sendKey a) + 1 \<noteq> 0" and t: "t \<noteq> innerKeyUpdate"
  shows "writes_read a a' (\<lambda>b b'. read_step C b = (Inr (Some (t, p)), b'))"
proof -
  from laws have l: "aead_ok C" "hmac_len C" "seal_len C" by (simp_all add: crypto_laws_def)
  note e = encryptAndWrite_None [OF w l(3) len key]
  have "\<exists>b'. read_step C b = (Inr (Some (t, p)), b') \<and> incoming (sc_conn b') = rest \<and> in_sync a' b'"
    if "in_sync a b" and "incoming (sc_conn b) = frame_bytes (sc_cfg a)
        (record_frame C (sc_cfg a) ((sendKey a)\<lparr>ks_seq := ks_seq (sendKey a) + 1\<rparr>) t p) @ rest"
    for b rest
    using read_step_record(1) [OF that(1) l(1,2) e(2) refl nowrap that(2) t] e(3,4) by blast
  then show ?thesis using e key unfolding writes_read_def by fastforce
qed

lemma encryptAndWrite_update:
  assumes w: "encryptAndWrite C innerKeyUpdate p a = (None, a')" and laws: "crypto_laws C"
    and len: "length p = 32" and key: "length (ks_key (sendKey a)) = 32"
    and nowrap: "ks_seq (sendKey a) + 1 \<noteq> 0"
    and a'': "outgoing (sc_conn a'') = outgoing (sc_conn a')" "sc_cfg a'' = sc_cfg a'"
      "ks_id (sendKey a'') = ks_id (sendKey a') + 1"
      "ks_key (sendKey a'') = deriveRotatedKey C (ks_key (sendKey a')) p"
  shows "writes_read a a'' (\<lambda>b b'. read_step C b = (Inr None, b'))"
proof -
  from laws have l: "aead_ok C" "hmac_len C" "seal_len C" by (simp_all add: crypto_laws_def)
  from len have "length p + 29 < 2 ^ 32" by simp
  note e = encryptAndWrite_None [OF w l(3) this key]
  have "\<exists>b'. read_step C b = (Inr None, b') \<and> incoming (sc_conn b') = rest \<and> in_sync a'' b'"
    if "in_sync a b" and "incoming (sc_conn b) = frame_bytes (sc_cfg a)
        (record_frame C (sc_cfg a) ((sendKey a)\<lparr>ks_seq := ks_seq (sendKey a) + 1\<rparr>) innerKeyUpdate p)
        @ rest"
    for b rest
    using read_step_record(2) [OF that(1) l(1,2) e(2) refl nowrap that(2) refl len] e(3,4) a''
    by auto
  moreover have "length (ks_key (sendKey a'')) = 32"
    using a''(4) length_hkdfKey [OF l(2)] by (simp add: deriveRotatedKey_def)
  ultimately show ?thesis using e(1,4) a'' unfolding writes_read_def by fastforce
qed

lemma rotate_NoneE:
  assumes "rotateSendKeyIfNeeded C a = (None, a')"
  obtains (keep) "sc_conn a' = sc_conn a" "sc_cfg a' = sc_cfg a" "sendKey a' = sendKey a"
  | (rotate) n s1 salt s2 s3 created s4 where
      "time_now a = (n, s1)" "rand_read 32 s1 = (Some salt, s2)"
      "encryptAndWrite C innerKeyUpdate salt s2 = (None, s3)" "time_now s3 = (created, s4)"
      "a' = s4\<lparr>sendKey := \<lparr>ks_id = ks_id (sendKey s4) + 1,
         ks_key = deriveRotatedKey C (ks_key (sendKey s4)) salt, ks_created = created,
         ks_expires = 0, ks_seq = 0, ks_replay = zero_replay\<rparr>\<rparr>"
proof -
  consider "a' = a" | n where "time_now a = (n, a')"
    | n s1 salt s2 s3 where "time_now a = (n, s1)" "rand_read 32 s1 = (Some salt, s2)"
      "encryptAndWrite C innerKeyUpdate salt s2 = (None, s3)"
      "a' = (snd (time_now s3))\<lparr>sendKey := \<lparr>ks_id = ks_id (sendKey (snd (time_now s3))) + 1,
         ks_key = deriveRotatedKey C (ks_key (sendKey (snd (time_now s3)))) salt,
         ks_created = fst (time_now s3), ks_expires = 0, ks_seq = 0,
         ks_replay = zero_replay\<rparr>\<rparr>"
    using assms
    by (auto simp: rotateSendKeyIfNeeded_def split: if_splits prod.splits option.splits)
  then show thesis
  proof cases
    case 1
    then show ?thesis by (intro keep) simp_all
  next
    case 2
    then show ?thesis by (intro keep) (auto simp: time_now_def)
  next
    case 3
    show ?thesis by (rule rotate [OF 3(1-3) surjective_pairing 3(4)])
  qed
qed

lemma rotate_read:
  assumes r: "rotateSendKeyIfNeeded C a = (None, a')" and laws: "crypto_laws C"
    and key: "length (ks_key (sendKey a)) = 32" and nowrap: "ks_seq (sendKey a) + 1 \<noteq> 0"
  shows "writes_read a a' (\<lambda>b b'. readInner C b = readInner C b')"
    and "ks_seq (sendKey a') = ks_seq (sendKey a) \<or> ks_seq (sendKey a') = 0"
proof -
  have same: "writes_read a a' (\<lambda>b b'. readInner C b = readInner C b')"
    if "sc_conn a' = sc_conn a" "sc_cfg a' = sc_cfg a" "sendKey a' = sendKey a"
    using that key by (auto simp: writes_read_def in_sync_def intro!: exI [of _ "[]"])
  have rot: "writes_read a a' (\<lambda>b b'. readInner C b = readInner C b') \<and> ks_seq (sendKey a') = 0"
    if s2: "rand_read 32 s1 = (Some salt, s2)" and s1: "time_now a = (n, s1)"
      and w: "encryptAndWrite C innerKeyUpdate salt s2 = (None, s3)"
      and s4: "time_now s3 = (created, s4)"
      and a': "a' = s4\<lparr>sendKey := \<lparr>ks_id = ks_id (sendKey s4) + 1,
         ks_key = deriveRotatedKey C (ks_key (sendKey s4)) salt, ks_created = created,
         ks_expires = 0, ks_seq = 0, ks_replay = zero_replay\<rparr>\<rparr>"
    for s1 s2 s3 s4 n salt created
  proof -
    have eq: "sc_conn s2 = sc_conn a" "sc_cfg s2 = sc_cfg a" "sendKey s2 = sendKey a"
        "length salt = 32"
      using s1 s2 by (auto simp: time_now_def rand_read_def split: if_splits)
    have "writes_read s2 a' (\<lambda>b b'. read_step C b = (Inr None, b'))"
      by (rule encryptAndWrite_update [OF w laws eq(4)])
        (use eq key nowrap s4 a' in \<open>auto simp: time_now_def\<close>)
    then have "writes_read s2 a' (\<lambda>b b'. readInner C b = readInner C b')"
      by (rule writes_read_weaken) (simp add: readInner.simps)
    then show ?thesis using writes_read_start [OF eq(1-3)] a' by simp
  qed
  from r have "writes_read a a' (\<lambda>b b'. readInner C b = readInner C b') \<and>
      (ks_seq (sendKey a') = ks_seq (sendKey a) \<or> ks_seq (sendKey a') = 0)"
  proof (cases rule: rotate_NoneE)
    case keep
    with same show ?thesis by simp
  next
    case (rotate n s1 salt s2 s3 created s4)
    from rot [OF this(2,1,3-5)] show ?thesis by simp
  qed
  then show "writes_read a a' (\<lambda>b b'. readInner C b = readInner C b')"
    and "ks_seq (sendKey a') = ks_seq (sendKey a) \<or> ks_seq (sendKey a') = 0"
    by blast+
qed

lemma writeInner_read:
  assumes w: "writeInner C t p a = (None, a')" and laws: "crypto_laws C"
    and len: "length p + 29 < 2 ^ 32" and key: "length (ks_key (sendKey a)) = 32"
    and seq: "unat (ks_seq (sendKey a)) + 1 < 2 ^ 64" and t: "t \<noteq> innerKeyUpdate"
  shows "writes_read a a' (\<lambda>b b'. readInner C b = (Inr (t, p), b'))"
    and "unat (ks_seq (sendKey a')) \<le> unat (ks_seq (sendKey a)) + 1"
proof -
  from w obtain a1 where r: "rotateSendKeyIfNeeded C a = (None, a1)"
    and e: "encryptAndWrite C t p a1 = (None, a')"
    by (auto simp: writeInner_def split: prod.splits option.splits)
  have nw: "s + 1 \<noteq> 0 \<and> unat (s + 1) = unat s + 1" if "unat s + 1 < 2 ^ 64" for s :: "64 word"
    using that by (simp add: unat_word_ariths word_unat_eq_iff)
  note rr = rotate_read [OF r laws key conjunct1 [OF nw [OF seq]]]
  then have key1: "length (ks_key (sendKey a1)) = 32" by (simp add: writes_read_def)
  have seq1: "unat (ks_seq (sendKey a1)) + 1 < 2 ^ 64" "unat (ks_seq (sendKey a1)) \<le>
      unat (ks_seq (sendKey a))"
    using rr(2) seq by auto
  note ed = encryptAndWrite_data [OF e laws len key1 conjunct1 [OF nw [OF seq1(1)]] t]
  from writes_read_comp [OF rr(1) ed]
  show "writes_read a a' (\<lambda>b b'. readInner C b = (Inr (t, p), b'))"
    by (rule writes_read_weaken) (auto simp: readInner.simps)
  from laws have "seal_len C" by (simp add: crypto_laws_def)
  from encryptAndWrite_None(3) [OF e this len key1] seq1 nw [OF seq1(1)]
  show "unat (ks_seq (sendKey a')) \<le> unat (ks_seq (sendKey a)) + 1" by simp
qed

section \<open>Whole conversations\<close>

datatype conn_op = OpData bytes | OpPing | OpPong

fun send_op :: "crypto \<Rightarrow> conn_op \<Rightarrow> secure_conn \<Rightarrow> tcp_error option \<times> secure_conn" where
  "send_op C (OpData p) s = scWrite C p s"
| "send_op C OpPing s = sendPing C s"
| "send_op C OpPong s = sendPong C s"

fun send_ops :: "crypto \<Rightarrow> conn_op list \<Rightarrow> secure_conn \<Rightarrow> tcp_error option \<times> secure_conn" where
  "send_ops C [] s = (None, s)"
| "send_ops C (x # xs) s =
     (case send_op C x s of
        (Some e, s') \<Rightarrow> (Some e, s')
      | (None, s') \<Rightarrow> send_ops C xs s')"

fun op_data :: "conn_op list \<Rightarrow> bytes list" where
  "op_data [] = []"
| "op_data (OpData p # xs) = p # op_data xs"
| "op_data (_ # xs) = op_data xs"

fun op_small :: "conn_op \<Rightarrow> bool" where
  "op_small (OpData p) \<longleftrightarrow> length p + 29 < 2 ^ 32"
| "op_small _ \<longleftrightarrow> True"

lemma inner_tags [simp]:
  "innerData \<noteq> innerKeyUpdate" "innerPing \<noteq> innerKeyUpdate" "innerPong \<noteq> innerKeyUpdate"
  "innerPing \<noteq> innerData" "innerPong \<noteq> innerData" "innerPong \<noteq> innerPing"
  by (simp_all add: innerData_def innerPing_def innerPong_def innerKeyUpdate_def)

text \<open>How \<^verbatim>\<open>Read\<close> consumes one operation of the peer.\<close>

fun op_read :: "crypto \<Rightarrow> conn_op \<Rightarrow> secure_conn \<Rightarrow> secure_conn \<Rightarrow> bool" where
  "op_read C (OpData p) b b' \<longleftrightarrow> scRead C b = (Inr p, b')"
| "op_read C _ b b' \<longleftrightarrow> scRead C b = scRead C b'"

lemma send_op_read:
  assumes "send_op C x a = (None, a')" and laws: "crypto_laws C" and "op_small x"
    and key: "length (ks_key (sendKey a)) = 32" and seq: "unat (ks_seq (sendKey a)) + 1 < 2 ^ 64"
  shows "writes_read a a' (op_read C x)"
    and "unat (ks_seq (sendKey a')) \<le> unat (ks_seq (sendKey a)) + 1"
proof -
  obtain t p where w: "writeInner C t p a = (None, a')" "length p + 29 < 2 ^ 32"
      "t \<noteq> innerKeyUpdate" "(t, p) = (case x of OpData q \<Rightarrow> (innerData, q)
        | OpPing \<Rightarrow> (innerPing, []) | OpPong \<Rightarrow> (innerPong, []))"
    using assms(1,3) by (cases x) (auto simp: scWrite_def sendPing_def sendPong_def)
  note wr = writeInner_read [OF w(1) laws w(2) key seq w(3)]
  from wr(2) show "unat (ks_seq (sendKey a')) \<le> unat (ks_seq (sendKey a)) + 1" .
  show "writes_read a a' (op_read C x)"
  proof (cases "x = OpPing")
    case False
    from wr(1) show ?thesis
      by (rule writes_read_weaken) (use w(4) False in \<open>cases x; simp add: scRead.simps\<close>)
  next
    case True
    with w(4) have tp: "t = innerPing" "p = []" by simp_all
    from wr(1) show ?thesis
    proof (rule writes_read_then)
      fix b b1
      assume b1: "readInner C b = (Inr (t, p), b1)" "in_sync a' b1"
      obtain e b2 where s: "sendPong C b1 = (e, b2)" by fastforce
      then have "same_reader b1 b2" by (auto simp: sendPong_def dest: writeInner_same)
      moreover have "scRead C b = scRead C b2"
        using b1(1) s tp by (simp add: scRead.simps [of C b])
      ultimately show "\<exists>b'. op_read C x b b' \<and>
          incoming (sc_conn b') = incoming (sc_conn b1) \<and> in_sync a' b'"
        using b1(2) True in_sync_same_reader by (auto simp: same_reader_def)
    qed
  qed
qed

lemma send_ops_read:
  assumes "send_ops C xs a = (None, a')" and laws: "crypto_laws C" and "list_all op_small xs"
    and "length (ks_key (sendKey a)) = 32"
    and "unat (ks_seq (sendKey a)) + length xs < 2 ^ 64"
  shows "\<exists>bs. outgoing (sc_conn a') = outgoing (sc_conn a) @ bs \<and>
     (\<forall>b rest. in_sync a b \<longrightarrow> incoming (sc_conn b) = bs @ rest \<longrightarrow>
        (\<exists>b'. recv_n (scRead C) (length (op_data xs)) b = (op_data xs, None, b')))"
  using assms(1,3-)
proof (induction xs arbitrary: a)
  case Nil
  then show ?case by (auto intro!: exI [of _ "[]"])
next
  case (Cons x xs)
  from Cons.prems(1) obtain a1 where x: "send_op C x a = (None, a1)"
    and xs: "send_ops C xs a1 = (None, a')"
    by (auto split: prod.splits option.splits)
  have "op_small x" "unat (ks_seq (sendKey a)) + 1 < 2 ^ 64" using Cons.prems by simp_all
  note sx = send_op_read [OF x laws this(1) Cons.prems(3) this(2)]
  from sx(1) have key1: "length (ks_key (sendKey a1)) = 32" by (simp add: writes_read_def)
  from sx(1) obtain bs1 where
    1: "outgoing (sc_conn a1) = outgoing (sc_conn a) @ bs1"
      "\<And>b rest. in_sync a b \<Longrightarrow> incoming (sc_conn b) = bs1 @ rest \<Longrightarrow>
         \<exists>b'. op_read C x b b' \<and> incoming (sc_conn b') = rest \<and> in_sync a1 b'"
    by (auto simp: writes_read_def)
  have "list_all op_small xs" "unat (ks_seq (sendKey a1)) + length xs < 2 ^ 64"
    using Cons.prems sx(2) by simp_all
  from Cons.IH [OF xs this(1) key1 this(2)] obtain bs2 where
    2: "outgoing (sc_conn a') = outgoing (sc_conn a1) @ bs2"
      "\<And>b rest. in_sync a1 b \<Longrightarrow> incoming (sc_conn b) = bs2 @ rest \<Longrightarrow>
         \<exists>b'. recv_n (scRead C) (length (op_data xs)) b = (op_data xs, None, b')"
    by auto
  have "\<exists>b'. recv_n (scRead C) (length (op_data (x # xs))) b = (op_data (x # xs), None, b')"
    if "in_sync a b" "incoming (sc_conn b) = (bs1 @ bs2) @ rest" for b rest
  proof -
    from that 1(2) [of b "bs2 @ rest"] obtain b1 where
      b1: "op_read C x b b1" "incoming (sc_conn b1) = bs2 @ rest" "in_sync a1 b1" by auto
    from 2(2) [OF b1(3,2)] obtain b2 where
      b2: "recv_n (scRead C) (length (op_data xs)) b1 = (op_data xs, None, b2)" by blast
    show ?thesis
    proof (cases x)
      case (OpData p)
      with b1 b2 show ?thesis by simp
    qed (use b1(1) b2 in \<open>cases "op_data xs"; auto split: prod.splits\<close>)+
  qed
  with 1(1) 2(1) show ?case by (intro exI [of _ "bs1 @ bs2"]) auto
qed

lemma in_sync_new:
  assumes "length k = 32" and "\<not> shut c2" and "magic cfg2 = magic cfg1"
    and "version cfg2 = version cfg1" and "maxPayload cfg1 \<le> maxPayload cfg2"
  shows "in_sync (newSecureConn c1 cfg1 k k' clk1 t1 e1) (newSecureConn c2 cfg2 k'' k clk2 t2 e2)"
  using assms tracks_new by (auto simp: in_sync_def newSecureConn_def Let_def)

section \<open>No record twice\<close>

definition record_id :: "frame \<Rightarrow> 32 word \<times> 64 word" where
  "record_id fr = (get_u32 (gslice 0 4 (fr_payload fr)), get_u64 (gslice 4 12 (fr_payload fr)))"

text \<open>
  \<open>attacked C b log b'\<close>: starting from \<open>b\<close>, the receiver is given any frames at all, in any
  order and any number of times, on whatever stream; \<open>log\<close> lists the numbers of the records it
  accepted, and its own writes may come in between.
\<close>

inductive attacked ::
    "crypto \<Rightarrow> secure_conn \<Rightarrow> (32 word \<times> 64 word) list \<Rightarrow> secure_conn \<Rightarrow> bool"
  for C b where
  start: "attacked C b [] b"
| accepted: "\<lbrakk>attacked C b log b1; open_record C fr (b1\<lparr>sc_conn := c\<rparr>) = (Inr m, b2)\<rbrakk> \<Longrightarrow>
     attacked C b (log @ [record_id fr]) b2"
| rejected: "\<lbrakk>attacked C b log b1; open_record C fr (b1\<lparr>sc_conn := c\<rparr>) = (Inl e, b2)\<rbrakk> \<Longrightarrow>
     attacked C b log b2"
| written: "\<lbrakk>attacked C b log b1; writeInner C t p b1 = (e, b2)\<rbrakk> \<Longrightarrow> attacked C b log b2"

definition guards :: "key_state option \<Rightarrow> (32 word \<times> 64 word) set \<Rightarrow> bool" where
  "guards ko G \<longleftrightarrow>
     (\<forall>k. ko = Some k \<longrightarrow>
        (\<exists>S. replay_tracks (ks_replay k) S \<and> (\<forall>q. (ks_id k, q) \<in> G \<longrightarrow> q \<in> S)))"

definition log_inv :: "secure_conn \<Rightarrow> (32 word \<times> 64 word) set \<Rightarrow> nat \<Rightarrow> bool" where
  "log_inv b G n \<longleftrightarrow>
     guards (recvKey b) G \<and> guards (oldRecv b) G \<and>
     (\<exists>k. recvKey b = Some k \<and> unat (ks_id k) \<le> Suc n \<and>
        (\<forall>i q. (i, q) \<in> G \<longrightarrow> unat i \<le> unat (ks_id k)) \<and>
        (\<forall>k'. oldRecv b = Some k' \<longrightarrow> unat (ks_id k') < unat (ks_id k)))"

lemma guards_accept:
  assumes g: "guards (Some k) G" and a: "accept (ks_replay k) q = (ok, w)"
  shows "ok \<Longrightarrow> (ks_id k, q) \<notin> G"
    and "guards (Some (k\<lparr>ks_replay := w\<rparr>)) (if ok then insert (ks_id k, q) G else G)"
proof -
  from g obtain S where S: "replay_tracks (ks_replay k) S" "\<forall>q. (ks_id k, q) \<in> G \<longrightarrow> q \<in> S"
    by (auto simp: guards_def)
  show "(ks_id k, q) \<notin> G" if ok
    using window.acc_True [OF S(1), of q w] a that S(2) by auto
  show "guards (Some (k\<lparr>ks_replay := w\<rparr>)) (if ok then insert (ks_id k, q) G else G)"
  proof (cases ok)
    case True
    with window.acc_True [OF S(1), of q w] a S(2) show ?thesis by (auto simp: guards_def)
  next
    case False
    with window.acc_False [OF S(1), of q w] a S(2) show ?thesis by (auto simp: guards_def)
  qed
qed

lemma guards_other: "ko = Some k \<Longrightarrow> ks_id k \<noteq> i \<Longrightarrow> guards ko G \<Longrightarrow> guards ko (insert (i, q) G)"
  by (auto simp: guards_def)

lemma mark_log_inv:
  assumes inv: "log_inv b G n" and m: "markReplayOK i q b = (ok, b')"
  shows "ok \<Longrightarrow> (i, q) \<notin> G" and "log_inv b' (if ok then insert (i, q) G else G) n"
    and "map_option ks_id (recvKey b') = map_option ks_id (recvKey b)"
  proof -
  from inv obtain k where k: "recvKey b = Some k" "unat (ks_id k) \<le> Suc n"
      "\<forall>i q. (i, q) \<in> G \<longrightarrow> unat i \<le> unat (ks_id k)"
      "\<forall>k'. oldRecv b = Some k' \<longrightarrow> unat (ks_id k') < unat (ks_id k)"
    and g: "guards (recvKey b) G" "guards (oldRecv b) G"
    by (auto simp: log_inv_def)
  have "(ok \<longrightarrow> (i, q) \<notin> G) \<and> log_inv b' (if ok then insert (i, q) G else G) n \<and>
      map_option ks_id (recvKey b') = map_option ks_id (recvKey b)"
  proof (cases "ks_id k = i")
    case True
    with m k(1) obtain w where a: "accept (ks_replay k) q = (ok, w)"
      and b': "b' = b\<lparr>recvKey := Some (k\<lparr>ks_replay := w\<rparr>)\<rparr>"
      by (auto simp: markReplayOK_def split: prod.splits)
    have old: "guards (oldRecv b) (if ok then insert (i, q) G else G)"
      using g(2) k(4) True by (cases "oldRecv b") (auto simp: guards_def)
    from guards_accept [OF g(1) [unfolded k(1)] a] True old k
    show ?thesis by (auto simp: log_inv_def b')
  next
    case ne: False
    with m k(1) have mo: "markOldOK i q b = (ok, b')" by (simp add: markReplayOK_def)
    show ?thesis
    proof (cases "ok = False \<and> oldRecv b' = oldRecv b \<and> recvKey b' = recvKey b")
      case True
      with inv show ?thesis by (simp add: log_inv_def)
    next
      case False
      with mo obtain ko w where ko: "oldRecv b = Some ko" "ks_id ko = i"
        and a: "accept (ks_replay ko) q = (ok, w)"
        and b': "recvKey b' = recvKey b" "oldRecv b' = Some (ko\<lparr>ks_replay := w\<rparr>)"
        by (auto simp: markOldOK_def time_now_def split: option.splits if_splits prod.splits)
      from guards_accept [OF g(2) [unfolded ko(1)] a] ko
      have ga: "ok \<longrightarrow> (i, q) \<notin> G"
        "guards (Some (ko\<lparr>ks_replay := w\<rparr>)) (if ok then insert (i, q) G else G)" by auto
      have "guards (recvKey b) (if ok then insert (i, q) G else G)"
        using guards_other [OF k(1) ne g(1)] g(1) by simp
      with ga k ko show ?thesis by (auto simp: log_inv_def b' dest: less_imp_le)
    qed
  qed
  then show "ok \<Longrightarrow> (i, q) \<notin> G" and "log_inv b' (if ok then insert (i, q) G else G) n"
    and "map_option ks_id (recvKey b') = map_option ks_id (recvKey b)" by blast+
qed

lemma install_log_inv:
  assumes inv: "log_inv b G n" and i: "installRecvKey C i x b = (None, b')"
    and bound: "Suc (Suc n) < 2 ^ 32"
  shows "log_inv b' G (Suc n)"
proof -
  from inv obtain k where k: "recvKey b = Some k" "unat (ks_id k) \<le> Suc n"
      "\<forall>i q. (i, q) \<in> G \<longrightarrow> unat i \<le> unat (ks_id k)"
    and g: "guards (Some k) G"
    by (auto simp: log_inv_def)
  have suc: "unat (ks_id k + 1) = Suc (unat (ks_id k))"
    using k(2) bound by (simp add: unat_word_ariths)
  from i k(1) obtain e k' where b': "oldRecv b' = Some (k\<lparr>ks_expires := e\<rparr>)"
      "recvKey b' = Some k'" "ks_id k' = ks_id k + 1"
      "ks_replay k' = newReplayWindow (replaySize (sc_cfg b))"
    by (auto simp: installRecvKey_def time_now_def split: if_splits)
  have "(ks_id k + 1, q) \<notin> G" for q using k(3) suc by (metis not_less_eq_eq order_refl)
  then have "guards (Some k') G" using b' tracks_new by (auto simp: guards_def)
  moreover have "guards (oldRecv b') G" using g b'(1) by (auto simp: guards_def)
  ultimately show ?thesis using b' k suc by (fastforce simp: log_inv_def)
qed

lemma installRecvKey_Some: "installRecvKey C i x b = (Some e, b') \<Longrightarrow> b' = b"
  by (auto simp: installRecvKey_def split: option.splits if_splits prod.splits)

text \<open>What processing a frame did: nothing, a rejected or an accepted number, a new key.\<close>

lemma open_record_cases:
  assumes "open_record C fr s = (r, s')"
  obtains (unchanged) "recvKey s' = recvKey s" "oldRecv s' = oldRecv s" "isl r"
  | (marked) s1 ok where "recvKey s1 = recvKey s" "oldRecv s1 = oldRecv s"
      "markReplayOK (fst (record_id fr)) (snd (record_id fr)) s1 = (ok, s')" "\<not> isl r \<longrightarrow> ok"
  | (updated) s1 s2 p where "recvKey s1 = recvKey s" "oldRecv s1 = oldRecv s"
      "markReplayOK (fst (record_id fr)) (snd (record_id fr)) s1 = (True, s2)"
      "installRecvKey C (fst (record_id fr)) p s2 = (None, s')" "\<not> isl r"
proof -
  obtain key s1 where l: "lookupRecvKey (fst (record_id fr)) s = (key, s1)" by fastforce
  then have s1: "recvKey s1 = recvKey s" "oldRecv s1 = oldRecv s"
    by (auto dest: lookupRecvKey_state)
  obtain ok s2 where m: "markReplayOK (fst (record_id fr)) (snd (record_id fr)) s1 = (ok, s2)"
    by fastforce
  note ids = l [unfolded record_id_def fst_conv] m [unfolded record_id_def fst_conv snd_conv]
  from assms consider "s' = s" "isl r" | "s' = s1" "isl r" | "s' = s2" "\<not> isl r \<longrightarrow> ok"
    | p where "ok" "installRecvKey C (fst (record_id fr)) p s2 = (None, s')" "\<not> isl r"
    by (auto simp: open_record_def Let_def ids record_id_def
        split: if_splits sum.splits option.splits list.splits bool.splits prod.splits
        dest: installRecvKey_Some)
  then show thesis
  proof cases
    case 1
    show ?thesis by (rule unchanged) (use 1 in simp_all)
  next
    case 2
    show ?thesis by (rule unchanged) (use 2 s1 in simp_all)
  next
    case 3
    show ?thesis by (rule marked [of s1 ok]) (use 3 s1 m in simp_all)
  next
    case 4
    show ?thesis by (rule updated [of s1 s2 p]) (use 4 s1 m in simp_all)
  qed
qed

lemma log_inv_subset: "log_inv b (insert x G) n \<Longrightarrow> log_inv b G n"
  unfolding log_inv_def guards_def by blast

lemma log_inv_Suc: "log_inv b G n \<Longrightarrow> log_inv b G (Suc n)"
  unfolding log_inv_def by fastforce

lemma log_inv_cong: "recvKey b' = recvKey b \<Longrightarrow> oldRecv b' = oldRecv b \<Longrightarrow>
    log_inv b' G n = log_inv b G n"
  by (simp add: log_inv_def)

lemma log_inv_conn [simp]: "log_inv (b\<lparr>sc_conn := c\<rparr>) G n = log_inv b G n"
  by (simp add: log_inv_def)

lemma open_record_log_inv:
  assumes inv: "log_inv b G n" and o: "open_record C fr b = (r, b')"
    and bound: "Suc (Suc n) < 2 ^ 32"
  shows "(\<not> isl r \<longrightarrow> record_id fr \<notin> G \<and> log_inv b' (insert (record_id fr) G) (Suc n)) \<and>
         (isl r \<longrightarrow> log_inv b' G n)"
  using o
proof (cases rule: open_record_cases)
  case unchanged
  with inv log_inv_cong [OF unchanged(1,2)] show ?thesis by simp
next
  case (marked s1 ok)
  from inv have "log_inv s1 G n" using log_inv_cong [OF marked(1,2)] by simp
  from mark_log_inv(1,2) [OF this marked(3)] marked(4) show ?thesis
    by (auto dest: log_inv_subset log_inv_Suc split: if_splits)
next
  case (updated s1 s2 p)
  from inv have "log_inv s1 G n" using log_inv_cong [OF updated(1,2)] by simp
  from mark_log_inv(1,2) [OF this updated(3)]
  have "record_id fr \<notin> G" "log_inv s2 (insert (record_id fr) G) n" by auto
  with install_log_inv [OF this(2) updated(4) bound] updated(5) show ?thesis by simp
qed

lemma attacked_log_inv:
  assumes "attacked C b log b'" and "log_inv b {} 0" and "length log + 2 < 2 ^ 32"
  shows "distinct log \<and> log_inv b' (set log) (length log)"
  using assms(1,3)
proof induction
  case start
  with assms(2) show ?case by simp
next
  case (accepted log b1 fr c m b2)
  then have "log_inv (b1\<lparr>sc_conn := c\<rparr>) (set log) (length log)" and d: "distinct log"
    by simp_all
  from open_record_log_inv [OF this(1) accepted.hyps(2)] accepted.prems d show ?case by simp
next
  case (rejected log b1 fr c e b2)
  then have "log_inv (b1\<lparr>sc_conn := c\<rparr>) (set log) (length log)" and d: "distinct log"
    by simp_all
  from open_record_log_inv [OF this(1) rejected.hyps(2)] rejected.prems d show ?case by simp
next
  case (written log b1 t p e b2)
  have "recvKey b2 = recvKey b1" "oldRecv b2 = oldRecv b1"
    using writeInner_same [OF written.hyps(2)] by (simp_all add: same_reader_def)
  from written log_inv_cong [OF this] show ?case by simp
qed

lemma new_log_inv: "log_inv (newSecureConn c cfg sk rk clk t e) {} 0"
  using tracks_new by (auto simp: log_inv_def guards_def newSecureConn_def Let_def)

section \<open>Writes that succeed\<close>

text \<open>
  \<open>writer_ready s room n\<close>: the connection is open, has a 32-byte key, the network takes \<open>room\<close>
  more bytes and the generator has salt for \<open>n\<close> rotations. \<open>op_cost\<close> is the room one operation
  takes at most: a key update of 72 bytes and a record with 40 bytes of overhead.
\<close>

definition writer_ready :: "secure_conn \<Rightarrow> nat \<Rightarrow> nat \<Rightarrow> bool" where
  "writer_ready s room n \<longleftrightarrow>
     \<not> closed s \<and> \<not> shut (sc_conn s) \<and> length (ks_key (sendKey s)) = 32 \<and>
     room \<le> wr_room (sc_conn s) \<and> 32 * n \<le> length (sc_entropy s) \<and>
     61 \<le> unat (maxPayload (sc_cfg s))"

fun op_payload :: "conn_op \<Rightarrow> bytes" where
  "op_payload (OpData p) = p"
| "op_payload _ = []"

definition op_cost :: "conn_op \<Rightarrow> nat" where
  "op_cost x = 112 + length (op_payload x)"

lemma encryptAndWrite_ok:
  assumes "seal_len C" and r: "writer_ready s (room + length p + 40) n"
    and p: "length p + 29 \<le> unat (maxPayload (sc_cfg s))"
  shows "\<exists>s'. encryptAndWrite C t p s = (None, s') \<and> writer_ready s' room n \<and>
      sc_cfg s' = sc_cfg s \<and> sc_entropy s' = sc_entropy s"
proof -
  let ?ks = "(sendKey s)\<lparr>ks_seq := ks_seq (sendKey s) + 1\<rparr>"
  let ?p = "fr_payload (record_frame C (sc_cfg s) ?ks t p)"
  have l: "length ?p = length p + 29" by (rule length_record_frame [OF assms(1)])
  from r p l obtain c where w: "writeFrame (sc_cfg s) frameEncrypted ?p (sc_conn s) = (None, c)"
      "shut c = shut (sc_conn s)" "wr_room c = wr_room (sc_conn s) - (headerSize + length ?p)"
    using writeFrame_ok [of ?p "sc_cfg s" "sc_conn s" frameEncrypted]
    by (auto simp: writer_ready_def headerSize_def)
  have "room \<le> wr_room c" using w(3) l r unfolding headerSize_def writer_ready_def by linarith
  with r w(1,2) show ?thesis
    by (simp add: encryptAndWrite_def newAEAD_def writer_ready_def Let_def record_frame_def
        headerSize_def)
qed

lemma rotate_ok:
  assumes laws: "seal_len C" "hmac_len C" and r: "writer_ready s (room + 72) (Suc n)"
  shows "\<exists>s'. rotateSendKeyIfNeeded C s = (None, s') \<and> writer_ready s' room n \<and>
    sc_cfg s' = sc_cfg s"
proof -
  obtain now s1 where s1: "time_now s = (now, s1)" by fastforce
  let ?s2 = "s1\<lparr>sc_entropy := drop 32 (sc_entropy s1)\<rparr>"
  have rr: "rand_read 32 s1 = (Some (take 32 (sc_entropy s1)), ?s2)"
    using r s1 by (auto simp: rand_read_def writer_ready_def time_now_def)
  have r2: "writer_ready ?s2 (room + length (take 32 (sc_entropy s1)) + 40) n"
      "length (take 32 (sc_entropy s1)) + 29 \<le> unat (maxPayload (sc_cfg ?s2))"
    using r s1 by (auto simp: writer_ready_def time_now_def)
  from encryptAndWrite_ok [OF laws(1) r2, of innerKeyUpdate] obtain s3 where
    s3: "encryptAndWrite C innerKeyUpdate (take 32 (sc_entropy s1)) ?s2 = (None, s3)"
      "writer_ready s3 room n" "sc_cfg s3 = sc_cfg s1" by auto
  have "writer_ready s room n" "writer_ready s1 room n" "sc_cfg s1 = sc_cfg s"
    using r s1 by (auto simp: writer_ready_def time_now_def)
  with s3 show ?thesis
    using length_hkdfKey [OF laws(2)]
    by (auto simp: rotateSendKeyIfNeeded_def s1 rr time_now_def [of s3] writer_ready_def
        deriveRotatedKey_def)
qed

lemma send_op_ok:
  assumes laws: "crypto_laws C" and r: "writer_ready s (room + op_cost x) (Suc n)"
    and p: "length (op_payload x) + 29 \<le> unat (maxPayload (sc_cfg s))"
  shows "\<exists>s'. send_op C x s = (None, s') \<and> writer_ready s' room n \<and> sc_cfg s' = sc_cfg s"
proof -
  from laws have l: "seal_len C" "hmac_len C" by (simp_all add: crypto_laws_def)
  from r have "writer_ready s ((room + length (op_payload x) + 40) + 72) (Suc n)"
    by (simp add: op_cost_def ac_simps)
  from rotate_ok [OF l this] obtain s1 where s1: "rotateSendKeyIfNeeded C s = (None, s1)"
      "writer_ready s1 (room + length (op_payload x) + 40) n" "sc_cfg s1 = sc_cfg s" by blast
  have "\<exists>s'. writeInner C t (op_payload x) s = (None, s') \<and> writer_ready s' room n \<and>
      sc_cfg s' = sc_cfg s" for t
    using encryptAndWrite_ok [OF l(1) s1(2), of t] p s1 by (auto simp: writeInner_def)
  then show ?thesis by (cases x) (simp_all add: scWrite_def sendPing_def sendPong_def)
qed

lemma send_ops_ok:
  assumes "crypto_laws C" and "writer_ready s (sum_list (map op_cost xs)) (length xs)"
    and "\<forall>x\<in>set xs. length (op_payload x) + 29 \<le> unat (maxPayload (sc_cfg s))"
  shows "\<exists>s'. send_ops C xs s = (None, s')"
  using assms(2,3)
proof (induction xs arbitrary: s)
  case Nil
  then show ?case by simp
next
  case (Cons x xs)
  then have "writer_ready s (sum_list (map op_cost xs) + op_cost x) (Suc (length xs))"
    by (simp add: add.commute)
  from send_op_ok [OF assms(1) this] Cons.prems(2) obtain s1 where
    "send_op C x s = (None, s1)" "writer_ready s1 (sum_list (map op_cost xs)) (length xs)"
    "sc_cfg s1 = sc_cfg s" by auto
  with Cons.IH [of s1] Cons.prems(2) show ?case by auto
qed

section \<open>Properties\<close>

text \<open>A writer whose clock advances 400 seconds at every reading, and its peer.\<close>

definition sample_writer :: secure_conn where
  "sample_writer = newSecureConn (sample_conn []) sample_cfg (replicate 32 1) (replicate 32 2)
     (\<lambda>n. int n * 400000000000) 0 (replicate 320 9)"

definition sample_reader :: "bytes \<Rightarrow> secure_conn" where
  "sample_reader bs = newSecureConn (sample_conn bs) sample_cfg (replicate 32 2) (replicate 32 1)
     (\<lambda>n. 0) 0 []"

definition sample_ops :: "conn_op list" where
  "sample_ops = [OpPing, OpData [7, 8], OpData [], OpPong, OpData [1]]"

lemma sample_laws: "crypto_laws toy_crypto"
  by (simp add: crypto_laws_def toy_laws)

lemma sample_writer_ready:
  "writer_ready sample_writer (sum_list (map op_cost sample_ops)) (length sample_ops)"
  by (simp add: writer_ready_def sample_writer_def newSecureConn_def Let_def sample_ops_def
      op_cost_def)

lemma sample_in_sync: "in_sync sample_writer (sample_reader bs)"
  unfolding sample_writer_def sample_reader_def by (rule in_sync_new) simp_all

lemma sample_writer_simps [simp]:
  "sc_cfg sample_writer = sample_cfg" "outgoing (sc_conn sample_writer) = []"
  "ks_seq (sendKey sample_writer) = 0" "incoming (sc_conn (sample_reader bs)) = bs"
  by (simp_all add: sample_writer_def sample_reader_def newSecureConn_def Let_def)

lemma sample_ops_small [simp]:
  "list_all op_small sample_ops" "op_data sample_ops = [[7, 8], [], [1]]"
  "length sample_ops = 5" "\<forall>x\<in>set sample_ops. length (op_payload x) + 29 \<le> 4194304"
  by (simp_all add: sample_ops_def)

text \<open>
  C1: Delivery. Any sequence of successful \<open>Write\<close>, \<open>SendPing\<close> and \<open>SendPong\<close> calls on one end,
  with its automatic key rotations at whatever times the clock demands, makes the \<open>Read\<close> calls
  of the other end return exactly the written payloads, in order, without error.
\<close>

theorem secure_delivery:
  assumes "crypto_laws C" and "in_sync a b" and "list_all op_small xs"
    and "send_ops C xs a = (None, a')"
    and "unat (ks_seq (sendKey a)) + length xs < 2 ^ 64"
    and "outgoing (sc_conn a') = outgoing (sc_conn a) @ bs"
    and "incoming (sc_conn b) = bs @ rest"
  shows "\<exists>b'. recv_n (scRead C) (length (op_data xs)) b = (op_data xs, None, b')"
proof -
  have "length (ks_key (sendKey a)) = 32" using assms(2) by (simp add: in_sync_def)
  from send_ops_read [OF assms(4,1,3) this assms(5)] assms(2,6,7) show ?thesis by auto
qed

theorem secure_delivery_witness:
  "\<exists>a' b'. send_ops toy_crypto sample_ops sample_writer = (None, a') \<and>
     recv_n (scRead toy_crypto) 3 (sample_reader (outgoing (sc_conn a'))) =
       ([[7, 8], [], [1]], None, b')"
proof -
  obtain a' where a': "send_ops toy_crypto sample_ops sample_writer = (None, a')"
    using send_ops_ok [OF sample_laws sample_writer_ready] sample_ops_small by auto
  have "\<exists>b'. recv_n (scRead toy_crypto) (length (op_data sample_ops))
      (sample_reader (outgoing (sc_conn a'))) = (op_data sample_ops, None, b')"
    by (rule secure_delivery [OF sample_laws sample_in_sync sample_ops_small(1) a',
          where bs = "outgoing (sc_conn a')" and rest = "[]"])
      (simp_all add: sample_ops_small)
  then show ?thesis using a' by (simp add: numeral_3_eq_3)
qed

text \<open>
  Writes succeed. On an open connection whose network still takes the bytes, with salt for
  the rotations and payloads within the frame limit, no operation of a sequence fails, whatever
  the clock says.
\<close>

theorem secure_writes_succeed:
  assumes "crypto_laws C" and "writer_ready s (sum_list (map op_cost xs)) (length xs)"
    and "\<forall>x\<in>set xs. length (op_payload x) + 29 \<le> unat (maxPayload (sc_cfg s))"
  shows "fst (send_ops C xs s) = None"
  using send_ops_ok [OF assms] by auto

theorem secure_writes_succeed_witness:
  "fst (send_ops toy_crypto sample_ops sample_writer) = None"
  using secure_writes_succeed [OF sample_laws sample_writer_ready] by simp

text \<open>
  C6: No record is accepted twice. Let an attacker feed a new connection with any frames, in any
  order and with any repetitions, between the connection's own writes: the key and sequence
  numbers of the records that pass are pairwise different, across key rotations and the grace
  period of old keys (up to the point where the 32-bit key number would wrap).
\<close>

theorem no_record_twice:
  assumes "attacked C (newSecureConn c cfg sk rk clk t e) log b" and "length log + 2 < 2 ^ 32"
  shows "distinct log"
  using attacked_log_inv [OF assms(1) new_log_inv assms(2)] by simp

lemma sample_record_accepted:
  "\<exists>b. attacked toy_crypto (sample_reader []) [(1, 5)] b"
proof -
  let ?k = "\<lparr>ks_id = 1, ks_key = replicate 32 1, ks_created = 0, ks_expires = 0, ks_seq = 5,
    ks_replay = newReplayWindow (replaySize sample_cfg)\<rparr>"
  have k: "recvKey (sample_reader []) = Some (?k\<lparr>ks_seq := 0\<rparr>)"
    by (simp add: sample_reader_def newSecureConn_def Let_def)
  have "fst (accept (newReplayWindow (replaySize sample_cfg)) 5)"
    by (rule accept_newer [OF tracks_new]) simp_all
  then obtain w where "accept (newReplayWindow (replaySize sample_cfg)) 5 = (True, w)"
    by (cases "accept (newReplayWindow (replaySize sample_cfg)) 5") auto
  then obtain b where "open_record toy_crypto (record_frame toy_crypto sample_cfg ?k innerData [3])
      (sample_reader []) = (Inr (Some (innerData, [3])), b)"
    using open_next_record(1) [OF toy_laws(2) k, of ?k sample_cfg w innerData "[3]"]
    by (simp add: innerData_def innerKeyUpdate_def sample_reader_def newSecureConn_def Let_def)
  then have "open_record toy_crypto (record_frame toy_crypto sample_cfg ?k innerData [3])
      ((sample_reader [])\<lparr>sc_conn := sc_conn (sample_reader [])\<rparr>) =
        (Inr (Some (innerData, [3])), b)" by simp
  from attacked.accepted [OF attacked.start this] show ?thesis by (auto simp: record_id_def)
qed

theorem no_record_twice_witness:
  "\<exists>b. attacked toy_crypto (sample_reader []) [(1, 5)] b \<and>
     distinct [(1 :: 32 word, 5 :: 64 word)]"
proof -
  obtain b where a: "attacked toy_crypto (sample_reader []) [(1, 5)] b"
    using sample_record_accepted by blast
  from no_record_twice [OF a [unfolded sample_reader_def]] a show ?thesis by auto
qed

end
