(* ===== verification/Handshake.thy ===== *)
theory Handshake
  imports Secure_Channel
begin

text \<open>
  \<^verbatim>\<open>tcpx/handshake.go\<close>: the two sides of the key exchange. Both take the clock and the random
  bytes they will use; they return either the error with the raw connection, which the
  callers close, or the encrypted connection.
\<close>

section \<open>Model\<close>

definition clientHelloSize :: nat where "clientHelloSize = 32"
definition serverProofSize :: nat where "serverProofSize = 24"

definition handshakeTranscript :: "base_config \<Rightarrow> bytes \<Rightarrow> bytes \<Rightarrow> bytes" where
  "handshakeTranscript cfg clientPub serverPub =
     str_bytes ''tcpx-handshake-v1'' @ put_u32 (magic cfg) @ put_u16 (version cfg)
       @ clientPub @ serverPub"

definition deriveSessionKeys :: "crypto \<Rightarrow> bytes \<Rightarrow> bytes \<Rightarrow> bytes \<times> bytes" where
  "deriveSessionKeys C dh transcript =
     (let prk = hkdfExtract C transcript dh
      in (hkdfExpand C prk (str_bytes ''tcpx c2s aes-gcm v1'') 32,
          hkdfExpand C prk (str_bytes ''tcpx s2c aes-gcm v1'') 32))"

definition proofTag :: bytes where "proofTag = str_bytes ''SOK1''"

type_synonym handshake_result = "(tcp_error \<times> net_conn) + secure_conn"

definition clientHandshake ::
    "crypto \<Rightarrow> base_config \<Rightarrow> bytes \<Rightarrow> net_conn \<Rightarrow> (nat \<Rightarrow> int) \<Rightarrow> nat \<Rightarrow> bytes \<Rightarrow> handshake_result"
  where
  "clientHandshake C cfg serverPub conn clk ticks ent =
     (if length ent < 32 then Inl (ErrRand, conn)
      else
        let eph = take 32 ent; ent1 = drop 32 ent; clientPub = ecdh_pub C eph
        in case writeFrame cfg frameHandshakeClient clientPub conn of
             (Some e, c1) \<Rightarrow> Inl (e, c1)
           | (None, c1) \<Rightarrow>
               (case ecdh C eph serverPub of
                  None \<Rightarrow> Inl (ErrECDH, c1)
                | Some dh \<Rightarrow>
                    let transcript = handshakeTranscript cfg clientPub serverPub;
                        (c2s, s2c) = deriveSessionKeys C dh transcript
                    in case readFrame cfg c1 of
                         (Inl e, c2) \<Rightarrow> Inl (e, c2)
                       | (Inr fr, c2) \<Rightarrow>
                           if fr_type fr \<noteq> frameHandshakeServer \<or> length (fr_payload fr) < 12
                             then Inl (ErrHandshake, c2)
                           else (case newAEAD s2c of
                                   Inl e \<Rightarrow> Inl (e, c2)
                                 | Inr key \<Rightarrow>
                                     (case aopen C key (take 12 (fr_payload fr))
                                             (drop 12 (fr_payload fr)) transcript of
                                        None \<Rightarrow> Inl (ErrHandshakeMsg ''server proof invalid'', c2)
                                      | Some proof \<Rightarrow>
                                          if length proof \<noteq> serverProofSize \<or>
                                             take 4 proof \<noteq> proofTag
                                            then Inl (ErrHandshakeMsg ''bad server proof'', c2)
                                          else Inr (newSecureConn c2 cfg c2s s2c clk ticks ent1)))))"

definition unix_seconds :: "int \<Rightarrow> 64 word" where
  "unix_seconds ns = word_of_int (ns div second)"

definition serverHandshake ::
    "crypto \<Rightarrow> base_config \<Rightarrow> bytes \<Rightarrow> net_conn \<Rightarrow> (nat \<Rightarrow> int) \<Rightarrow> nat \<Rightarrow> bytes \<Rightarrow> handshake_result"
  where
  "serverHandshake C cfg serverPriv conn clk ticks ent =
     (case readFrame cfg conn of
        (Inl e, c1) \<Rightarrow> Inl (e, c1)
      | (Inr fr, c1) \<Rightarrow>
          if fr_type fr \<noteq> frameHandshakeClient \<or> length (fr_payload fr) \<noteq> clientHelloSize
            then Inl (ErrHandshake, c1)
          else
            let clientPub = fr_payload fr
            in if length clientPub \<noteq> 32
                 then Inl (ErrHandshakeMsg ''bad client public key'', c1)
               else (case ecdh C serverPriv clientPub of
                  None \<Rightarrow> Inl (ErrECDH, c1)
                | Some dh \<Rightarrow>
                    let serverPub = ecdh_pub C serverPriv;
                        transcript = handshakeTranscript cfg clientPub serverPub;
                        (c2s, s2c) = deriveSessionKeys C dh transcript;
                        stamp = put_u64 (unix_seconds (clk ticks))
                    in if length ent < 12 then Inl (ErrRand, c1)
                       else
                         let proof = proofTag @ stamp @ take 12 ent; ent1 = drop 12 ent
                         in if length ent1 < 12 then Inl (ErrRand, c1)
                            else
                              let nonce = take 12 ent1; ent2 = drop 12 ent1
                              in case newAEAD s2c of
                                   Inl e \<Rightarrow> Inl (e, c1)
                                 | Inr key \<Rightarrow>
                                     (case writeFrame cfg frameHandshakeServer
                                             (nonce @ seal C key nonce proof transcript) c1 of
                                        (Some e, c2) \<Rightarrow> Inl (e, c2)
                                      | (None, c2) \<Rightarrow>
                                          Inr (newSecureConn c2 cfg s2c c2s clk (Suc ticks) ent2))))"

section \<open>What a completed handshake gives\<close>

text \<open>The two keys of a session between a client's ephemeral key and a server key.\<close>

definition session_keys :: "crypto \<Rightarrow> base_config \<Rightarrow> bytes \<Rightarrow> bytes \<Rightarrow> bytes \<Rightarrow> bytes \<times> bytes" where
  "session_keys C cfg dh clientPub serverPub =
     deriveSessionKeys C dh (handshakeTranscript cfg clientPub serverPub)"

lemma length_session_keys:
  "hmac_len C \<Longrightarrow> length (fst (session_keys C cfg dh cp sp)) = 32"
  "hmac_len C \<Longrightarrow> length (snd (session_keys C cfg dh cp sp)) = 32"
  by (simp_all add: session_keys_def deriveSessionKeys_def Let_def length_hkdfExpand)

lemma length_proofTag [simp]: "length proofTag = 4"
  by (simp add: proofTag_def)

definition hello_frame :: "crypto \<Rightarrow> base_config \<Rightarrow> bytes \<Rightarrow> frame" where
  "hello_frame C cfg eph =
     \<lparr>fr_magic = magic cfg, fr_version = version cfg, fr_type = frameHandshakeClient,
      fr_payload = ecdh_pub C eph\<rparr>"

lemma serverHandshake_hello:
  assumes "ecdh_ok C" and "hmac_len C" and "length eph = 32" and "length spriv = 32"
    and sc: "open_with sc (frame_bytes cfg (hello_frame C cfg eph) @ rest)"
    and room: "32 \<le> unat (maxPayload cfg)"
    and h: "serverHandshake C cfg spriv sc clk ticks ent = Inr S"
  shows "\<exists>dh c2. ecdh C eph (ecdh_pub C spriv) = Some dh \<and>
     (let (c2s, s2c) = session_keys C cfg dh (ecdh_pub C eph) (ecdh_pub C spriv);
          transcript = handshakeTranscript cfg (ecdh_pub C eph) (ecdh_pub C spriv);
          proof = proofTag @ put_u64 (unix_seconds (clk ticks)) @ take 12 ent;
          nonce = take 12 (drop 12 ent)
      in S = newSecureConn c2 cfg s2c c2s clk (Suc ticks) (drop 12 (drop 12 ent)) \<and>
         24 \<le> length ent \<and> \<not> shut c2 \<and> incoming c2 = rest \<and>
         (\<exists>c1. outgoing c1 = outgoing sc \<and>
            writeFrame cfg frameHandshakeServer (nonce @ seal C s2c nonce proof transcript) c1 =
              (None, c2)))"
proof -
  from assms(1,3,4) have pub: "length (ecdh_pub C eph) = 32"
      "ecdh C spriv (ecdh_pub C eph) = ecdh C eph (ecdh_pub C spriv)"
    by (auto simp: ecdh_ok_def)
  have sd: "sendable_frame cfg (hello_frame C cfg eph)"
    using room pub by (simp add: sendable_frame_def hello_frame_def)
  let ?c1 = "(arm_read cfg sc)\<lparr>incoming := rest\<rparr>"
  have rf: "readFrame cfg sc = (Inr (hello_frame C cfg eph), ?c1)"
    by (rule readFrame_frame [OF sd sc])
  from h obtain dh where dh: "ecdh C eph (ecdh_pub C spriv) = Some dh"
    by (auto simp: serverHandshake_def rf hello_frame_def pub split: if_splits option.splits)
  obtain c2s s2c where ks: "session_keys C cfg dh (ecdh_pub C eph) (ecdh_pub C spriv) = (c2s, s2c)"
    by fastforce
  with length_session_keys [OF assms(2), of cfg dh "ecdh_pub C eph" "ecdh_pub C spriv"]
  have l: "newAEAD s2c = Inr s2c" by (simp add: newAEAD_def)
  from h obtain c2 where
      w: "writeFrame cfg frameHandshakeServer (take 12 (drop 12 ent) @
            seal C s2c (take 12 (drop 12 ent))
              (proofTag @ put_u64 (unix_seconds (clk ticks)) @ take 12 ent)
              (handshakeTranscript cfg (ecdh_pub C eph) (ecdh_pub C spriv))) ?c1 = (None, c2)"
    and S: "S = newSecureConn c2 cfg s2c c2s clk (Suc ticks) (drop 12 (drop 12 ent))"
    and ent: "24 \<le> length ent"
    using ks l
    by (auto simp: serverHandshake_def rf hello_frame_def pub dh session_keys_def clientHelloSize_def
        Let_def split: if_splits option.splits prod.splits)
  from writeFrame_same [OF w] sc have "\<not> shut c2" "incoming c2 = rest"
    by (simp_all add: open_with_def)
  moreover have "outgoing ?c1 = outgoing sc" by simp
  ultimately show ?thesis using w S ent dh ks
    by (intro exI [of _ dh] exI [of _ c2]) (auto simp only: Let_def ks prod.case)
qed

text \<open>The reply of a server, and the client that reads it.\<close>

definition reply_frame ::
    "crypto \<Rightarrow> base_config \<Rightarrow> bytes \<Rightarrow> bytes \<Rightarrow> bytes \<Rightarrow> bytes \<Rightarrow> frame" where
  "reply_frame C cfg s2c transcript proof nonce =
     \<lparr>fr_magic = magic cfg, fr_version = version cfg, fr_type = frameHandshakeServer,
      fr_payload = nonce @ seal C s2c nonce proof transcript\<rparr>"

lemma clientHandshake_reply:
  fixes C cfg eph spub dh
  defines "transcript \<equiv> handshakeTranscript cfg (ecdh_pub C eph) spub"
    and "ks \<equiv> session_keys C cfg dh (ecdh_pub C eph) spub"
  assumes laws: "crypto_laws C" and ent: "32 \<le> length ent" "eph = take 32 ent"
    and dh: "ecdh C eph spub = Some dh" and pub: "length (ecdh_pub C eph) = 32"
    and room: "52 \<le> unat (maxPayload cfg)" "43 \<le> wr_room cc" "\<not> shut cc"
    and n: "length nonce = 12" and proof_ok: "length proof = 24" "take 4 proof = proofTag"
    and inc: "incoming cc = frame_bytes cfg (reply_frame C cfg (snd ks) transcript proof nonce) @ rest"
  shows "\<exists>c. clientHandshake C cfg spub cc clk ticks ent =
      Inr (newSecureConn c cfg (fst ks) (snd ks) clk ticks (drop 32 ent)) \<and>
      outgoing c = outgoing cc @ frame_bytes cfg (hello_frame C cfg eph) \<and>
      incoming c = rest \<and> \<not> shut c \<and> wr_room c = wr_room cc - 43"
proof -
  from laws have l: "aead_ok C" "hmac_len C" "seal_len C" by (simp_all add: crypto_laws_def)
  let ?fr = "reply_frame C cfg (snd ks) transcript proof nonce"
  obtain c1 where w: "writeFrame cfg frameHandshakeClient (ecdh_pub C eph) cc = (None, c1)"
      "outgoing c1 = outgoing cc @ frame_bytes cfg (hello_frame C cfg eph)" "shut c1 = shut cc"
      "incoming c1 = incoming cc" "wr_room c1 = wr_room cc - 43"
    using writeFrame_ok [of "ecdh_pub C eph" cfg cc frameHandshakeClient] room pub
    by (auto simp: headerSize_def hello_frame_def)
  have sd: "sendable_frame cfg ?fr"
    using room l(3) n proof_ok by (simp add: sendable_frame_def reply_frame_def seal_len_def)
  have "open_with c1 (frame_bytes cfg ?fr @ rest)" using w inc room by (simp add: open_with_def)
  from readFrame_frame [OF sd this]
  have rf: "readFrame cfg c1 = (Inr ?fr, (arm_read cfg c1)\<lparr>incoming := rest\<rparr>)" .
  have ks32: "length (fst ks) = 32" "length (snd ks) = 32"
    using length_session_keys [OF l(2)] by (simp_all add: ks_def)
  have dk: "deriveSessionKeys C dh transcript = (fst ks, snd ks)"
    by (simp add: ks_def session_keys_def transcript_def)
  have op: "aopen C (snd ks) nonce (seal C (snd ks) nonce proof transcript) transcript = Some proof"
    using l(1) ks32 n by (simp add: aead_ok_def)
  have "clientHandshake C cfg spub cc clk ticks ent =
      Inr (newSecureConn ((arm_read cfg c1)\<lparr>incoming := rest\<rparr>) cfg (fst ks) (snd ks) clk ticks
        (drop 32 ent))"
    using ent(1) ks32 n proof_ok op
    by (simp add: clientHandshake_def Let_def ent(2) [symmetric] w(1) dh rf dk newAEAD_def
        transcript_def [symmetric]) (simp add: reply_frame_def serverProofSize_def
        case_prod_beta newAEAD_def)
  moreover have "wr_room ((arm_read cfg c1)\<lparr>incoming := rest\<rparr>) = wr_room c1"
    by (simp add: arm_read_def)
  ultimately show ?thesis using w room by auto
qed

text \<open>Both together.\<close>

lemma handshake_both:
  assumes laws: "crypto_laws C" "ecdh_ok C" and keys: "length spriv = 32" "32 \<le> length cent"
    and room: "52 \<le> unat (maxPayload cfg)" "43 \<le> wr_room cc" "\<not> shut cc"
    and sc: "open_with sc (frame_bytes cfg (hello_frame C cfg (take 32 cent)) @ srest)"
    and h: "serverHandshake C cfg spriv sc sclk st sent = Inr S"
    and reply: "outgoing (sc_conn S) = outgoing sc @ reply" and cc: "incoming cc = reply @ crest"
  shows "\<exists>K. clientHandshake C cfg (ecdh_pub C spriv) cc cclk ct cent = Inr K \<and>
     outgoing (sc_conn K) = outgoing cc @ frame_bytes cfg (hello_frame C cfg (take 32 cent)) \<and>
     incoming (sc_conn K) = crest \<and> incoming (sc_conn S) = srest \<and>
     ks_seq (sendKey K) = 0 \<and> ks_seq (sendKey S) = 0 \<and> in_sync K S \<and> in_sync S K \<and> sc_cfg K = cfg \<and>
     (61 \<le> unat (maxPayload cfg) \<longrightarrow> writer_ready K (wr_room cc - 43) ((length cent - 32) div 32))"
proof -
  let ?eph = "take 32 cent" and ?spub = "ecdh_pub C spriv"
  from laws have l: "aead_ok C" "hmac_len C" "seal_len C" by (simp_all add: crypto_laws_def)
  have e32: "length ?eph = 32" using keys by simp
  have pub: "length (ecdh_pub C ?eph) = 32" using laws(2) e32 keys(1) unfolding ecdh_ok_def by blast
  obtain dh c2 c1 where dh: "ecdh C ?eph ?spub = Some dh"
    and S: "S = newSecureConn c2 cfg (snd (session_keys C cfg dh (ecdh_pub C ?eph) ?spub))
        (fst (session_keys C cfg dh (ecdh_pub C ?eph) ?spub)) sclk (Suc st) (drop 12 (drop 12 sent))"
    and sent: "24 \<le> length sent" and c2: "\<not> shut c2" "incoming c2 = srest"
    and c1: "outgoing c1 = outgoing sc" "writeFrame cfg frameHandshakeServer
        (fr_payload (reply_frame C cfg (snd (session_keys C cfg dh (ecdh_pub C ?eph) ?spub))
          (handshakeTranscript cfg (ecdh_pub C ?eph) ?spub)
          (proofTag @ put_u64 (unix_seconds (sclk st)) @ take 12 sent)
          (take 12 (drop 12 sent)))) c1 = (None, c2)"
    using serverHandshake_hello [OF laws(2) l(2) e32 keys(1) sc _ h] room(1)
    by (auto simp: Let_def case_prod_beta reply_frame_def)
  have "outgoing c2 = outgoing c1 @ encode_frame cfg frameHandshakeServer
      (fr_payload (reply_frame C cfg (snd (session_keys C cfg dh (ecdh_pub C ?eph) ?spub))
          (handshakeTranscript cfg (ecdh_pub C ?eph) ?spub)
          (proofTag @ put_u64 (unix_seconds (sclk st)) @ take 12 sent)
          (take 12 (drop 12 sent))))"
    using c1(2) by (auto simp: writeFrame_def net_write_def split: if_splits)
  with reply S c1(1) have reply': "reply = frame_bytes cfg
      (reply_frame C cfg (snd (session_keys C cfg dh (ecdh_pub C ?eph) ?spub))
          (handshakeTranscript cfg (ecdh_pub C ?eph) ?spub)
          (proofTag @ put_u64 (unix_seconds (sclk st)) @ take 12 sent)
          (take 12 (drop 12 sent)))"
    by (simp add: newSecureConn_def Let_def reply_frame_def)
  have len: "length (take 12 (drop 12 sent)) = 12"
      "length (proofTag @ put_u64 (unix_seconds (sclk st)) @ take 12 sent) = 24"
      "take 4 (proofTag @ put_u64 (unix_seconds (sclk st)) @ take 12 sent) = proofTag"
    using sent by simp_all
  from clientHandshake_reply [OF laws(1) keys(2) refl dh pub room len cc [unfolded reply'],
      of cclk ct]
  obtain c where K: "clientHandshake C cfg ?spub cc cclk ct cent =
      Inr (newSecureConn c cfg (fst (session_keys C cfg dh (ecdh_pub C ?eph) ?spub))
        (snd (session_keys C cfg dh (ecdh_pub C ?eph) ?spub)) cclk ct (drop 32 cent))"
      "outgoing c = outgoing cc @ frame_bytes cfg (hello_frame C cfg ?eph)"
      "incoming c = crest" "\<not> shut c" "wr_room c = wr_room cc - 43"
    by blast
  note k32 = length_session_keys [OF l(2), of cfg dh "ecdh_pub C ?eph" ?spub]
  have "61 \<le> unat (maxPayload cfg) \<longrightarrow> writer_ready (newSecureConn c cfg
      (fst (session_keys C cfg dh (ecdh_pub C ?eph) ?spub))
      (snd (session_keys C cfg dh (ecdh_pub C ?eph) ?spub)) cclk ct (drop 32 cent))
      (wr_room cc - 43) ((length cent - 32) div 32)"
    using K(4,5) k32 by (auto simp: writer_ready_def newSecureConn_def Let_def)
  with K S c2 in_sync_new k32 show ?thesis by (auto simp: newSecureConn_def Let_def)
qed

text \<open>A client handshake that succeeds has written its hello and holds the session's keys.\<close>

lemma clientHandshake_InrD:
  assumes h: "clientHandshake C cfg spub cc clk ticks ent = Inr K"
    and pub: "length (ecdh_pub C (take 32 ent)) < 2 ^ 32"
  shows "\<exists>dh c. ecdh C (take 32 ent) spub = Some dh \<and>
    outgoing c = outgoing cc @ frame_bytes cfg (hello_frame C cfg (take 32 ent)) \<and>
    K = newSecureConn c cfg (fst (session_keys C cfg dh (ecdh_pub C (take 32 ent)) spub))
          (snd (session_keys C cfg dh (ecdh_pub C (take 32 ent)) spub)) clk ticks (drop 32 ent)"
proof -
  let ?cp = "ecdh_pub C (take 32 ent)"
  from h obtain c1 dh fr c2 where
      w: "writeFrame cfg frameHandshakeClient ?cp cc = (None, c1)"
    and dh: "ecdh C (take 32 ent) spub = Some dh" and r: "readFrame cfg c1 = (Inr fr, c2)"
    by (auto simp: clientHandshake_def Let_def split: if_splits prod.splits option.splits sum.splits)
  have K: "K = newSecureConn c2 cfg (fst (session_keys C cfg dh ?cp spub))
      (snd (session_keys C cfg dh ?cp spub)) clk ticks (drop 32 ent)"
    using h by (auto simp: clientHandshake_def Let_def w dh r session_keys_def
        split: if_splits prod.splits option.splits sum.splits)
  have "outgoing c1 = outgoing cc @ frame_bytes cfg (hello_frame C cfg (take 32 ent))"
    using w by (auto simp: writeFrame_def net_write_def hello_frame_def split: if_splits)
  moreover have "outgoing c2 = outgoing c1" using readFrame_SomeD [OF r] by auto
  ultimately show ?thesis using dh K by auto
qed

text \<open>A server handshake succeeds on a hello when the random source and the network allow it.\<close>

lemma serverHandshake_ok:
  assumes "ecdh_ok C" and l: "hmac_len C" "seal_len C" and len: "length eph = 32" "length spriv = 32"
    and sc: "open_with sc (frame_bytes cfg (hello_frame C cfg eph) @ rest)"
    and room: "52 \<le> unat (maxPayload cfg)" "63 \<le> wr_room sc" and ent: "24 \<le> length ent"
    and dh: "ecdh C eph (ecdh_pub C spriv) = Some dh"
  shows "\<exists>S. serverHandshake C cfg spriv sc clk ticks ent = Inr S"
proof -
  from assms(1) len have pub: "length (ecdh_pub C eph) = 32"
      "ecdh C spriv (ecdh_pub C eph) = Some dh"
    using dh by (auto simp: ecdh_ok_def)
  have sd: "sendable_frame cfg (hello_frame C cfg eph)"
    using room pub by (simp add: sendable_frame_def hello_frame_def)
  let ?c1 = "(arm_read cfg sc)\<lparr>incoming := rest\<rparr>"
  have rf: "readFrame cfg sc = (Inr (hello_frame C cfg eph), ?c1)"
    by (rule readFrame_frame [OF sd sc])
  obtain c2s s2c where ks: "session_keys C cfg dh (ecdh_pub C eph) (ecdh_pub C spriv) = (c2s, s2c)"
    by fastforce
  with length_session_keys [OF l(1), of cfg dh "ecdh_pub C eph" "ecdh_pub C spriv"]
  have k: "newAEAD s2c = Inr s2c" by (simp add: newAEAD_def)
  let ?p = "take 12 (drop 12 ent) @ seal C s2c (take 12 (drop 12 ent))
      (proofTag @ put_u64 (unix_seconds (clk ticks)) @ take 12 ent)
      (handshakeTranscript cfg (ecdh_pub C eph) (ecdh_pub C spriv))"
  have "length ?p = 52" using l(2) ent by (simp add: seal_len_def)
  moreover have "wr_room ?c1 = wr_room sc" "shut ?c1 = shut sc" by (simp_all add: arm_read_def)
  ultimately obtain c2 where "writeFrame cfg frameHandshakeServer ?p ?c1 = (None, c2)"
    using writeFrame_ok [of ?p cfg ?c1 frameHandshakeServer] room sc
    by (auto simp: headerSize_def open_with_def)
  moreover have "\<not> length ent < 12" "\<not> length (drop 12 ent) < 12" using ent by auto
  ultimately show ?thesis using ks k pub
    by (simp add: serverHandshake_def rf Let_def clientHelloSize_def session_keys_def)
       (simp add: hello_frame_def pub ks [unfolded session_keys_def])
qed

text \<open>
  What a client sent from its first byte, sent to a server on some connection: after the server's
  handshake its end is in step with the client's state right after the client's own handshake.
\<close>

lemma recorded_in_sync:
  assumes "crypto_laws C" and "ecdh_ok C" and "length spriv = 32" and "32 \<le> length cent"
    and "52 \<le> unat (maxPayload cfg)"
    and "clientHandshake C cfg (ecdh_pub C spriv) cc cclk ct cent = Inr K"
  shows "length (ks_key (sendKey K)) = 32 \<and> ks_seq (sendKey K) = 0 \<and>
    (\<exists>hello. outgoing (sc_conn K) = outgoing cc @ hello \<and>
      (\<forall>sc bs sclk st sent S. open_with sc (hello @ bs) \<longrightarrow>
         serverHandshake C cfg spriv sc sclk st sent = Inr S \<longrightarrow>
         in_sync K S \<and> incoming (sc_conn S) = bs))"
proof -
  let ?cp = "ecdh_pub C (take 32 cent)" and ?spub = "ecdh_pub C spriv"
  from assms(1) have l: "aead_ok C" "hmac_len C" "seal_len C" by (simp_all add: crypto_laws_def)
  have e32: "length (take 32 cent) = 32" using assms(4) by simp
  have pub: "length ?cp = 32" using assms(2,3) e32 unfolding ecdh_ok_def by blast
  from clientHandshake_InrD [OF assms(6)] pub obtain dh c where
      dh: "ecdh C (take 32 cent) ?spub = Some dh"
    and out: "outgoing c = outgoing cc @ frame_bytes cfg (hello_frame C cfg (take 32 cent))"
    and K: "K = newSecureConn c cfg (fst (session_keys C cfg dh ?cp ?spub))
      (snd (session_keys C cfg dh ?cp ?spub)) cclk ct (drop 32 cent)" by auto
  have k32: "length (fst (session_keys C cfg dh ?cp ?spub)) = 32"
    using length_session_keys [OF l(2)] by simp
  have "in_sync K S \<and> incoming (sc_conn S) = bs"
    if sc: "open_with sc (frame_bytes cfg (hello_frame C cfg (take 32 cent)) @ bs)"
      and sh: "serverHandshake C cfg spriv sc sclk st sent = Inr S" for sc bs sclk st sent S
  proof -
    from serverHandshake_hello [OF assms(2) l(2) e32 assms(3) sc _ sh] assms(5) dh
    obtain c2 where S: "S = newSecureConn c2 cfg (snd (session_keys C cfg dh ?cp ?spub))
        (fst (session_keys C cfg dh ?cp ?spub)) sclk (Suc st) (drop 12 (drop 12 sent))"
      and c2: "\<not> shut c2" "incoming c2 = bs"
      by (auto simp: Let_def case_prod_beta)
    have "in_sync K S" unfolding K S using k32 c2 by (intro in_sync_new) simp_all
    with c2 show ?thesis by (simp add: S newSecureConn_def Let_def)
  qed
  with out k32 show ?thesis by (auto simp: K newSecureConn_def Let_def)
qed

section \<open>Properties\<close>

definition sample_priv :: bytes where "sample_priv = replicate 32 7"
definition sample_eph :: bytes where "sample_eph = replicate 32 5"

lemma length_sample_keys [simp]: "length sample_priv = 32" "length sample_eph = 32"
  by (simp_all add: sample_priv_def sample_eph_def)

lemma sample_dh: "\<exists>dh. ecdh toy_crypto e (ecdh_pub toy_crypto p) = Some dh"
  by (simp add: toy_crypto_def)

abbreviation sample_hello :: bytes where
  "sample_hello \<equiv> frame_bytes sample_cfg (hello_frame toy_crypto sample_cfg sample_eph)"

lemma sample_server:
  "\<exists>S. serverHandshake toy_crypto sample_cfg sample_priv (sample_conn (sample_hello @ rest)) clk t
     (replicate 24 e) = Inr S"
proof -
  obtain dh where "ecdh toy_crypto sample_eph (ecdh_pub toy_crypto sample_priv) = Some dh"
    using sample_dh by blast
  then show ?thesis
    by (intro serverHandshake_ok [OF toy_laws(4,1,3), of sample_eph _ _ _ rest]) simp_all
qed

lemma sample_client:
  assumes S: "serverHandshake toy_crypto sample_cfg sample_priv (sample_conn (sample_hello @ []))
      sclk st sent = Inr S"
  shows "\<exists>K. clientHandshake toy_crypto sample_cfg (ecdh_pub toy_crypto sample_priv)
      (sample_conn (outgoing (sc_conn S))) clk t (sample_eph @ replicate 320 9) = Inr K \<and>
    outgoing (sc_conn K) = sample_hello \<and> writer_ready K 1957 10 \<and> sc_cfg K = sample_cfg \<and>
    ks_seq (sendKey K) = 0"
proof -
  let ?ent = "sample_eph @ replicate 320 9"
  have t: "take 32 ?ent = sample_eph" by simp
  have h: "open_with (sample_conn (sample_hello @ [])) (frame_bytes sample_cfg
      (hello_frame toy_crypto sample_cfg (take 32 ?ent)) @ [])" by (simp add: t)
  have "\<exists>K. clientHandshake toy_crypto sample_cfg (ecdh_pub toy_crypto sample_priv)
      (sample_conn (outgoing (sc_conn S))) clk t ?ent = Inr K \<and>
     outgoing (sc_conn K) = outgoing (sample_conn (outgoing (sc_conn S))) @
       frame_bytes sample_cfg (hello_frame toy_crypto sample_cfg (take 32 ?ent)) \<and>
     incoming (sc_conn K) = [] \<and> incoming (sc_conn S) = [] \<and>
     ks_seq (sendKey K) = 0 \<and> ks_seq (sendKey S) = 0 \<and> in_sync K S \<and> in_sync S K \<and>
     sc_cfg K = sample_cfg \<and>
     (61 \<le> unat (maxPayload sample_cfg) \<longrightarrow>
        writer_ready K (wr_room (sample_conn (outgoing (sc_conn S))) - 43) ((length ?ent - 32) div 32))"
    by (rule handshake_both [OF sample_laws toy_laws(4) length_sample_keys(1) _ _ _ _ h S])
      simp_all
  then show ?thesis unfolding t by auto
qed

text \<open>
  C7: Agreement. When the server's handshake succeeds on the hello of a client, that client's
  handshake succeeds on the server's reply, and the two ends are then synchronised in both
  directions: each holds the other's sending key as its receiving key, both count from zero, and
  neither has read past its part of the exchange.
\<close>

theorem handshake_agrees:
  assumes "crypto_laws C" and "ecdh_ok C" and "length spriv = 32" and "32 \<le> length cent"
    and "52 \<le> unat (maxPayload cfg)" and "43 \<le> wr_room cc" and "\<not> shut cc"
    and "open_with sc (encode_frame cfg frameHandshakeClient (ecdh_pub C (take 32 cent)) @ srest)"
    and "serverHandshake C cfg spriv sc sclk st sent = Inr S"
    and "outgoing (sc_conn S) = outgoing sc @ reply" and "incoming cc = reply @ crest"
  shows "\<exists>K. clientHandshake C cfg (ecdh_pub C spriv) cc cclk ct cent = Inr K \<and>
     outgoing (sc_conn K) =
       outgoing cc @ encode_frame cfg frameHandshakeClient (ecdh_pub C (take 32 cent)) \<and>
     incoming (sc_conn K) = crest \<and> incoming (sc_conn S) = srest \<and>
     ks_seq (sendKey K) = 0 \<and> ks_seq (sendKey S) = 0 \<and> in_sync K S \<and> in_sync S K"
proof -
  have f: "frame_bytes cfg (hello_frame C cfg (take 32 cent)) =
      encode_frame cfg frameHandshakeClient (ecdh_pub C (take 32 cent))"
    by (simp add: hello_frame_def)
  with assms(8) have "open_with sc (frame_bytes cfg (hello_frame C cfg (take 32 cent)) @ srest)"
    by simp
  from handshake_both [OF assms(1-7) this assms(9-11), of cclk ct] show ?thesis
    unfolding f by blast
qed

theorem handshake_agrees_witness:
  "\<exists>S K. serverHandshake toy_crypto sample_cfg sample_priv (sample_conn sample_hello) (\<lambda>n. 0) 0
       (replicate 24 3) = Inr S \<and>
     clientHandshake toy_crypto sample_cfg (ecdh_pub toy_crypto sample_priv)
       (sample_conn (outgoing (sc_conn S))) (\<lambda>n. 9) 4 sample_eph = Inr K \<and>
     in_sync K S \<and> in_sync S K"
proof -
  obtain S where S: "serverHandshake toy_crypto sample_cfg sample_priv
      (sample_conn (sample_hello @ [])) (\<lambda>n. 0) 0 (replicate 24 3) = Inr S"
    using sample_server by blast
  have h: "open_with (sample_conn (sample_hello @ [])) (encode_frame sample_cfg
      frameHandshakeClient (ecdh_pub toy_crypto (take 32 sample_eph)) @ [])"
    by (simp add: hello_frame_def)
  have "\<exists>K. clientHandshake toy_crypto sample_cfg (ecdh_pub toy_crypto sample_priv)
      (sample_conn (outgoing (sc_conn S))) (\<lambda>n. 9) 4 sample_eph = Inr K \<and>
      outgoing (sc_conn K) = outgoing (sample_conn (outgoing (sc_conn S))) @ encode_frame sample_cfg
        frameHandshakeClient (ecdh_pub toy_crypto (take 32 sample_eph)) \<and>
      incoming (sc_conn K) = [] \<and> incoming (sc_conn S) = [] \<and>
      ks_seq (sendKey K) = 0 \<and> ks_seq (sendKey S) = 0 \<and> in_sync K S \<and> in_sync S K"
    by (rule handshake_agrees [OF sample_laws toy_laws(4) length_sample_keys(1) _ _ _ _ h S,
          where reply = "outgoing (sc_conn S)"]) simp_all
  with S show ?thesis by auto
qed

text \<open>A client session of the examples, and a server that gets its bytes.\<close>

lemma sample_session:
  "\<exists>cc K K' S'.
     clientHandshake toy_crypto sample_cfg (ecdh_pub toy_crypto sample_priv) cc (\<lambda>n. 9) 4
       (sample_eph @ replicate 320 9) = Inr K \<and> outgoing cc = [] \<and>
     send_ops toy_crypto sample_ops K = (None, K') \<and>
     serverHandshake toy_crypto sample_cfg sample_priv (sample_conn (outgoing (sc_conn K')))
       (\<lambda>n. 77) 5 (replicate 24 8) = Inr S'"
proof -
  let ?ent = "sample_eph @ replicate 320 9" and ?P = "ecdh_pub toy_crypto sample_priv"
  obtain S where S: "serverHandshake toy_crypto sample_cfg sample_priv
      (sample_conn (sample_hello @ [])) (\<lambda>n. 0) 0 (replicate 24 3) = Inr S"
    using sample_server by blast
  let ?cc = "sample_conn (outgoing (sc_conn S))"
  obtain K where K: "clientHandshake toy_crypto sample_cfg ?P ?cc (\<lambda>n. 9) 4 ?ent = Inr K"
      "outgoing (sc_conn K) = sample_hello" "writer_ready K 1957 10" "sc_cfg K = sample_cfg"
      "ks_seq (sendKey K) = 0"
    using sample_client [OF S] by (auto simp: sample_eph_def)
  have "writer_ready K (sum_list (map op_cost sample_ops)) (length sample_ops)"
    using K(3) by (simp add: writer_ready_def sample_ops_def op_cost_def)
  then obtain K' where K': "send_ops toy_crypto sample_ops K = (None, K')"
    using send_ops_ok [OF sample_laws, of K sample_ops] K(4) by auto
  obtain bs where bs: "outgoing (sc_conn K') = sample_hello @ bs"
    using send_ops_read [OF K' sample_laws sample_ops_small(1)] K(2,3,5)
    by (auto simp: writer_ready_def)
  obtain S' where S': "serverHandshake toy_crypto sample_cfg sample_priv
      (sample_conn (sample_hello @ bs @ [])) (\<lambda>n. 77) 5 (replicate 24 8) = Inr S'"
    using sample_server by blast
  from S' bs have "serverHandshake toy_crypto sample_cfg sample_priv
      (sample_conn (outgoing (sc_conn K'))) (\<lambda>n. 77) 5 (replicate 24 8) = Inr S'" by simp
  moreover have "outgoing ?cc = []" by simp
  ultimately show ?thesis using K(1) K' by blast
qed

text \<open>
  C13: A recorded session is accepted again. Let a client complete its handshake and send a
  sequence of operations. Whoever recorded the bytes it sent can open a second connection and
  send them again: if the server's handshake on it succeeds, its \<open>Read\<close> returns the whole
  recorded traffic once more. The server contributes nothing fresh to the keys, and the replay
  windows start empty on every connection.
\<close>

theorem recorded_session_accepted:
  assumes "crypto_laws C" and "ecdh_ok C" and "length spriv = 32" and "32 \<le> length cent"
    and "52 \<le> unat (maxPayload cfg)" and "list_all op_small xs"
    and "length xs < 2 ^ 64"
    and "clientHandshake C cfg (ecdh_pub C spriv) cc cclk ct cent = Inr K"
    and "send_ops C xs K = (None, K')" and "outgoing (sc_conn K') = outgoing cc @ recorded"
    and "open_with sc' (recorded @ rest)"
    and "serverHandshake C cfg spriv sc' sclk' st' sent' = Inr S'"
  shows "\<exists>S''. recv_n (scRead C) (length (op_data xs)) S' = (op_data xs, None, S'')"
proof -
  from recorded_in_sync [OF assms(1-5,8)] obtain hello where
    ks: "length (ks_key (sendKey K)) = 32" "ks_seq (sendKey K) = 0"
    and h: "outgoing (sc_conn K) = outgoing cc @ hello"
    and s: "\<And>sc bs sclk st sent S. open_with sc (hello @ bs) \<Longrightarrow>
         serverHandshake C cfg spriv sc sclk st sent = Inr S \<Longrightarrow>
         in_sync K S \<and> incoming (sc_conn S) = bs" by blast
  from send_ops_read [OF assms(9,1,6) ks(1)] assms(7) ks obtain bs where
      bs: "outgoing (sc_conn K') = outgoing (sc_conn K) @ bs"
    and rd: "\<And>b rest. in_sync K b \<Longrightarrow> incoming (sc_conn b) = bs @ rest \<Longrightarrow>
        \<exists>b'. recv_n (scRead C) (length (op_data xs)) b = (op_data xs, None, b')"
    by auto
  from bs h assms(10) have "recorded = hello @ bs" by simp
  with assms(11) s [OF _ assms(12), of "bs @ rest"] have "in_sync K S'" "incoming (sc_conn S') = bs @ rest"
    by simp_all
  then show ?thesis by (rule rd)
qed

theorem recorded_session_accepted_witness:
  "\<exists>cc K K' S' S''.
     clientHandshake toy_crypto sample_cfg (ecdh_pub toy_crypto sample_priv) cc (\<lambda>n. 9) 4
       (sample_eph @ replicate 320 9) = Inr K \<and>
     send_ops toy_crypto sample_ops K = (None, K') \<and>
     serverHandshake toy_crypto sample_cfg sample_priv (sample_conn (outgoing (sc_conn K')))
       (\<lambda>n. 77) 5 (replicate 24 8) = Inr S' \<and>
     recv_n (scRead toy_crypto) 3 S' = ([[7, 8], [], [1]], None, S'')"
proof -
  obtain cc K K' S' where K: "clientHandshake toy_crypto sample_cfg (ecdh_pub toy_crypto sample_priv) cc
      (\<lambda>n. 9) 4 (sample_eph @ replicate 320 9) = Inr K" "outgoing cc = []"
      "send_ops toy_crypto sample_ops K = (None, K')"
    and S: "serverHandshake toy_crypto sample_cfg sample_priv (sample_conn (outgoing (sc_conn K')))
       (\<lambda>n. 77) 5 (replicate 24 8) = Inr S'"
    using sample_session by blast
  have "\<exists>S''. recv_n (scRead toy_crypto) (length (op_data sample_ops)) S' =
      (op_data sample_ops, None, S'')"
    by (rule recorded_session_accepted [OF sample_laws toy_laws(4) length_sample_keys(1) _ _
          sample_ops_small(1) _ K(1,3) _ _ S, where rest = "[]"]) (simp_all add: K(2))
  then have "\<exists>S''. recv_n (scRead toy_crypto) 3 S' = ([[7, 8], [], [1]], None, S'')"
    by (auto simp: numeral_3_eq_3 simp del: recv_n.simps)
  with K S show ?thesis by blast
qed

text \<open>
  The sending key of a server depends on the hello and the long-term key alone. Two
  connections that present the same hello get the same sending key and both start at record
  number zero, whatever the clock and the random bytes, so that two different records are
  sealed under one key and one nonce.
\<close>

theorem replayed_hello_same_key:
  assumes "ecdh_ok C" and "hmac_len C" and "length eph = 32" and "length spriv = 32"
    and "32 \<le> unat (maxPayload cfg)"
    and "open_with c1 (encode_frame cfg frameHandshakeClient (ecdh_pub C eph) @ r1)"
    and "open_with c2 (encode_frame cfg frameHandshakeClient (ecdh_pub C eph) @ r2)"
    and "serverHandshake C cfg spriv c1 clk1 t1 ent1 = Inr S1"
    and "serverHandshake C cfg spriv c2 clk2 t2 ent2 = Inr S2"
  shows "ks_key (sendKey S1) = ks_key (sendKey S2) \<and> ks_id (sendKey S1) = ks_id (sendKey S2) \<and>
    ks_seq (sendKey S1) = 0 \<and> ks_seq (sendKey S2) = 0"
proof -
  have f: "frame_bytes cfg (hello_frame C cfg eph) =
      encode_frame cfg frameHandshakeClient (ecdh_pub C eph)" by (simp add: hello_frame_def)
  note h = serverHandshake_hello [OF assms(1-4)]
  from h [OF assms(6) [folded f] assms(5,8)] h [OF assms(7) [folded f] assms(5,9)] show ?thesis
    by (auto simp: Let_def case_prod_beta newSecureConn_def)
qed

theorem replayed_hello_same_key_witness:
  "\<exists>S1 S2. serverHandshake toy_crypto sample_cfg sample_priv (sample_conn (sample_hello @ []))
       (\<lambda>n. 0) 0 (replicate 24 3) = Inr S1 \<and>
     serverHandshake toy_crypto sample_cfg sample_priv (sample_conn (sample_hello @ [1]))
       (\<lambda>n. 77) 5 (replicate 24 8) = Inr S2 \<and>
     ks_key (sendKey S1) = ks_key (sendKey S2) \<and> ks_seq (sendKey S1) = ks_seq (sendKey S2)"
proof -
  obtain S1 where S1: "serverHandshake toy_crypto sample_cfg sample_priv
      (sample_conn (sample_hello @ [])) (\<lambda>n. 0) 0 (replicate 24 3) = Inr S1"
    using sample_server by blast
  obtain S2 where S2: "serverHandshake toy_crypto sample_cfg sample_priv
      (sample_conn (sample_hello @ [1])) (\<lambda>n. 77) 5 (replicate 24 8) = Inr S2"
    using sample_server by blast
  have "ks_key (sendKey S1) = ks_key (sendKey S2) \<and> ks_id (sendKey S1) = ks_id (sendKey S2) \<and>
      ks_seq (sendKey S1) = 0 \<and> ks_seq (sendKey S2) = 0"
    by (rule replayed_hello_same_key [OF toy_laws(4,1) length_sample_keys(2,1) _ _ _ S1 S2,
          of "[]" "[1]"]) (simp_all add: hello_frame_def)
  with S1 S2 show ?thesis by auto
qed

end
