(* ===== verification/Transport.thy ===== *)
theory Transport
  imports Handshake Keys
begin

text \<open>
  \<^verbatim>\<open>tcpx/server.go\<close>: what the server does with one accepted connection, from the handshake to the
  last callback. The program's callbacks are arguments: functions on the state of the program that
  say what they write on the connection, in order until a write fails, and whether they close it.
\<close>

section \<open>Callbacks\<close>

record 'a handlers =
  h_connect :: "'a \<Rightarrow> conn_op list \<times> bool \<times> 'a"
  h_message :: "bytes \<Rightarrow> 'a \<Rightarrow> conn_op list \<times> bool \<times> 'a"
  h_disconnect :: "tcp_error \<Rightarrow> 'a \<Rightarrow> 'a"
  h_refused :: "tcp_error \<Rightarrow> 'a \<Rightarrow> 'a"

definition run_call ::
    "crypto \<Rightarrow> conn_op list \<times> bool \<times> 'a \<Rightarrow> secure_conn \<Rightarrow> secure_conn \<times> 'a" where
  "run_call C call s =
     (case call of (ops, close, a) \<Rightarrow>
        let s1 = snd (send_ops C ops s) in (if close then snd (scClose s1) else s1, a))"

lemma send_op_same: "send_op C x s = (e, s') \<Longrightarrow> same_reader s s'"
  by (cases x) (auto simp: scWrite_def sendPing_def sendPong_def dest: writeInner_same)

lemma send_ops_same: "same_reader s (snd (send_ops C xs s))"
proof (induction xs arbitrary: s)
  case (Cons x xs)
  obtain e s1 where x: "send_op C x s = (e, s1)" by fastforce
  from send_op_same [OF x] Cons [of s1] same_reader_trans x show ?case
    by (auto split: option.splits)
qed simp

lemma run_call_incoming:
  "incoming (sc_conn (fst (run_call C call s))) = incoming (sc_conn s)"
  using send_ops_same [of s C "fst call"]
  by (auto simp: run_call_def same_reader_def scClose_def net_close_def Let_def split: prod.splits)

section \<open>The loop of a connection\<close>

lemma scRead_shrinks:
  "scRead C s = (Inr p, s') \<Longrightarrow> length (incoming (sc_conn s')) < length (incoming (sc_conn s))"
proof (induction C s rule: scRead.induct)
  case (1 C s)
  obtain r s1 where r: "readInner C s = (r, s1)" by fastforce
  show ?case
  proof (cases r)
    case (Inl e)
    with r "1.prems" show ?thesis by (simp add: scRead.simps [of C s])
  next
    case (Inr m)
    obtain t q where m: "m = (t, q)" by fastforce
    note sh = readInner_shrinks [of C s m s1]
    obtain e s2 where w: "sendPong C s1 = (e, s2)" by fastforce
    then have inc: "incoming (sc_conn s2) = incoming (sc_conn s1)"
      using writeInner_same [of C innerPong "[]" s1] by (simp add: sendPong_def same_reader_def)
    consider "t = innerData" | "t = innerPing" | "t = innerPong \<or> t = innerKeyUpdate" |
      "t \<notin> {innerData, innerPing, innerPong, innerKeyUpdate}" by blast
    then show ?thesis
    proof cases
      case 1
      with r Inr m sh "1.prems" show ?thesis by (simp add: scRead.simps [of C s])
    next
      case 2
      with r Inr m w "1.prems" have "scRead C s2 = (Inr p, s')" by (simp add: scRead.simps [of C s])
      with "1.IH"(1) [OF r [symmetric] Inr m [symmetric]] 2 w inc sh r Inr show ?thesis by simp
    next
      case 3
      with r Inr m "1.prems" have "scRead C s1 = (Inr p, s')"
        by (auto simp: scRead.simps [of C s])
           (auto simp: innerKeyUpdate_def innerData_def innerPing_def innerPong_def split: if_splits)
      with "1.IH"(2,3) [OF r [symmetric] Inr m [symmetric]] 3 sh r Inr show ?thesis
        by (auto simp: innerKeyUpdate_def innerData_def innerPing_def innerPong_def)
    next
      case 4
      with r Inr m "1.prems" show ?thesis by (simp add: scRead.simps [of C s])
    qed
  qed
qed

function serve_loop ::
    "crypto \<Rightarrow> 'a handlers \<Rightarrow> secure_conn \<Rightarrow> 'a \<Rightarrow> tcp_error \<times> secure_conn \<times> 'a" where
  "serve_loop C h s a =
     (case scRead C s of
        (Inl e, s1) \<Rightarrow> (e, s1, a)
      | (Inr msg, s1) \<Rightarrow>
          (case run_call C (h_message h msg a) s1 of (s2, a2) \<Rightarrow> serve_loop C h s2 a2))"
  by pat_completeness auto
termination
proof (relation "measure (\<lambda>(C, h, s, a). length (incoming (sc_conn s)))", goal_cases)
  case (2 C h s a x s1 msg s2 a2)
  then have "scRead C s = (Inr msg, s1)" "run_call C (h_message h msg a) s1 = (s2, a2)" by simp_all
  with scRead_shrinks [of C s msg s1] run_call_incoming [of C "h_message h msg a" s1]
  show ?case by simp
qed simp

declare serve_loop.simps [simp del]

definition handleConn ::
    "crypto \<Rightarrow> base_config \<Rightarrow> bytes \<Rightarrow> 'a handlers \<Rightarrow> net_conn \<Rightarrow> (nat \<Rightarrow> int) \<Rightarrow> nat \<Rightarrow> bytes \<Rightarrow> 'a \<Rightarrow>
     net_conn \<times> 'a" where
  "handleConn C cfg priv h raw clk ticks ent a =
     (case serverHandshake C cfg priv raw clk ticks ent of
        Inl (e, c) \<Rightarrow> (snd (net_close c), h_refused h e a)
      | Inr s \<Rightarrow>
          (case run_call C (h_connect h a) s of (s1, a1) \<Rightarrow>
             (case serve_loop C h s1 a1 of (e, s2, a2) \<Rightarrow>
                (sc_conn (snd (scClose s2)), h_disconnect h e a2))))"

text \<open>\<^verbatim>\<open>NewServer\<close>: defaults, and the key of the configuration.\<close>

definition tcpx_NewServer :: "base_config \<Rightarrow> string \<Rightarrow> tcp_error + base_config \<times> bytes" where
  "tcpx_NewServer cfg key = map_sum id (\<lambda>priv. (setDefaults cfg, priv)) (ParsePrivateKeyHex key)"

text \<open>
  \<^verbatim>\<open>ListenAndServe\<close> over the answers of \<^verbatim>\<open>Accept\<close>, each with what \<open>isClosed\<close> or the context say when
  it comes: the connections handed to their own \<^verbatim>\<open>handleConn\<close>, and the result when the loop has
  ended.
\<close>

fun accept_loop ::
    "((tcp_error + net_conn) \<times> bool) list \<Rightarrow> net_conn list \<times> tcp_error option option" where
  "accept_loop [] = ([], None)"
| "accept_loop ((Inr raw, stopped) # rest) =
     (case accept_loop rest of (conns, r) \<Rightarrow> (raw # conns, r))"
| "accept_loop ((Inl e, stopped) # rest) = ([], Some (if stopped then None else Some e))"

section \<open>Every connection is handled to its end\<close>

text \<open>The calls made, as a log beside the program's own state.\<close>

datatype server_call = CConnect | CMessage bytes | CDisconnect tcp_error | CRefused tcp_error

definition logged :: "'a handlers \<Rightarrow> ('a \<times> server_call list) handlers" where
  "logged h =
     \<lparr>h_connect = (\<lambda>(a, l). case h_connect h a of (ops, c, a') \<Rightarrow> (ops, c, a', l @ [CConnect])),
      h_message = (\<lambda>m (a, l). case h_message h m a of (ops, c, a') \<Rightarrow> (ops, c, a', l @ [CMessage m])),
      h_disconnect = (\<lambda>e (a, l). (h_disconnect h e a, l @ [CDisconnect e])),
      h_refused = (\<lambda>e (a, l). (h_refused h e a, l @ [CRefused e]))\<rparr>"

lemma logged_message:
  "run_call C (h_message (logged h) m (a, l)) s =
     (case run_call C (h_message h m a) s of (s1, a1) \<Rightarrow> (s1, a1, l @ [CMessage m]))"
  by (auto simp: logged_def run_call_def Let_def split: prod.splits)

lemma serve_loop_logged:
  "\<exists>ms. serve_loop C (logged h) s (a, l) =
     (case serve_loop C h s a of (e, s', a') \<Rightarrow> (e, s', a', l @ map CMessage ms))"
proof (induction C h s a arbitrary: l rule: serve_loop.induct)
  case (1 C h s a)
  obtain r s1 where r: "scRead C s = (r, s1)" by fastforce
  show ?case
  proof (cases r)
    case (Inl e)
    with r show ?thesis by (intro exI [of _ "[]"]) (simp add: serve_loop.simps)
  next
    case (Inr m)
    obtain s2 a2 where c: "run_call C (h_message h m a) s1 = (s2, a2)" by fastforce
    from "1.IH" [OF r [symmetric] Inr c [symmetric], of "l @ [CMessage m]"] obtain ms where
      "serve_loop C (logged h) s2 (a2, l @ [CMessage m]) =
        (case serve_loop C h s2 a2 of (e, s', a') \<Rightarrow> (e, s', a', (l @ [CMessage m]) @ map CMessage ms))"
      by blast
    with r Inr c show ?thesis
      by (intro exI [of _ "m # ms"])
        (simp add: serve_loop.simps [of C "logged h"] serve_loop.simps [of C h s a] logged_message
          split: prod.splits)
  qed
qed

lemma net_close_shut [simp]: "shut (snd (net_close c))"
  by (simp add: net_close_def)

lemma scClose_shut [simp]: "shut (sc_conn (snd (scClose s)))"
  by (simp add: scClose_def net_close_def)

lemma handleConn_logged:
  "\<exists>c a' calls. handleConn C cfg priv (logged h) raw clk ticks ent (a, []) = (c, a', calls) \<and> shut c \<and>
     ((\<exists>e. calls = [CRefused e]) \<or>
      (\<exists>ms e. calls = CConnect # map CMessage ms @ [CDisconnect e]))"
proof (cases "serverHandshake C cfg priv raw clk ticks ent")
  case (Inl e)
  then show ?thesis by (cases e) (simp add: handleConn_def logged_def)
next
  case (Inr s)
  obtain s1 a1 where c: "run_call C (h_connect h a) s = (s1, a1)" by fastforce
  then have c': "run_call C (h_connect (logged h) (a, [])) s = (s1, a1, [CConnect])"
    by (auto simp: logged_def run_call_def Let_def split: prod.splits)
  obtain e s2 a2 where l: "serve_loop C h s1 a1 = (e, s2, a2)" by (metis prod_cases3)
  from serve_loop_logged [of C h s1 a1 "[CConnect]"] l obtain ms where
    "serve_loop C (logged h) s1 (a1, [CConnect]) = (e, s2, a2, [CConnect] @ map CMessage ms)" by auto
  with Inr c' show ?thesis
    by (simp add: handleConn_def) (simp add: logged_def, blast)
qed

section \<open>What the program gets\<close>

lemma in_sync_shut: "in_sync a b \<Longrightarrow> \<not> shut (sc_conn b)"
  by (simp add: in_sync_def)

lemma run_call_open:
  assumes "\<not> fst (snd call)" and "run_call C call s = (s', a)"
  shows "same_reader s s' \<and> a = snd (snd call)"
  using assms send_ops_same [of s C "fst call"] by (auto simp: run_call_def Let_def split: prod.splits)

lemma scRead_end:
  assumes "incoming (sc_conn b) = []" and "\<not> shut (sc_conn b)"
  shows "\<exists>e b'. scRead C b = (Inl e, b')"
  using assms
  by (simp add: scRead.simps [of C b] readInner.simps [of C b] read_step_def readFrame_def
      read_full_def headerSize_def arm_read_def)

text \<open>Callbacks that never close the connection.\<close>

definition keeps_open :: "'a handlers \<Rightarrow> bool" where
  "keeps_open h \<longleftrightarrow> (\<forall>a. \<not> fst (snd (h_connect h a))) \<and> (\<forall>m a. \<not> fst (snd (h_message h m a)))"

lemma serve_loop_reads:
  assumes laws: "crypto_laws C" and ko: "keeps_open h"
    and "send_ops C xs a = (None, a')" and "list_all op_small xs"
    and "length (ks_key (sendKey a)) = 32"
    and "unat (ks_seq (sendKey a)) + length xs < 2 ^ 64"
  shows "\<exists>bs. outgoing (sc_conn a') = outgoing (sc_conn a) @ bs \<and>
     (\<forall>b st. in_sync a b \<longrightarrow> incoming (sc_conn b) = bs \<longrightarrow>
        (\<exists>e b'. serve_loop C h b st =
           (e, b', fold (\<lambda>m st. snd (snd (h_message h m st))) (op_data xs) st)))"
  using assms(3-)
proof (induction xs arbitrary: a)
  case Nil
  have "\<exists>e b'. serve_loop C h b st = (e, b', st)"
    if "in_sync a b" "incoming (sc_conn b) = []" for b st
    using scRead_end [OF that(2) in_sync_shut [OF that(1)], of C] by (auto simp: serve_loop.simps)
  with Nil show ?case by (auto intro!: exI [of _ "[]"])
next
  case (Cons x xs)
  from Cons.prems(1) obtain a1 where x: "send_op C x a = (None, a1)"
    and xs: "send_ops C xs a1 = (None, a')"
    by (auto split: prod.splits option.splits)
  have "op_small x" "unat (ks_seq (sendKey a)) + 1 < 2 ^ 64" using Cons.prems by simp_all
  note sx = send_op_read [OF x laws this(1) Cons.prems(3) this(2)]
  from sx(1) have key1: "length (ks_key (sendKey a1)) = 32" by (simp add: writes_read_def)
  from sx(1) obtain bs1 where
    1: "outgoing (sc_conn a1) = outgoing (sc_conn a) @ bs1"
      "\<And>b rest. in_sync a b \<Longrightarrow> incoming (sc_conn b) = bs1 @ rest \<Longrightarrow>
         \<exists>b'. op_read C x b b' \<and> incoming (sc_conn b') = rest \<and> in_sync a1 b'"
    by (auto simp: writes_read_def)
  have "list_all op_small xs" "unat (ks_seq (sendKey a1)) + length xs < 2 ^ 64"
    using Cons.prems sx(2) by simp_all
  from Cons.IH [OF xs this(1) key1 this(2)] obtain bs2 where
    2: "outgoing (sc_conn a') = outgoing (sc_conn a1) @ bs2"
      "\<And>b st. in_sync a1 b \<Longrightarrow> incoming (sc_conn b) = bs2 \<Longrightarrow> \<exists>e b'. serve_loop C h b st =
           (e, b', fold (\<lambda>m st. snd (snd (h_message h m st))) (op_data xs) st)"
    by auto
  have "\<exists>e b'. serve_loop C h b st =
      (e, b', fold (\<lambda>m st. snd (snd (h_message h m st))) (op_data (x # xs)) st)"
    if "in_sync a b" "incoming (sc_conn b) = bs1 @ bs2" for b st
  proof -
    from that 1(2) [of b bs2] obtain b1 where
      b1: "op_read C x b b1" "incoming (sc_conn b1) = bs2" "in_sync a1 b1" by auto
    show ?thesis
    proof (cases "\<exists>p. x = OpData p")
      case True
      then obtain p where p: "x = OpData p" by blast
      obtain b2 st2 where c: "run_call C (h_message h p st) b1 = (b2, st2)" by fastforce
      from run_call_open [OF _ c] ko have r: "same_reader b1 b2" "st2 = snd (snd (h_message h p st))"
        by (simp_all add: keeps_open_def)
      from in_sync_same_reader [OF b1(3) r(1)] r(1) b1(2)
      have "in_sync a1 b2" "incoming (sc_conn b2) = bs2" by (simp_all add: same_reader_def)
      from 2(2) [OF this, of st2] p b1(1) c r(2) show ?thesis by (simp add: serve_loop.simps [of C h b])
    next
      case False
      with b1(1) have "scRead C b = scRead C b1" "op_data (x # xs) = op_data xs" by (cases x; simp)+
      with 2(2) [OF b1(3,2), of st] show ?thesis
        by (simp add: serve_loop.simps [of C h b] serve_loop.simps [of C h b1])
    qed
  qed
  with 1(1) 2(1) show ?case by (intro exI [of _ "bs1 @ bs2"]) auto
qed

section \<open>Properties\<close>

text \<open>
  C29: Every connection is handled to its end. Whatever bytes arrive and whatever the program's
  callbacks write or close, the handling of a connection terminates with the connection closed, and
  the program got either the one call that says that the handshake failed, or exactly one
  \<^verbatim>\<open>OnConnect\<close>, then the messages, then exactly one \<^verbatim>\<open>OnDisconnect\<close>.
\<close>

theorem connection_handled:
  "\<exists>c a' calls. handleConn C cfg priv (logged h) raw clk ticks ent (a, []) = (c, a', calls) \<and> shut c \<and>
     ((\<exists>e. calls = [CRefused e]) \<or>
      (\<exists>ms e. calls = CConnect # map CMessage ms @ [CDisconnect e]))"
  by (rule handleConn_logged)

text \<open>
  C30: The server program gets what the client program wrote. Let a client complete its handshake
  and send a sequence of payloads and heartbeats. If the server's handshake on that stream succeeds
  and its callbacks, which may write on the connection whenever they are called, do not close it,
  then the state of the server program in the end is that of \<^verbatim>\<open>OnConnect\<close>, \<^verbatim>\<open>OnMessage\<close> of exactly
  the payloads written, in order, and \<^verbatim>\<open>OnDisconnect\<close>.
\<close>

theorem session_handled:
  assumes "crypto_laws C" and "ecdh_ok C" and "length spriv = 32" and "32 \<le> length cent"
    and "52 \<le> unat (maxPayload cfg)" and "keeps_open h"
    and "clientHandshake C cfg (ecdh_pub C spriv) cc cclk ct cent = Inr K"
    and "send_ops C xs K = (None, K')" and "list_all op_small xs" and "length xs < 2 ^ 64"
    and "outgoing (sc_conn K') = outgoing cc @ stream"
    and "open_with sc stream" and "serverHandshake C cfg spriv sc sclk st sent = Inr S"
  shows "\<exists>e. snd (handleConn C cfg spriv h sc sclk st sent a) =
    h_disconnect h e (fold (\<lambda>m a. snd (snd (h_message h m a))) (op_data xs) (snd (snd (h_connect h a))))"
proof -
  from recorded_in_sync [OF assms(1-5,7)] obtain hello where
    ks: "length (ks_key (sendKey K)) = 32" "ks_seq (sendKey K) = 0"
    and h: "outgoing (sc_conn K) = outgoing cc @ hello"
    and s: "\<And>sc bs sclk st sent S. open_with sc (hello @ bs) \<Longrightarrow>
         serverHandshake C cfg spriv sc sclk st sent = Inr S \<Longrightarrow>
         in_sync K S \<and> incoming (sc_conn S) = bs" by blast
  from serve_loop_reads [OF assms(1,6,8,9) ks(1)] ks(2) assms(10) obtain bs where
    bs: "outgoing (sc_conn K') = outgoing (sc_conn K) @ bs"
    and rd: "\<And>b a. in_sync K b \<Longrightarrow> incoming (sc_conn b) = bs \<Longrightarrow> \<exists>e b'. serve_loop C h b a =
           (e, b', fold (\<lambda>m st. snd (snd (h_message h m st))) (op_data xs) a)"
    by auto
  from bs h assms(11) have "stream = hello @ bs" by simp
  with assms(12) s [OF _ assms(13), of bs] have S: "in_sync K S" "incoming (sc_conn S) = bs" by simp_all
  obtain S1 a1 where c: "run_call C (h_connect h a) S = (S1, a1)" by fastforce
  from run_call_open [OF _ c] assms(6) have r: "same_reader S S1" "a1 = snd (snd (h_connect h a))"
    by (simp_all add: keeps_open_def)
  have "in_sync K S1" "incoming (sc_conn S1) = bs"
    using in_sync_same_reader [OF S(1) r(1)] r(1) S(2) by (simp_all add: same_reader_def)
  from rd [OF this, of a1] assms(13) c r(2) show ?thesis by (auto simp: handleConn_def)
qed

text \<open>A program that collects the messages.\<close>

definition collecting :: "bytes list handlers" where
  "collecting =
     \<lparr>h_connect = (\<lambda>a. ([], False, a)), h_message = (\<lambda>m a. ([OpData m], False, a @ [m])),
      h_disconnect = (\<lambda>e a. a), h_refused = (\<lambda>e a. a)\<rparr>"

theorem session_handled_witness:
  "\<exists>sc. snd (handleConn toy_crypto sample_cfg sample_priv collecting sc (\<lambda>n. 77) 5 (replicate 24 8) []) =
     [[7, 8], [], [1]]"
proof -
  obtain cc K K' S' where K: "clientHandshake toy_crypto sample_cfg (ecdh_pub toy_crypto sample_priv) cc
      (\<lambda>n. 9) 4 (sample_eph @ replicate 320 9) = Inr K" "outgoing cc = []"
      "send_ops toy_crypto sample_ops K = (None, K')"
    and S: "serverHandshake toy_crypto sample_cfg sample_priv (sample_conn (outgoing (sc_conn K')))
       (\<lambda>n. 77) 5 (replicate 24 8) = Inr S'"
    using sample_session by blast
  have ko: "keeps_open collecting" by (simp add: keeps_open_def collecting_def)
  have "\<exists>e. snd (handleConn toy_crypto sample_cfg sample_priv collecting
      (sample_conn (outgoing (sc_conn K'))) (\<lambda>n. 77) 5 (replicate 24 8) []) =
    h_disconnect collecting e (fold (\<lambda>m a. snd (snd (h_message collecting m a))) (op_data sample_ops)
      (snd (snd (h_connect collecting []))))"
    by (rule session_handled [OF sample_laws toy_laws(4) length_sample_keys(1) _ _ ko K(1,3)
          sample_ops_small(1) _ _ _ S]) (simp_all add: K(2))
  then show ?thesis by (auto simp: collecting_def)
qed

end
