(* ===== verification/Reconnect.thy ===== *)
theory Reconnect
  imports Transport Config
begin

text \<open>
  \<^verbatim>\<open>tcpx/client.go\<close> and \<^verbatim>\<open>tcpx/utils.go\<close>: the client that keeps one connection to the server. \<^verbatim>\<open>Run\<close> is a
  machine whose phases are the points where it waits; what the network, the timer and the other
  goroutines do are the events. Connections are indices into the list of all connections dialled.
\<close>

section \<open>Delays\<close>

text \<open>\<open>draw n\<close> is the number that \<^verbatim>\<open>rand.Int\<close> takes below \<open>n\<close>; durations are 64-bit integers.\<close>

definition randomInterval :: "(int \<Rightarrow> int option) \<Rightarrow> int \<Rightarrow> int \<Rightarrow> int" where
  "randomInterval draw base jitter =
     (let b = (if base \<le> 0 then second else base)
      in if jitter \<le> 0 then b
         else (case draw jitter of None \<Rightarrow> b | Some n \<Rightarrow> wrap64 (b + n)))"

section \<open>The client\<close>

record tclient_config =
  tcf_base :: base_config
  tcf_reconnectBase :: int
  tcf_reconnectJitter :: int

definition tcpx_NewClient :: "tclient_config \<Rightarrow> string \<Rightarrow> tcp_error + tclient_config \<times> bytes" where
  "tcpx_NewClient cfg key =
     (let cfg1 = cfg\<lparr>tcf_base := setDefaults (tcf_base cfg)\<rparr>;
          cfg2 = (if tcf_reconnectBase cfg1 = 0 then cfg1\<lparr>tcf_reconnectBase := second\<rparr> else cfg1);
          cfg3 = (if tcf_reconnectJitter cfg2 = 0 then cfg2\<lparr>tcf_reconnectJitter := 3 * second\<rparr> else cfg2)
      in map_sum id (\<lambda>pub. (cfg3, pub)) (ParsePublicKeyHex key))"

text \<open>
  \<open>Announcing\<close> and \<open>Notifying\<close>: \<^verbatim>\<open>OnConnect\<close> or \<^verbatim>\<open>OnDisconnect\<close> is about to be called.
\<close>

datatype phase =
    Idle | Top | Dialing | Shaking nat | Announcing nat | Serving nat
  | Failed tcp_error | Notifying tcp_error | Sleeping

datatype tcall = TConnect nat | TMessage nat bytes | TDisconnect tcp_error

text \<open>
  \<open>tc_cancel\<close>: the context of the run is done; \<open>tc_open\<close>: which connections are open; \<open>tc_calls\<close>:
  the callbacks made.
\<close>

record tclient =
  tc_phase :: phase
  tc_conn :: "nat option"
  tc_running :: bool
  tc_closed :: bool
  tc_cancel :: bool
  tc_open :: "bool list"
  tc_calls :: "tcall list"

definition new_tclient :: tclient where
  "new_tclient =
     \<lparr>tc_phase = Idle, tc_conn = None, tc_running = False, tc_closed = False, tc_cancel = False,
      tc_open = [], tc_calls = []\<rparr>"

text \<open>What \<^verbatim>\<open>Run\<close> does at its start, with a context that may be done already, and when it returns.\<close>

definition tc_run :: "bool \<Rightarrow> tclient \<Rightarrow> tcp_error option \<times> tclient" where
  "tc_run ended s =
     (if tc_running s then (Some ErrReconnectStop, s)
      else (None, s\<lparr>tc_cancel := ended, tc_running := True, tc_closed := False, tc_phase := Top\<rparr>))"

definition tc_return :: "tclient \<Rightarrow> tclient" where
  "tc_return s = s\<lparr>tc_running := False, tc_conn := None, tc_cancel := True, tc_phase := Idle\<rparr>"

definition shut_conn :: "nat \<Rightarrow> tclient \<Rightarrow> tclient" where
  "shut_conn c s = s\<lparr>tc_open := (tc_open s)[c := False]\<rparr>"

definition tc_call :: "tcall \<Rightarrow> tclient \<Rightarrow> tclient" where
  "tc_call x s = s\<lparr>tc_calls := tc_calls s @ [x]\<rparr>"

definition tc_close :: "tclient \<Rightarrow> tclient" where
  "tc_close s =
     (let s1 = s\<lparr>tc_closed := True, tc_cancel := True\<rparr>
      in case tc_conn s of None \<Rightarrow> s1 | Some c \<Rightarrow> shut_conn c s1)"

text \<open>The connection that \<^verbatim>\<open>Write\<close> writes on.\<close>

definition tc_write :: "tclient \<Rightarrow> tcp_error + nat" where
  "tc_write s = (case tc_conn s of None \<Rightarrow> Inl ErrClosed | Some c \<Rightarrow> Inr c)"

text \<open>The steps of \<^verbatim>\<open>connectAndServe\<close>.\<close>

definition dial_step :: "tcp_error option \<Rightarrow> tclient \<Rightarrow> tclient" where
  "dial_step answer s =
     (case answer of
        Some e \<Rightarrow> s\<lparr>tc_phase := Failed e\<rparr>
      | None \<Rightarrow> s\<lparr>tc_open := tc_open s @ [True], tc_phase := Shaking (length (tc_open s))\<rparr>)"

definition shake_step :: "tcp_error option \<Rightarrow> nat \<Rightarrow> tclient \<Rightarrow> tclient" where
  "shake_step answer c s =
     (case answer of
        Some e \<Rightarrow> (shut_conn c s)\<lparr>tc_phase := Failed e\<rparr>
      | None \<Rightarrow>
          if tc_closed s then (shut_conn c s)\<lparr>tc_phase := Failed ErrClosed\<rparr>
          else s\<lparr>tc_conn := Some c, tc_phase := Announcing c\<rparr>)"

definition read_turn_step :: "tcp_error + bytes \<Rightarrow> nat \<Rightarrow> tclient \<Rightarrow> tclient" where
  "read_turn_step answer c s =
     (case answer of
        Inr msg \<Rightarrow> tc_call (TMessage c msg) s
      | Inl e \<Rightarrow>
          let s1 = shut_conn c s
          in s1\<lparr>tc_conn := (if tc_conn s1 = Some c then None else tc_conn s1), tc_phase := Failed e\<rparr>)"

text \<open>The steps of the loop of \<^verbatim>\<open>Run\<close>.\<close>

definition top_step :: "tclient \<Rightarrow> tclient" where
  "top_step s = (if tc_cancel s \<or> tc_closed s then tc_return s else s\<lparr>tc_phase := Dialing\<rparr>)"

definition failed_step :: "tcp_error \<Rightarrow> tclient \<Rightarrow> tclient" where
  "failed_step e s =
     (if tc_cancel s \<or> tc_closed s then tc_return s
      else s\<lparr>tc_phase := Notifying e\<rparr>)"

definition announce_step :: "nat \<Rightarrow> tclient \<Rightarrow> tclient" where
  "announce_step c s = (tc_call (TConnect c) s)\<lparr>tc_phase := Serving c\<rparr>"

definition notify_step :: "tcp_error \<Rightarrow> tclient \<Rightarrow> tclient" where
  "notify_step e s = (tc_call (TDisconnect e) s)\<lparr>tc_phase := Sleeping\<rparr>"

text \<open>
  A turn of \<^verbatim>\<open>heartbeatLoop\<close>: does the loop go on. \<open>timer\<close>: the delay ended by the timer, not by the
  context. A ping that fails closes the connection, which is the event \<open>TDrop\<close>.
\<close>

definition heartbeat_turn :: "crypto \<Rightarrow> bool \<Rightarrow> secure_conn \<Rightarrow> bool \<times> secure_conn" where
  "heartbeat_turn C timer s =
     (if \<not> timer then (False, s)
      else (case sendPing C s of
          (Some e, s1) \<Rightarrow> (False, snd (scClose s1))
        | (None, s1) \<Rightarrow> (True, s1)))"

text \<open>
  Events: \<open>TRun\<close> a call of \<^verbatim>\<open>Run\<close>, \<open>TTurn\<close> the next turn of the loop where it does not wait, the
  answers of the network, \<open>TWake\<close> the end of the delay by the timer or by the context, \<open>TClose\<close>,
  \<open>TCancel\<close> the end of the caller's context, and \<open>TDrop\<close> another goroutine, such as
  \<^verbatim>\<open>heartbeatLoop\<close> when its ping fails, closing a connection.
\<close>

datatype tc_event =
    TRun bool | TTurn | TDial "tcp_error option" | TShake "tcp_error option"
  | TRead "tcp_error + bytes" | TWake bool | TClose | TCancel | TDrop nat

fun tc_step :: "tc_event \<Rightarrow> tclient \<Rightarrow> tclient option" where
  "tc_step (TRun ended) s = Some (snd (tc_run ended s))"
| "tc_step TTurn s =
     (case tc_phase s of
        Top \<Rightarrow> Some (top_step s) | Failed e \<Rightarrow> Some (failed_step e s)
      | Announcing c \<Rightarrow> Some (announce_step c s) | Notifying e \<Rightarrow> Some (notify_step e s)
      | _ \<Rightarrow> None)"
| "tc_step (TDial answer) s = (if tc_phase s = Dialing then Some (dial_step answer s) else None)"
| "tc_step (TShake answer) s =
     (case tc_phase s of Shaking c \<Rightarrow> Some (shake_step answer c s) | _ \<Rightarrow> None)"
| "tc_step (TRead answer) s =
     (case tc_phase s of Serving c \<Rightarrow> Some (read_turn_step answer c s) | _ \<Rightarrow> None)"
| "tc_step (TWake timer) s =
     (if tc_phase s \<noteq> Sleeping then None
      else if timer then Some (s\<lparr>tc_phase := Top\<rparr>)
      else if tc_cancel s then Some (tc_return s) else None)"
| "tc_step TClose s = Some (tc_close s)"
| "tc_step TCancel s = Some (if tc_running s then s\<lparr>tc_cancel := True\<rparr> else s)"
| "tc_step (TDrop c) s = Some (shut_conn c s)"

fun tc_steps :: "tc_event list \<Rightarrow> tclient \<Rightarrow> tclient option" where
  "tc_steps [] s = Some s"
| "tc_steps (ev # evs) s = (case tc_step ev s of None \<Rightarrow> None | Some s1 \<Rightarrow> tc_steps evs s1)"

section \<open>The invariant\<close>

text \<open>The connection of the last \<^verbatim>\<open>OnConnect\<close> with no \<^verbatim>\<open>OnDisconnect\<close> since.\<close>

fun live :: "nat option \<Rightarrow> tcall list \<Rightarrow> nat option" where
  "live cur [] = cur"
| "live cur (TConnect c # xs) = live (Some c) xs"
| "live cur (TMessage c m # xs) = live cur xs"
| "live cur (TDisconnect e # xs) = live None xs"

lemma live_append [simp]: "live cur (xs @ ys) = live (live cur xs) ys"
  by (induction cur xs rule: live.induct) simp_all

definition messages_live :: "tcall list \<Rightarrow> bool" where
  "messages_live xs \<longleftrightarrow> (\<forall>ys c m zs. xs = ys @ TMessage c m # zs \<longrightarrow> live None ys = Some c)"

lemma messages_live_snoc:
  "messages_live (xs @ [x]) \<longleftrightarrow>
     messages_live xs \<and> (case x of TMessage c m \<Rightarrow> live None xs = Some c | _ \<Rightarrow> True)"
proof
  assume a: "messages_live (xs @ [x])"
  have "messages_live xs"
    unfolding messages_live_def
  proof (intro allI impI)
    fix ys c m zs assume "xs = ys @ TMessage c m # zs"
    then have "xs @ [x] = ys @ TMessage c m # (zs @ [x])" by simp
    with a show "live None ys = Some c" unfolding messages_live_def by blast
  qed
  moreover have "case x of TMessage c m \<Rightarrow> live None xs = Some c | _ \<Rightarrow> True"
    using a unfolding messages_live_def by (cases x) auto
  ultimately show "messages_live xs \<and> (case x of TMessage c m \<Rightarrow> live None xs = Some c | _ \<Rightarrow> True)" ..
next
  assume b: "messages_live xs \<and> (case x of TMessage c m \<Rightarrow> live None xs = Some c | _ \<Rightarrow> True)"
  show "messages_live (xs @ [x])"
    unfolding messages_live_def
  proof (intro allI impI)
    fix ys c m zs assume e: "xs @ [x] = ys @ TMessage c m # zs"
    show "live None ys = Some c"
    proof (cases zs rule: rev_cases)
      case Nil
      with e b show ?thesis by simp
    next
      case (snoc zs' z)
      with e have "xs = ys @ TMessage c m # zs'" by simp
      with b show ?thesis unfolding messages_live_def by blast
    qed
  qed
qed

text \<open>The connection that a phase holds, and the connections that are open.\<close>

fun holds :: "phase \<Rightarrow> nat option" where
  "holds (Shaking c) = Some c"
| "holds (Announcing c) = Some c"
| "holds (Serving c) = Some c"
| "holds p = None"

definition open_set :: "bool list \<Rightarrow> nat set" where
  "open_set xs = {i. i < length xs \<and> xs ! i}"

lemma nth_closed: "i < length xs \<Longrightarrow> xs[c := False] ! i \<longleftrightarrow> i \<noteq> c \<and> xs ! i"
  by (cases "i = c") auto

lemma open_set_simps [simp]:
  "open_set [] = {}"
  "open_set (xs[c := False]) = open_set xs - {c}" "open_set (xs @ [True]) = insert (length xs) (open_set xs)"
  by (auto simp: open_set_def nth_closed nth_append less_Suc_eq split: if_splits)

text \<open>At most the connection in use is open; it is the one that \<^verbatim>\<open>Write\<close> finds; messages are of live connections.\<close>

definition open_ok :: "tclient \<Rightarrow> bool" where
  "open_ok s \<longleftrightarrow>
     open_set (tc_open s) \<subseteq> set_option (holds (tc_phase s)) \<and>
     set_option (holds (tc_phase s)) \<subseteq> {..<length (tc_open s)}"

definition conn_ok :: "tclient \<Rightarrow> bool" where
  "conn_ok s \<longleftrightarrow>
     tc_conn s = (case tc_phase s of Announcing c \<Rightarrow> Some c | Serving c \<Rightarrow> Some c | _ \<Rightarrow> None) \<and>
     (tc_running s \<longleftrightarrow> tc_phase s \<noteq> Idle)"

definition calls_ok :: "tclient \<Rightarrow> bool" where
  "calls_ok s \<longleftrightarrow>
     messages_live (tc_calls s) \<and>
     (\<forall>c. tc_phase s = Serving c \<longrightarrow> live None (tc_calls s) = Some c)"

definition tc_inv :: "tclient \<Rightarrow> bool" where
  "tc_inv s \<longleftrightarrow> open_ok s \<and> conn_ok s \<and> calls_ok s"

lemma tc_inv_new: "tc_inv new_tclient"
  by (simp add: tc_inv_def new_tclient_def messages_live_def open_ok_def conn_ok_def calls_ok_def)

lemmas tc_defs = tc_run_def tc_return_def shut_conn_def tc_call_def tc_close_def dial_step_def
  shake_step_def read_turn_step_def top_step_def failed_step_def announce_step_def notify_step_def Let_def

lemma open_ok_shut: "open_ok s \<Longrightarrow> open_ok (shut_conn c s)"
  unfolding open_ok_def shut_conn_def by auto

lemma open_ok_leave:
  "open_ok s \<Longrightarrow> holds (tc_phase s) = Some c \<Longrightarrow> holds p = None \<Longrightarrow>
   open_ok ((shut_conn c s)\<lparr>tc_phase := p\<rparr>)"
  unfolding open_ok_def shut_conn_def by auto

lemma open_ok_phase:
  "open_ok s \<Longrightarrow> tc_open s' = tc_open s \<Longrightarrow> holds (tc_phase s') = holds (tc_phase s) \<Longrightarrow> open_ok s'"
  unfolding open_ok_def by auto

lemma open_ok_call: "open_ok s \<Longrightarrow> open_ok (tc_call x s)"
  by (erule open_ok_phase) (simp_all add: tc_call_def)

lemma open_ok_dial:
  assumes "open_ok s" and "holds (tc_phase s) = None"
  shows "open_ok (dial_step r s)"
proof (cases r)
  case None
  with assms show ?thesis unfolding open_ok_def dial_step_def by auto
next
  case (Some e)
  with open_ok_phase [OF assms(1), of "s\<lparr>tc_phase := Failed e\<rparr>"] assms(2) show ?thesis
    by (simp add: dial_step_def)
qed

lemma open_ok_shake:
  assumes "open_ok s" and "tc_phase s = Shaking c"
  shows "open_ok (shake_step r c s)"
proof -
  have f: "open_ok ((shut_conn c s)\<lparr>tc_phase := Failed e\<rparr>)" for e
    using open_ok_leave [OF assms(1), of c] assms(2) by simp
  have "open_ok (s\<lparr>tc_conn := Some c, tc_phase := Announcing c\<rparr>)"
    by (rule open_ok_phase [OF assms(1)]) (simp_all add: assms(2))
  with f show ?thesis by (simp add: shake_step_def open_ok_call split: option.split)
qed

lemma open_ok_read:
  assumes "open_ok s" and "tc_phase s = Serving c"
  shows "open_ok (read_turn_step r c s)"
proof (cases r)
  case (Inl e)
  have "open_ok ((shut_conn c s)\<lparr>tc_phase := Failed e\<rparr>)"
    using open_ok_leave [OF assms(1), of c] assms(2) by simp
  then have "open_ok ((shut_conn c s)\<lparr>tc_conn := x, tc_phase := Failed e\<rparr>)" for x
    by (rule open_ok_phase) simp_all
  with Inl show ?thesis by (simp add: read_turn_step_def Let_def)
next
  case (Inr m)
  with assms(1) show ?thesis by (simp add: read_turn_step_def open_ok_call)
qed

lemma tc_return_simps [simp]:
  "tc_open (tc_return s) = tc_open s" "tc_phase (tc_return s) = Idle" "tc_calls (tc_return s) = tc_calls s"
  by (simp_all add: tc_return_def)

lemma open_ok_return: "open_ok s \<Longrightarrow> holds (tc_phase s) = None \<Longrightarrow> open_ok (tc_return s)"
  by (erule open_ok_phase) simp_all

lemma open_ok_step:
  assumes "open_ok s" and "conn_ok s" and "tc_step ev s = Some s'"
  shows "open_ok s'"
proof (cases ev)
  case (TRun b)
  have "holds (tc_phase s) = None" if "\<not> tc_running s" using that assms(2) by (simp add: conn_ok_def)
  with TRun assms(1,3) show ?thesis
    by (auto simp: tc_run_def elim!: open_ok_phase split: if_splits)
next
  case TTurn
  with assms(1,3) show ?thesis
    by (auto simp: top_step_def failed_step_def announce_step_def notify_step_def tc_call_def
        open_ok_return elim!: open_ok_phase split: phase.splits if_splits)
next
  case (TDial r)
  with assms(1,3) show ?thesis by (auto simp: open_ok_dial split: if_splits)
next
  case (TShake r)
  with assms(1,3) show ?thesis by (auto simp: open_ok_shake split: phase.splits)
next
  case (TRead r)
  with assms(1,3) show ?thesis by (auto simp: open_ok_read split: phase.splits)
next
  case (TWake b)
  with assms(1,3) show ?thesis
    by (auto simp: open_ok_return elim!: open_ok_phase split: if_splits)
next
  case TClose
  have "open_ok (s\<lparr>tc_closed := True, tc_cancel := True\<rparr>)" using assms(1) by (auto elim!: open_ok_phase)
  with TClose assms(3) show ?thesis
    by (auto simp: tc_close_def Let_def split: option.splits intro: open_ok_shut)
next
  case TCancel
  with assms(1,3) show ?thesis by (auto elim!: open_ok_phase split: if_splits)
next
  case (TDrop c)
  with assms(1,3) show ?thesis by (auto intro: open_ok_shut)
qed

lemma conn_ok_step: "conn_ok s \<Longrightarrow> tc_step ev s = Some s' \<Longrightarrow> conn_ok s'"
  by (cases ev; cases "tc_phase s")
    (auto simp: conn_ok_def tc_defs split: if_splits option.splits sum.splits)

lemma calls_ok_step: "calls_ok s \<Longrightarrow> tc_step ev s = Some s' \<Longrightarrow> calls_ok s'"
  by (cases ev; cases "tc_phase s")
    (auto simp: calls_ok_def tc_defs messages_live_snoc split: if_splits option.splits sum.splits)

lemma tc_inv_steps: "tc_steps evs s = Some s' \<Longrightarrow> tc_inv s \<Longrightarrow> tc_inv s'"
  by (induction evs arbitrary: s)
    (auto simp: tc_inv_def split: option.splits simp del: tc_step.simps
      dest: open_ok_step conn_ok_step calls_ok_step)

section \<open>After Close\<close>

text \<open>No step but a new \<^verbatim>\<open>Run\<close> reopens a closed client.\<close>

definition tc_shut :: "tclient \<Rightarrow> bool" where
  "tc_shut s \<longleftrightarrow> tc_closed s \<and> tc_cancel s"

text \<open>The callback that is already due.\<close>

fun due :: "phase \<Rightarrow> tcall set" where
  "due (Announcing c) = {TConnect c}"
| "due (Notifying e) = {TDisconnect e}"
| "due p = {}"

fun is_message :: "tcall \<Rightarrow> bool" where
  "is_message (TMessage c m) \<longleftrightarrow> True"
| "is_message x \<longleftrightarrow> False"

lemma tc_shut_step:
  assumes "tc_step ev s = Some s'" and "tc_shut s" and "\<And>b. ev \<noteq> TRun b"
  shows "tc_shut s' \<and> (\<exists>l. tc_calls s' = tc_calls s @ l \<and>
    set (filter (\<lambda>x. \<not> is_message x) l) \<union> due (tc_phase s') \<subseteq> due (tc_phase s))"
proof (cases ev)
  case (TRead r)
  with assms(1,2) show ?thesis
    by (auto simp: tc_shut_def tc_defs split: phase.splits sum.splits)
next
  case TTurn
  with assms(1,2) show ?thesis
    by (auto simp: tc_shut_def tc_defs split: phase.splits)
qed (use assms in \<open>auto simp: tc_shut_def tc_defs split: phase.splits if_splits option.splits\<close>)

lemma tc_shut_steps:
  "tc_steps evs s = Some s' \<Longrightarrow> tc_shut s \<Longrightarrow> \<forall>b. TRun b \<notin> set evs \<Longrightarrow>
   \<exists>l. tc_calls s' = tc_calls s @ l \<and> set (filter (\<lambda>x. \<not> is_message x) l) \<subseteq> due (tc_phase s)"
proof (induction evs arbitrary: s)
  case (Cons ev evs)
  from Cons.prems(1) obtain s1 where s1: "tc_step ev s = Some s1" "tc_steps evs s1 = Some s'"
    by (auto split: option.splits simp del: tc_step.simps)
  have "ev \<noteq> TRun b" for b using Cons.prems(3) by auto
  from tc_shut_step [OF s1(1) Cons.prems(2) this] obtain l where
    l: "tc_shut s1" "tc_calls s1 = tc_calls s @ l"
      "set (filter (\<lambda>x. \<not> is_message x) l) \<union> due (tc_phase s1) \<subseteq> due (tc_phase s)"
    by blast
  from Cons.IH [OF s1(2) l(1)] Cons.prems(3) obtain k where
    "tc_calls s' = tc_calls s1 @ k" "set (filter (\<lambda>x. \<not> is_message x) k) \<subseteq> due (tc_phase s1)" by auto
  with l show ?case by (intro exI [of _ "l @ k"]) auto
qed auto

text \<open>The steps that end a closed client, whatever it is doing, without anything from the network but an error.\<close>

fun ending :: "tclient \<Rightarrow> tc_event list" where
  "ending s = (case tc_phase s of
      Idle \<Rightarrow> [] | Top \<Rightarrow> [TTurn] | Failed e \<Rightarrow> [TTurn] | Sleeping \<Rightarrow> [TWake False]
    | Dialing \<Rightarrow> [TDial (Some ErrNetClosed), TTurn]
    | Shaking c \<Rightarrow> [TShake (Some ErrNetClosed), TTurn]
    | Announcing c \<Rightarrow> [TTurn, TRead (Inl ErrNetClosed), TTurn]
    | Serving c \<Rightarrow> [TRead (Inl ErrNetClosed), TTurn]
    | Notifying e \<Rightarrow> [TTurn, TWake False])"

lemma ending_ends:
  assumes "tc_shut s"
  shows "\<exists>s'. tc_steps (ending s) s = Some s' \<and> tc_phase s' = Idle"
  using assms by (cases "tc_phase s") (auto simp: tc_shut_def tc_defs)

section \<open>Properties\<close>

text \<open>
  C31: The client leaks no connection and confuses none. Whatever the network, the timers and the
  callers do, in any order: at most one dialled connection is open, the one in use, and none when
  \<^verbatim>\<open>Run\<close> is not running; \<^verbatim>\<open>Write\<close> finds exactly the connection being served, and an error
  otherwise; and every \<^verbatim>\<open>OnMessage\<close> is for the connection of the last \<^verbatim>\<open>OnConnect\<close>, with no
  \<^verbatim>\<open>OnDisconnect\<close> since.
\<close>

theorem client_connections:
  assumes "tc_steps evs new_tclient = Some s"
  shows "open_set (tc_open s) \<subseteq> set_option (holds (tc_phase s)) \<and>
    (\<not> tc_running s \<longrightarrow> open_set (tc_open s) = {}) \<and>
    tc_write s = (case tc_phase s of Announcing c \<Rightarrow> Inr c | Serving c \<Rightarrow> Inr c | _ \<Rightarrow> Inl ErrClosed) \<and>
    (\<forall>xs c m ys. tc_calls s = xs @ TMessage c m # ys \<longrightarrow> live None xs = Some c)"
proof -
  have "tc_inv s" by (rule tc_inv_steps [OF assms tc_inv_new])
  then have o: "open_set (tc_open s) \<subseteq> set_option (holds (tc_phase s))"
    and c: "tc_conn s = (case tc_phase s of Announcing c \<Rightarrow> Some c | Serving c \<Rightarrow> Some c | _ \<Rightarrow> None)"
      "tc_running s \<longleftrightarrow> tc_phase s \<noteq> Idle"
    and m: "messages_live (tc_calls s)"
    by (simp_all add: tc_inv_def open_ok_def conn_ok_def calls_ok_def)
  from c(1) have "tc_write s = (case tc_phase s of Announcing c \<Rightarrow> Inr c | Serving c \<Rightarrow> Inr c | _ \<Rightarrow> Inl ErrClosed)"
    by (simp add: tc_write_def split: phase.split)
  moreover have "\<not> tc_running s \<longrightarrow> open_set (tc_open s) = {}" using o c(2) by auto
  ultimately show ?thesis using o m unfolding messages_live_def by blast
qed

theorem client_connections_witness:
  "\<exists>s. tc_steps [TRun False, TTurn, TDial None, TShake None, TTurn, TRead (Inr [1]),
     TRead (Inl ErrEOF), TTurn, TTurn]
     new_tclient = Some s \<and>
   tc_calls s = [TConnect 0, TMessage 0 [1], TDisconnect ErrEOF] \<and> tc_write s = Inl ErrClosed"
proof -
  obtain s where s: "tc_steps [TRun False, TTurn, TDial None, TShake None, TTurn, TRead (Inr [1]),
     TRead (Inl ErrEOF), TTurn, TTurn] new_tclient = Some s"
    "tc_calls s = [TConnect 0, TMessage 0 [1], TDisconnect ErrEOF]" "tc_phase s = Sleeping"
    by (simp add: new_tclient_def tc_defs)
  with client_connections [OF s(1)] show ?thesis by simp
qed



text \<open>A delay lies between its base and its base plus the jitter.\<close>

lemma randomInterval_bounds:
  assumes "\<And>n. draw jitter = Some n \<Longrightarrow> 0 \<le> n \<and> n < jitter" and "0 < base" and "base + jitter < 2 ^ 63"
  shows "base \<le> randomInterval draw base jitter \<and>
    (jitter \<le> 0 \<longrightarrow> randomInterval draw base jitter = base) \<and>
    (0 < jitter \<longrightarrow> randomInterval draw base jitter < base + jitter)"
proof -
  have "wrap64 (base + n) = base + n" if "0 \<le> n" "n < jitter" for n
    using that assms(2,3) by (simp add: wrap64_def signed_take_bit_int_eq_self_iff)
  with assms(1,2) show ?thesis by (auto simp: randomInterval_def Let_def split: option.splits)
qed

end
