(* ===== verification/Vlan_Client.thy ===== *)
theory Vlan_Client
  imports Peers Dhcp_Message Config Tun_Routes Tun_Tunnel Reconnect
begin

text \<open>
  \<^verbatim>\<open>vlan/client.go\<close> and the client's half of \<^verbatim>\<open>vlan/events.go\<close>: the session of a client, from the
  connection over the proof of identity and the address request to the forwarding of packets.
  Connections are indices into the list of all connections made; the handlers are the callbacks
  of the transport. Whether a TUN device can be made, and for
  how many packets at once, is a parameter.
\<close>

section \<open>State\<close>

record client_session =
  cs_conn :: "nat option"
  cs_clientID :: string
  cs_reqID :: string
  cs_ready :: bool
  cs_remote :: string
  cs_lastIP :: string
  cs_lastMask :: string
  cs_lastGW :: string
  cs_lastDNS :: "string list"

definition no_session :: client_session where
  "no_session =
     \<lparr>cs_conn = None, cs_clientID = [], cs_reqID = [], cs_ready = False, cs_remote = [],
      cs_lastIP = [], cs_lastMask = [], cs_lastGW = [], cs_lastDNS = []\<rparr>"

text \<open>
  \<open>k_forwarding\<close>: the loop \<^verbatim>\<open>tunToTCP\<close> runs; \<open>k_route\<close> and \<open>k_log\<close> are the state and the commands of
  \<^verbatim>\<open>tunSetup\<close>; \<open>k_assigned\<close> is what the assignment callback was given.
\<close>

record client =
  k_stats :: traffic_counter
  k_conf :: client_config
  k_tun :: "tunnel option"
  k_started :: bool
  k_session :: client_session
  k_conns :: "conn_st list"
  k_forwarding :: bool
  k_route :: proxy_route
  k_log :: cmd_log
  k_assigned :: "vdhcp_info list"

record client_env =
  ce_crypto :: crypto
  ce_json :: json_codec
  ce_host :: host_env
  ce_tun :: "string \<Rightarrow> int \<Rightarrow> int option"

datatype client_error =
    DecodeFailed vdhcp_error | NakReceived string | OfferInvalid vdhcp_error
  | TunFailed | PolicyFailed tun_error | AddressFailed tun_error | RoutingFailed setup_error

definition NewVlanClient :: "client_config \<Rightarrow> client" where
  "NewVlanClient conf =
     \<lparr>k_stats = zero_counter, k_conf = conf, k_tun = None, k_started = False,
      k_session = no_session, k_conns = [], k_forwarding = False, k_route = no_proxy_route,
      k_log = [], k_assigned = []\<rparr>"

text \<open>
  The timings of the transport, and \<^verbatim>\<open>initTransport\<close>: the transport made of them and the server's key,
  and the client's own identity.
\<close>

definition client_transport :: "transport_config \<Rightarrow> tclient_config" where
  "client_transport c =
     \<lparr>tcf_base = \<lparr>magic = 0, version = 0, readTimeout = ClientReadTimeout c, writeTimeout = ClientWriteTimeout c,
        maxPayload = 0, heartbeatBase = ClientHeartbeatBase c, heartbeatJitter = ClientHeartbeatJitter c,
        keyRotateInterval = KeyRotateInterval c, oldKeyGrace = ClientOldKeyGrace c, replaySize = 0\<rparr>,
      tcf_reconnectBase = ReconnectBase c, tcf_reconnectJitter = ReconnectJitter c\<rparr>"

definition initTransport :: "crypto \<Rightarrow> client_config \<Rightarrow> tcp_error + (tclient_config \<times> bytes) \<times> string" where
  "initTransport C conf =
     (case NormalizePublicKeyHex (cc_serverPublicKey conf) of
        Inl e \<Rightarrow> Inl e
      | Inr pub \<Rightarrow>
          (case PublicKeyHexFromPrivate C (cc_privateKey conf) of
             Inl e \<Rightarrow> Inl e
           | Inr clientID \<Rightarrow>
               (case tcpx_NewClient (client_transport (cc_tcp conf)) pub of
                  Inl e \<Rightarrow> Inl e
                | Inr transport \<Rightarrow> Inr (transport, clientID))))"

text \<open>A second \<^verbatim>\<open>Start\<close> is ignored; with a bad key the process ends, which the model gives as an error.\<close>

definition client_start :: "crypto \<Rightarrow> client \<Rightarrow> tcp_error + client" where
  "client_start C s =
     (if k_started s then Inr s
      else map_sum id (\<lambda>_. s\<lparr>k_started := True\<rparr>) (initTransport C (k_conf s)))"

definition upd_kconn :: "nat \<Rightarrow> (conn_st \<Rightarrow> conn_st) \<Rightarrow> client \<Rightarrow> client" where
  "upd_kconn c f s = s\<lparr>k_conns := (k_conns s)[c := f (k_conns s ! c)]\<rparr>"

definition k_close :: "nat \<Rightarrow> client \<Rightarrow> client" where
  "k_close c s = upd_kconn c conn_close s"

definition k_write :: "nat \<Rightarrow> bytes \<Rightarrow> client \<Rightarrow> bool \<times> client" where
  "k_write c payload s =
     (fst (conn_write payload (k_conns s ! c)), upd_kconn c (\<lambda>cn. snd (conn_write payload cn)) s)"

section \<open>Sessions\<close>

definition isCurrentConn :: "nat \<Rightarrow> client \<Rightarrow> bool" where
  "isCurrentConn c s \<longleftrightarrow> cs_conn (k_session s) = Some c"

definition isReadyConn :: "nat \<Rightarrow> client \<Rightarrow> bool" where
  "isReadyConn c s \<longleftrightarrow> cs_conn (k_session s) = Some c \<and> cs_ready (k_session s)"

definition readyConn :: "client \<Rightarrow> nat option" where
  "readyConn s = (if cs_ready (k_session s) then cs_conn (k_session s) else None)"

text \<open>
  The connection \<open>c\<close> is the last of the list; the random bytes of the proof and of the request,
  and the clock, are arguments.
\<close>

definition client_onTCPConnect ::
    "client_env \<Rightarrow> bytes \<Rightarrow> bytes \<Rightarrow> int \<Rightarrow> nat \<Rightarrow> client \<Rightarrow> client" where
  "client_onTCPConnect E entA entD now c s =
     (case EncodeClientAuth (ce_crypto E) (cc_privateKey (k_conf s)) (cc_serverPublicKey (k_conf s)) entA of
        Inl e \<Rightarrow> k_close c s
      | Inr (auth, clientID) \<Rightarrow>
          (case EncodeDiscover (ce_json E) entD now of (discover, reqID) \<Rightarrow>
             let s1 = s\<lparr>k_session := no_session
                          \<lparr>cs_conn := Some c, cs_clientID := clientID, cs_reqID := reqID,
                           cs_remote := cn_remote (k_conns s ! c)\<rparr>\<rparr>
             in case k_write c (Pack TypeAuth auth) s1 of
                  (False, s2) \<Rightarrow> k_close c s2
                | (True, s2) \<Rightarrow>
                    (case k_write c (Pack TypeVDHCP discover) s2 of
                       (False, s3) \<Rightarrow> k_close c s3
                     | (True, s3) \<Rightarrow> s3)))"

definition client_onTCPDisconnect :: "client \<Rightarrow> client" where
  "client_onTCPDisconnect s = s\<lparr>k_session := no_session\<rparr>"

text \<open>\<^verbatim>\<open>initTun\<close> stores the device before it sets the policy.\<close>

definition initTun :: "client_env \<Rightarrow> int \<Rightarrow> client \<Rightarrow> client_error option \<times> client" where
  "initTun E mtu s =
     (case ce_tun E (cc_ifName (k_conf s)) mtu of
        None \<Rightarrow> (Some TunFailed, s\<lparr>k_tun := None\<rparr>)
      | Some batchSize \<Rightarrow>
          let s1 = s\<lparr>k_tun := Some (NewTUNTunnel batchSize)\<rparr>
          in case AllowTunTraffic (cc_ifName (k_conf s)) of
               Some e \<Rightarrow> (Some (PolicyFailed e), s1)
             | None \<Rightarrow> (None, s1))"

text \<open>The part of \<^verbatim>\<open>configureAddress\<close> after the device is there.\<close>

definition configure_routes ::
    "client_env \<Rightarrow> string \<Rightarrow> string \<Rightarrow> string \<Rightarrow> string list \<Rightarrow> client \<Rightarrow> client_error option \<times> client" where
  "configure_routes E ip msk gateway dns s =
     (case ConfigureTunAddress (ce_host E) (cc_ifName (k_conf s)) ip msk (k_log s) of
        (Some e, log1) \<Rightarrow> (Some (AddressFailed e), s\<lparr>k_log := log1\<rparr>)
      | (None, log1) \<Rightarrow>
          if \<not> cc_proxy (k_conf s) then (None, s\<lparr>k_log := log1\<rparr>)
          else
            (case CleanupClientProxyRouting (ce_host E) (k_route s) log1 of (r2, log2) \<Rightarrow>
               (case SetupClientProxyRouting (ce_host E) (cc_server (k_conf s))
                       (cc_ifName (k_conf s)) gateway dns r2 log2 of
                  (err, r3, log3) \<Rightarrow>
                    (map_option RoutingFailed err, s\<lparr>k_route := r3, k_log := log3\<rparr>))))"

definition configureAddress ::
    "client_env \<Rightarrow> string \<Rightarrow> string \<Rightarrow> string \<Rightarrow> string list \<Rightarrow> int \<Rightarrow> client \<Rightarrow>
     client_error option \<times> client" where
  "configureAddress E ip msk gateway dns mtu s =
     (case k_tun s of
        Some t \<Rightarrow> configure_routes E ip msk gateway dns s
      | None \<Rightarrow>
          (case initTun E mtu s of
             (Some e, s1) \<Rightarrow> (Some e, s1)
           | (None, s1) \<Rightarrow>
               configure_routes E ip msk gateway dns (s1\<lparr>k_forwarding := True\<rparr>)))"

definition client_handleVDHCP ::
    "client_env \<Rightarrow> nat \<Rightarrow> bytes \<Rightarrow> client \<Rightarrow> client_error option \<times> client" where
  "client_handleVDHCP E c payload s =
     (case DecodeMessage (ce_json E) payload of
        Inl e \<Rightarrow> (Some (DecodeFailed e), s)
      | Inr msg \<Rightarrow>
          if msg_type msg = MessageTypeNak then (Some (NakReceived (msg_reason msg)), s)
          else if cs_ready (k_session s) then (None, s)
          else (case ValidateOffer msg (cs_reqID (k_session s)) of
              Some e \<Rightarrow> (Some (OfferInvalid e), s)
            | None \<Rightarrow>
                (case configureAddress E (msg_ip msg) (msg_mask msg) (msg_gateway msg) (msg_dns msg)
                        (msg_mtu msg) s of
                   (Some e, s1) \<Rightarrow> (Some e, s1)
                 | (None, s1) \<Rightarrow>
                     if cs_conn (k_session s1) \<noteq> Some c then (None, s1)
                     else
                       let se = (k_session s1)\<lparr>cs_ready := True, cs_lastIP := msg_ip msg,
                                  cs_lastMask := msg_mask msg, cs_lastGW := msg_gateway msg,
                                  cs_lastDNS := msg_dns msg\<rparr>;
                           info = \<lparr>i_client = cs_clientID se, i_remote = cs_remote se,
                                   i_ip = msg_ip msg, i_mask = msg_mask msg,
                                   i_gateway = msg_gateway msg, i_dns = msg_dns msg,
                                   i_mtu = msg_mtu msg, i_lease = msg_lease msg\<rparr>
                       in (None, s1\<lparr>k_session := se,
                                    k_assigned := (if msg_ip msg \<noteq> [] then k_assigned s1 @ [info]
                                                   else k_assigned s1)\<rparr>))))"

text \<open>
  \<open>None\<close>: the handler waits for room in the queue of the device; \<open>pick\<close> is the choice of
  \<^verbatim>\<open>TUNTunnel.Write\<close> when the device is closed.
\<close>

definition client_onTCPMessage ::
    "client_env \<Rightarrow> bool \<Rightarrow> nat \<Rightarrow> bytes \<Rightarrow> client \<Rightarrow> client option" where
  "client_onTCPMessage E pick c raw s =
     (if \<not> isCurrentConn c s then Some s
      else (case Unpack raw of
          Inl e \<Rightarrow> Some (k_close c s)
        | Inr (TypeVDHCP, payload) \<Rightarrow>
            (case client_handleVDHCP E c payload s of
               (Some e, s1) \<Rightarrow> Some (k_close c s1)
             | (None, s1) \<Rightarrow> Some s1)
        | Inr (TypeIP, payload) \<Rightarrow>
            if \<not> isReadyConn c s then Some s
            else (case k_tun s of
                None \<Rightarrow> Some s
              | Some t \<Rightarrow>
                  map_option (\<lambda>(ok, t1). s\<lparr>k_stats := AddDownload (length payload) (k_stats s),
                                              k_tun := Some t1\<rparr>)
                    (tt_write pick payload t))
        | Inr (TypeAuth, payload) \<Rightarrow> Some s))"

text \<open>What \<^verbatim>\<open>tunToTCP\<close> does with one packet.\<close>

definition tun_to_tcp :: "bytes \<Rightarrow> client \<Rightarrow> client" where
  "tun_to_tcp pkt s =
     (case readyConn s of
        None \<Rightarrow> s
      | Some c \<Rightarrow>
          (case k_write c (Pack TypeIP pkt) s of
             (False, s1) \<Rightarrow> k_close c s1
           | (True, s1) \<Rightarrow> s1\<lparr>k_stats := AddUpload (length pkt) (k_stats s1)\<rparr>))"

text \<open>One turn of \<^verbatim>\<open>tunToTCP\<close>; the loop ends with the queue of the device.\<close>

definition forward_turn :: "client \<Rightarrow> client option" where
  "forward_turn s =
     (if \<not> k_forwarding s then None
      else (case k_tun s of
          None \<Rightarrow> None
        | Some t \<Rightarrow>
            (case tt_receive t of
               None \<Rightarrow> None
             | Some (Inl _) \<Rightarrow> Some (s\<lparr>k_forwarding := False\<rparr>)
             | Some (Inr (pkt, t1)) \<Rightarrow> Some (tun_to_tcp pkt (s\<lparr>k_tun := Some t1\<rparr>)))))"

text \<open>
  \<^verbatim>\<open>Stop\<close>: the transport closes its connection, given here, and the routes and the device go.
\<close>

definition client_stop :: "client_env \<Rightarrow> nat option \<Rightarrow> client \<Rightarrow> client" where
  "client_stop E current s =
     (if \<not> k_started s then s
      else
        let s1 = s\<lparr>k_started := False, k_session := no_session\<rparr>;
            s2 = (case current of Some c \<Rightarrow> k_close c s1 | None \<Rightarrow> s1);
            (r, log) = CleanupClientProxyRouting (ce_host E) (k_route s2) (k_log s2)
        in s2\<lparr>k_forwarding := False, k_route := r, k_log := log,
              k_tun := map_option tt_close (k_tun s2)\<rparr>)"

section \<open>Steps\<close>

text \<open>
  \<open>KLost\<close>: the transport has closed a connection because reading it failed; it tells the client
  later, with \<open>KDisconnect\<close>.
\<close>

datatype client_event =
    KStart
  | KConnect string nat bytes bytes
  | KLost nat
  | KDisconnect
  | KMessage nat bytes bool
  | KForward
  | KTunTurn tunnel_event
  | KStop "nat option"

fun client_step :: "client_env \<Rightarrow> int \<Rightarrow> client_event \<Rightarrow> client \<Rightarrow> client option" where
  "client_step E now KStart s =
     (case client_start (ce_crypto E) s of Inl e \<Rightarrow> None | Inr s1 \<Rightarrow> Some s1)"
| "client_step E now (KConnect remote room entA entD) s =
     Some (client_onTCPConnect E entA entD now (length (k_conns s))
       (s\<lparr>k_conns := k_conns s @ [\<lparr>cn_remote = remote, cn_closed = False, cn_room = room, cn_sent = []\<rparr>]\<rparr>))"
| "client_step E now (KLost c) s = (if c < length (k_conns s) then Some (k_close c s) else None)"
| "client_step E now KDisconnect s = Some (client_onTCPDisconnect s)"
| "client_step E now (KMessage c raw pick) s =
     (if c < length (k_conns s) then client_onTCPMessage E pick c raw s else None)"
| "client_step E now KForward s = forward_turn s"
| "client_step E now (KTunTurn ev) s =
     (case k_tun s of
        None \<Rightarrow> None
      | Some t \<Rightarrow> map_option (\<lambda>t1. s\<lparr>k_tun := Some t1\<rparr>) (tunnel_step ev t))"
| "client_step E now (KStop current) s = Some (client_stop E current s)"

inductive client_run :: "client_env \<Rightarrow> client \<Rightarrow> client \<Rightarrow> bool" for E s where
  start: "client_run E s s"
| step: "\<lbrakk>client_run E s s1; client_step E now ev s1 = Some s2\<rbrakk> \<Longrightarrow> client_run E s s2"

end
