(* ===== verification/Client_Safety.thy ===== *)
theory Client_Safety
  imports Vlan_Client
begin

text \<open>
  The invariant of the client over every sequence of events, and what it says about the packets
  that pass between the TUN device and the connection.
\<close>

section \<open>The invariant\<close>

text \<open>
  The command that gives the interface an address; its success shows in the log.
\<close>

definition address_set :: "client_config \<Rightarrow> string \<Rightarrow> cmd_log \<Rightarrow> bool" where
  "address_set conf ip log \<longleftrightarrow>
     (\<exists>n. ([''ip'', ''addr'', ''replace'', ip @ ''/'' @ decimal n, ''dev'', cc_ifName conf], True) \<in> set log)"

definition session_ok :: "client \<Rightarrow> bool" where
  "session_ok s \<longleftrightarrow>
     (case cs_conn (k_session s) of None \<Rightarrow> \<not> cs_ready (k_session s) | Some c \<Rightarrow> c < length (k_conns s)) \<and>
     (cs_ready (k_session s) \<longrightarrow>
        k_tun s \<noteq> None \<and> address_set (k_conf s) (cs_lastIP (k_session s)) (k_log s) \<and>
        (\<exists>msg. ValidateOffer msg (cs_reqID (k_session s)) = None \<and>
           cs_lastIP (k_session s) = msg_ip msg \<and> cs_lastMask (k_session s) = msg_mask msg \<and>
           cs_lastGW (k_session s) = msg_gateway msg \<and> cs_lastDNS (k_session s) = msg_dns msg)) \<and>
     (k_forwarding s \<longrightarrow> k_tun s \<noteq> None)"

text \<open>What a step may do to connections and device apart from sending.\<close>

lemma upd_kconn_simps [simp]:
  "k_session (upd_kconn c f s) = k_session s" "k_tun (upd_kconn c f s) = k_tun s"
  "k_log (upd_kconn c f s) = k_log s" "k_conf (upd_kconn c f s) = k_conf s"
  "k_forwarding (upd_kconn c f s) = k_forwarding s" "k_route (upd_kconn c f s) = k_route s"
  "length (k_conns (upd_kconn c f s)) = length (k_conns s)" "k_stats (upd_kconn c f s) = k_stats s"
  "k_started (upd_kconn c f s) = k_started s" "k_assigned (upd_kconn c f s) = k_assigned s"
  by (simp_all add: upd_kconn_def)

lemma k_close_simps [simp]:
  "k_session (k_close c s) = k_session s" "k_tun (k_close c s) = k_tun s"
  "k_log (k_close c s) = k_log s" "k_conf (k_close c s) = k_conf s"
  "k_forwarding (k_close c s) = k_forwarding s" "k_route (k_close c s) = k_route s"
  "length (k_conns (k_close c s)) = length (k_conns s)"
  by (simp_all add: k_close_def)

lemma session_ok_cong:
  assumes "k_session s' = k_session s" "length (k_conns s') = length (k_conns s)"
    "k_tun s' = None \<longleftrightarrow> k_tun s = None" "k_log s' = k_log s" "k_conf s' = k_conf s"
    "k_forwarding s' = k_forwarding s"
  shows "session_ok s' = session_ok s"
  unfolding session_ok_def assms ..

lemma session_ok_close [simp]: "session_ok (k_close c s) = session_ok s"
  by (rule session_ok_cong) simp_all

lemma client_start_InrD:
  "client_start C s = Inr s' \<Longrightarrow> s' = s \<or> s' = s\<lparr>k_started := True\<rparr>"
  by (cases "initTransport C (k_conf s)") (auto simp: client_start_def split: if_splits)

lemma k_write_state: "k_write c p s = (b, s') \<Longrightarrow> s' = upd_kconn c (\<lambda>cn. snd (conn_write p cn)) s"
  by (simp add: k_write_def)

lemma session_ok_write: "k_write c p s = (b, s') \<Longrightarrow> session_ok s' = session_ok s"
  by (drule k_write_state) (simp add: session_ok_cong [of "upd_kconn c f s" s for f])

section \<open>Address configuration\<close>

lemma exec_err_success: "exec_err E argv log = (None, log') \<Longrightarrow> (argv, True) \<in> set log'"
  by (auto simp: exec_err_def exec_cmd_def Let_def split: if_splits)

lemma exec_err_prefix: "exec_err E argv log = (e, log') \<Longrightarrow> set log \<subseteq> set log'"
  by (auto simp: exec_err_def exec_cmd_def Let_def)

lemma ConfigureTunAddress_prefix: "ConfigureTunAddress E i ip m log = (e, log') \<Longrightarrow> set log \<subseteq> set log'"
  by (auto simp: ConfigureTunAddress_def split: sum.splits prod.splits option.splits
      dest!: exec_err_prefix)

lemma ConfigureTunAddress_set:
  "ConfigureTunAddress E (cc_ifName conf) ip m log = (None, log') \<Longrightarrow> address_set conf ip log'"
  by (auto simp: ConfigureTunAddress_def address_set_def split: sum.splits prod.splits option.splits
      dest!: exec_err_success)

named_theorems log_grows \<open>operations that only add commands\<close>

lemma exec_err_grows [log_grows]: "set log \<subseteq> set (snd (exec_err E argv log))"
  by (auto simp: exec_err_def exec_cmd_def Let_def)

lemma grows_fst_snd: "f = (e, log') \<Longrightarrow> set log \<subseteq> set (snd f) \<Longrightarrow> set log \<subseteq> set log'"
  by simp

lemma routes_grow [log_grows]:
  "set log \<subseteq> set (snd (DeleteHostRoute E a b c log))"
  "set log \<subseteq> set (snd (AddHostRoute E a b c log))"
  "set log \<subseteq> set (snd (AddDefaultRoute E b c log))"
  "set log \<subseteq> set (snd (ResetInterfaceDNS E c log))"
  using exec_err_grows by (auto simp: DeleteHostRoute_def AddHostRoute_def AddDefaultRoute_def ResetInterfaceDNS_def)

lemma seq_grow [log_grows]:
  "set log \<subseteq> set (snd (DeleteSplitDefaultRoutesFromTun E b c log))"
  "set log \<subseteq> set (snd (AddSplitDefaultRoutesToTun E b c log))"
  "set log \<subseteq> set (snd (SetInterfaceDNS E c dns log))"
  "set log \<subseteq> set (snd (GetDefaultRoute E log))"
proof -
  have g: "x \<in> set (snd (exec_err E c l))" if "x \<in> set l" for x c l
    using that exec_err_grows by blast
  show "set log \<subseteq> set (snd (DeleteSplitDefaultRoutesFromTun E b c log))"
    "set log \<subseteq> set (snd (AddSplitDefaultRoutesToTun E b c log))"
    "set log \<subseteq> set (snd (SetInterfaceDNS E c dns log))"
    "set log \<subseteq> set (snd (GetDefaultRoute E log))"
    by (auto simp: DeleteSplitDefaultRoutesFromTun_def AddSplitDefaultRoutesToTun_def
        SetInterfaceDNS_def GetDefaultRoute_def exec_output_def Let_def g
        split: prod.splits option.splits dest!: exec_err_prefix)
qed

lemma cleanup_grows: "set log \<subseteq> set (snd (CleanupClientProxyRouting E r log))"
proof -
  have "x \<in> set (snd (DeleteHostRoute E a b c l))" if "x \<in> set l" for x a b c l
    using that routes_grow(1) by blast
  moreover have "x \<in> set (snd (AddDefaultRoute E b c l))" if "x \<in> set l" for x b c l
    using that routes_grow(3) by blast
  moreover have "x \<in> set (snd (ResetInterfaceDNS E c l))" if "x \<in> set l" for x c l
    using that routes_grow(4) by blast
  moreover have "x \<in> set (snd (DeleteSplitDefaultRoutesFromTun E b c l))" if "x \<in> set l" for x b c l
    using that seq_grow(1) by blast
  ultimately show ?thesis
    by (auto simp: CleanupClientProxyRouting_def CleanupClientProxyRoutingLocked_def Let_def
        case_prod_beta)
qed

lemma setup_grows: "set log \<subseteq> set (snd (snd (SetupClientProxyRouting E a i g dns r log)))"
proof -
  have g: "set l \<subseteq> set l'" if "f l = (e, l')" "\<And>l. set l \<subseteq> set (snd (f l))" for f :: "cmd_log \<Rightarrow> 'e \<times> cmd_log" and e l l'
    using that by (metis snd_conv)
  have c: "set log \<subseteq> set (snd (if cp_active r then CleanupClientProxyRoutingLocked E r log else (r, log)))"
    using cleanup_grows [of log E r] by (simp add: CleanupClientProxyRouting_def)
  obtain r1 l1 where 1: "(if cp_active r then CleanupClientProxyRoutingLocked E r log else (r, log)) = (r1, l1)"
    by fastforce
  with c have l1: "set log \<subseteq> set l1" by simp
  show ?thesis
  proof (cases "ResolveServerIPv4 E a")
    case (Inl e)
    with 1 l1 show ?thesis by (simp add: SetupClientProxyRouting_def)
  next
    case ip: (Inr ip)
    obtain d l2 where 2: "GetDefaultRoute E l1 = (d, l2)" by fastforce
    with seq_grow(4) [of l1 E] l1 have l2: "set log \<subseteq> set l2" by simp
    show ?thesis
    proof (cases d)
      case (Inl e)
      with 1 2 ip l2 show ?thesis by (simp add: SetupClientProxyRouting_def)
    next
      case d: (Inr orig)
      let ?ref = "if_ref (dr_ifName orig) (dr_ifIndex orig)"
      obtain e3 l3 where 3: "AddHostRoute E ip (dr_gateway orig) ?ref l2 = (e3, l3)" by fastforce
      with routes_grow(2) [of l2 E ip "dr_gateway orig" ?ref] l2 have l3: "set log \<subseteq> set l3" by simp
      obtain e4 l4 where 4: "AddSplitDefaultRoutesToTun E i g l3 = (e4, l4)" by fastforce
      with seq_grow(2) [of l3 E i g] l3 have l4: "set log \<subseteq> set l4" by simp
      obtain e5 l5 where 5: "(if length dns > 0 then SetInterfaceDNS E i dns l4 else (None, l4)) = (e5, l5)"
        by fastforce
      with seq_grow(3) [of l4 E i dns] l4 have l5: "set log \<subseteq> set l5" by (auto split: if_splits)
      have l6: "set log \<subseteq> set (snd (DeleteHostRoute E ip (dr_gateway orig) ?ref l))"
        if "set log \<subseteq> set l" for l
        using that routes_grow(1) by blast
      have l7: "set log \<subseteq> set (snd (DeleteSplitDefaultRoutesFromTun E i g l5))"
        using l5 seq_grow(1) by blast
      show ?thesis
        using 1 2 3 4 5 ip d l3 l5 l6 [OF l4] l6 [OF l7]
        by (cases e3; cases e4; cases e5) (simp_all add: SetupClientProxyRouting_def Let_def)
    qed
  qed
qed

lemma configure_routes_ok:
  assumes "configure_routes E ip m g dns s = (e, s')"
  shows "k_session s' = k_session s \<and> k_conns s' = k_conns s \<and> k_tun s' = k_tun s \<and>
    k_conf s' = k_conf s \<and> k_forwarding s' = k_forwarding s \<and>
    set (k_log s) \<subseteq> set (k_log s') \<and> (e = None \<longrightarrow> address_set (k_conf s) ip (k_log s'))"
proof -
  obtain e1 log1 where 1: "ConfigureTunAddress (ce_host E) (cc_ifName (k_conf s)) ip m (k_log s) = (e1, log1)"
    by fastforce
  note p = ConfigureTunAddress_prefix [OF 1]
  show ?thesis
  proof (cases e1)
    case (Some x)
    with assms 1 p show ?thesis by (auto simp: configure_routes_def)
  next
    case None
    with 1 have a: "address_set (k_conf s) ip log1" by (auto dest: ConfigureTunAddress_set)
    obtain r2 log2 where 2: "CleanupClientProxyRouting (ce_host E) (k_route s) log1 = (r2, log2)"
      by fastforce
    obtain err r3 log3 where 3: "SetupClientProxyRouting (ce_host E) (cc_server (k_conf s))
        (cc_ifName (k_conf s)) g dns r2 log2 = (err, r3, log3)"
      by (metis prod_cases3)
    have "set log1 \<subseteq> set log3"
      using cleanup_grows [of log1 "ce_host E" "k_route s"]
        setup_grows [of log2 "ce_host E" "cc_server (k_conf s)" "cc_ifName (k_conf s)" g dns r2]
      by (simp add: 2 3)
    moreover from this a have "address_set (k_conf s) ip log3" by (auto simp: address_set_def)
    ultimately show ?thesis
      using assms None 1 2 3 p a by (auto simp: configure_routes_def split: if_splits)
  qed
qed

lemma configureAddress_ok:
  assumes "configureAddress E ip m g dns mtu s = (e, s')" and "k_forwarding s \<longrightarrow> k_tun s \<noteq> None"
  shows "k_session s' = k_session s \<and> k_conns s' = k_conns s \<and> k_conf s' = k_conf s \<and>
    set (k_log s) \<subseteq> set (k_log s') \<and>
    (k_tun s \<noteq> None \<longrightarrow> k_tun s' = k_tun s \<and> k_forwarding s' = k_forwarding s) \<and>
    (k_tun s = None \<longrightarrow> k_tun s' = None \<or> (\<exists>b. k_tun s' = Some (NewTUNTunnel b))) \<and>
    (k_forwarding s' \<longrightarrow> k_tun s' \<noteq> None) \<and>
    (e = None \<longrightarrow> address_set (k_conf s) ip (k_log s') \<and> k_tun s' \<noteq> None)"
proof (cases "k_tun s")
  case (Some t)
  with assms configure_routes_ok [of E ip m g dns s e s'] show ?thesis
    by (auto simp: configureAddress_def)
next
  case None
  show ?thesis
  proof (cases "ce_tun E (cc_ifName (k_conf s)) mtu")
    case t: None
    with assms None show ?thesis by (auto simp: configureAddress_def initTun_def)
  next
    case (Some b)
    with assms None show ?thesis
      by (auto simp: configureAddress_def initTun_def AllowTunTraffic_def Let_def
          dest!: configure_routes_ok)
  qed
qed

section \<open>Every step keeps the invariant\<close>

lemma handleVDHCP_ok:
  assumes "session_ok s" and "client_handleVDHCP E c payload s = (e, s')"
  shows "session_ok s' \<and> k_conns s' = k_conns s \<and>
    (k_tun s \<noteq> None \<longrightarrow> k_tun s' = k_tun s \<and> k_forwarding s' = k_forwarding s)"
proof (cases "DecodeMessage (ce_json E) payload")
  case (Inl x)
  with assms show ?thesis by (simp add: client_handleVDHCP_def)
next
  case (Inr msg)
  show ?thesis
  proof (cases "msg_type msg = MessageTypeNak \<or> cs_ready (k_session s) \<or>
      ValidateOffer msg (cs_reqID (k_session s)) \<noteq> None")
    case True
    with assms Inr show ?thesis by (auto simp: client_handleVDHCP_def split: if_splits)
  next
    case False
    obtain e1 s1 where a: "configureAddress E (msg_ip msg) (msg_mask msg) (msg_gateway msg)
        (msg_dns msg) (msg_mtu msg) s = (e1, s1)" by fastforce
    have fw: "k_forwarding s \<longrightarrow> k_tun s \<noteq> None" using assms(1) by (simp add: session_ok_def)
    note ca = configureAddress_ok [OF a fw]
    have ok1: "session_ok s1"
      using assms(1) ca False by (auto simp: session_ok_def split: option.splits)
    show ?thesis
    proof (cases e1)
      case (Some x)
      with assms(2) Inr False a ok1 ca show ?thesis by (simp add: client_handleVDHCP_def)
    next
      case None
      with ca have ad: "address_set (k_conf s) (msg_ip msg) (k_log s1)" "k_tun s1 \<noteq> None" by simp_all
      show ?thesis
      proof (cases "cs_conn (k_session s1) = Some c")
        case True
        with assms(2) Inr False a None have s': "k_session s' = (k_session s1)\<lparr>cs_ready := True,
            cs_lastIP := msg_ip msg, cs_lastMask := msg_mask msg, cs_lastGW := msg_gateway msg,
            cs_lastDNS := msg_dns msg\<rparr>" "k_conns s' = k_conns s1" "k_tun s' = k_tun s1"
          "k_log s' = k_log s1" "k_conf s' = k_conf s1" "k_forwarding s' = k_forwarding s1"
          by (auto simp: client_handleVDHCP_def Let_def)
        have "ValidateOffer msg (cs_reqID (k_session s1)) = None" using False ca by simp
        with True ok1 ad ca s' show ?thesis by (auto simp: session_ok_def)
      next
        case c: False
        with assms(2) Inr False a None ok1 ca show ?thesis by (auto simp: client_handleVDHCP_def)
      qed
    qed
  qed
qed

lemma session_ok_step:
  assumes "session_ok s" and "client_step E now ev s = Some s'"
  shows "session_ok s'"
proof (cases ev)
  case KStart
  moreover have "session_ok (s\<lparr>k_started := True\<rparr>) = session_ok s" by (rule session_ok_cong) simp_all
  ultimately show ?thesis
    using assms by (auto split: sum.splits dest!: client_start_InrD)
next
  case (KConnect remote room entA entD)
  let ?s = "s\<lparr>k_conns := k_conns s @ [\<lparr>cn_remote = remote, cn_closed = False, cn_room = room, cn_sent = []\<rparr>]\<rparr>"
  have ok: "session_ok ?s" using assms(1) by (auto simp: session_ok_def split: option.splits)
  have "session_ok (?s\<lparr>k_session := no_session\<lparr>cs_conn := Some (length (k_conns s)), cs_clientID := a,
      cs_reqID := b, cs_remote := d\<rparr>\<rparr>)" for a b d
    using assms(1) by (auto simp: session_ok_def no_session_def)
  with ok KConnect assms(2) show ?thesis
    by (auto simp: client_onTCPConnect_def Let_def session_ok_write split: sum.splits prod.splits
        bool.splits)
next
  case (KLost d)
  with assms show ?thesis by (auto split: if_splits)
next
  case KDisconnect
  with assms show ?thesis by (auto simp: client_onTCPDisconnect_def session_ok_def no_session_def)
next
  case (KMessage c raw pick)
  have tun: "session_ok (s\<lparr>k_stats := x, k_tun := Some y\<rparr>) = session_ok s" if "k_tun s = Some t" for x y t
    by (rule session_ok_cong) (simp_all add: that)
  from KMessage assms handleVDHCP_ok [OF assms(1), of E c] tun show ?thesis
    by (auto simp: client_onTCPMessage_def split: if_splits sum.splits prod.splits
        payload_type.splits option.splits)
next
  case KForward
  have st: "session_ok (s1\<lparr>k_stats := x\<rparr>) = session_ok s1" for s1 x by (rule session_ok_cong) simp_all
  have tun: "session_ok (s\<lparr>k_tun := Some y\<rparr>) = session_ok s" if "k_tun s = Some t" for y t
    by (rule session_ok_cong) (simp_all add: that)
  have "session_ok (s\<lparr>k_forwarding := False\<rparr>)" using assms(1) by (auto simp: session_ok_def split: option.splits)
  moreover have "session_ok (tun_to_tcp pkt s1) = session_ok s1" for pkt s1
    by (auto simp: tun_to_tcp_def session_ok_write st split: option.splits prod.splits bool.splits)
  ultimately show ?thesis
    using KForward assms by (auto simp: forward_turn_def tun split: if_splits option.splits sum.splits)
next
  case (KTunTurn tev)
  have "session_ok (s\<lparr>k_tun := Some y\<rparr>) = session_ok s" if "k_tun s = Some t" for y t
    by (rule session_ok_cong) (simp_all add: that)
  with KTunTurn assms show ?thesis by (auto simp del: tunnel_step.simps split: option.splits)
next
  case (KStop live)
  with assms show ?thesis
    by (auto simp: client_stop_def Let_def session_ok_def no_session_def
        split: if_splits option.splits prod.splits)
qed

lemma NewVlanClient_ok: "session_ok (NewVlanClient conf)"
  by (simp add: session_ok_def NewVlanClient_def no_session_def)

lemma client_run_ok: "client_run E s0 s \<Longrightarrow> session_ok s0 \<Longrightarrow> session_ok s"
  by (induction rule: client_run.induct) (auto intro: session_ok_step)

section \<open>What passes the gate\<close>

lemma k_close_sent [simp]: "cn_sent (k_conns (k_close d s) ! c) = cn_sent (k_conns s ! c)"
  by (cases "d < length (k_conns s)")
    (auto simp: k_close_def upd_kconn_def conn_close_def nth_list_update list_update_beyond)

lemma upd_kconn_other [simp]: "c \<noteq> d \<Longrightarrow> k_conns (upd_kconn d f s) ! c = k_conns s ! c"
  by (simp add: upd_kconn_def)

lemma k_write_sent:
  "k_write d p s = (b, s') \<Longrightarrow> c < length (k_conns s) \<Longrightarrow>
   cn_sent (k_conns s' ! c) = cn_sent (k_conns s ! c) @ (if b \<and> c = d then [p] else [])"
  by (auto simp: k_write_def upd_kconn_def conn_write_def nth_list_update split: if_splits)

lemma k_write_tun: "k_write d p s = (b, s') \<Longrightarrow> k_tun s' = k_tun s"
  by (drule k_write_state) simp

lemma tt_write_queue:
  "tt_write pick p t = Some (ok, t') \<Longrightarrow> t' = t \<or> t' = t\<lparr>tt_wq := tt_wq t @ [p]\<rparr>"
  by (auto simp: tt_write_def split: if_splits)

lemma tt_receive_queue: "tt_receive t = Some (Inr (pkt, t')) \<Longrightarrow> t' = t\<lparr>tt_rq := tl (tt_rq t)\<rparr> \<and> tt_rq t = pkt # tl (tt_rq t)"
  by (auto simp: tt_receive_def split: list.splits if_splits)

lemma onTCPConnect_sent:
  assumes "c < length (k_conns s)" "c \<noteq> d"
  shows "cn_sent (k_conns (client_onTCPConnect E a e now d s) ! c) = cn_sent (k_conns s ! c)"
  using assms by (auto simp: client_onTCPConnect_def Let_def k_write_sent dest: k_write_sent
      split: sum.splits prod.splits bool.splits dest!: k_write_state)

lemma onTCPConnect_tun: "k_tun (client_onTCPConnect E a e now d s) = k_tun s"
  by (auto simp: client_onTCPConnect_def Let_def split: sum.splits prod.splits bool.splits
      dest!: k_write_tun)

lemma tun_to_tcp_state:
  "k_tun (tun_to_tcp pkt s) = k_tun s" "k_forwarding (tun_to_tcp pkt s) = k_forwarding s"
  by (auto simp: tun_to_tcp_def split: option.splits prod.splits bool.splits dest!: k_write_state)

lemma onTCPConnect_conf: "k_conf (client_onTCPConnect E a e now d s) = k_conf s"
  by (auto simp: client_onTCPConnect_def Let_def split: sum.splits prod.splits bool.splits
      dest!: k_write_state)

lemma client_step_sent:
  assumes "session_ok s" and "client_step E now ev s = Some s'" and "c < length (k_conns s)"
  shows "cn_sent (k_conns s' ! c) = cn_sent (k_conns s ! c) \<or>
    (\<exists>t pkt. ev = KForward \<and> isReadyConn c s \<and> k_tun s = Some t \<and> tt_rq t = pkt # tl (tt_rq t) \<and>
       cn_sent (k_conns s' ! c) = cn_sent (k_conns s ! c) @ [Pack TypeIP pkt])"
proof (cases ev)
  case KStart
  with assms show ?thesis by (auto split: sum.splits dest!: client_start_InrD)
next
  case (KConnect r room a e)
  with assms(2,3) show ?thesis by (auto simp: onTCPConnect_sent nth_append)
next
  case (KLost d)
  with assms show ?thesis by (auto split: if_splits)
next
  case KDisconnect
  with assms show ?thesis by (auto simp: client_onTCPDisconnect_def)
next
  case (KMessage d raw pick)
  with assms(2,3) handleVDHCP_ok [OF assms(1), of E d] show ?thesis
    by (auto simp: client_onTCPMessage_def split: if_splits sum.splits prod.splits
        payload_type.splits option.splits)
next
  case KForward
  show ?thesis
  proof (cases "\<exists>t pkt t1. k_tun s = Some t \<and> tt_receive t = Some (Inr (pkt, t1))")
    case True
    then obtain t pkt t1 where t: "k_tun s = Some t" "tt_receive t = Some (Inr (pkt, t1))" by blast
    with KForward assms(2) have s': "s' = tun_to_tcp pkt (s\<lparr>k_tun := Some t1\<rparr>)"
      by (auto simp: forward_turn_def split: if_splits)
    have "cn_sent (k_conns s' ! c) = cn_sent (k_conns s ! c) \<or> (isReadyConn c s \<and>
        cn_sent (k_conns s' ! c) = cn_sent (k_conns s ! c) @ [Pack TypeIP pkt])"
      using assms(3) unfolding s'
      by (auto simp: tun_to_tcp_def readyConn_def isReadyConn_def dest: k_write_sent
          split: if_splits option.splits prod.splits bool.splits)
    with t tt_receive_queue [OF t(2)] KForward show ?thesis by blast
  next
    case False
    with KForward assms(2) show ?thesis
      by (auto simp: forward_turn_def split: if_splits option.splits sum.splits)
  qed
next
  case (KTunTurn tev)
  with assms(2) show ?thesis by (auto simp del: tunnel_step.simps split: option.splits)
next
  case (KStop live)
  with assms(2) show ?thesis
    by (auto simp: client_stop_def Let_def split: if_splits option.splits prod.splits)
qed

lemma client_step_tun:
  assumes "session_ok s" and "client_step E now ev s = Some s'" and "k_tun s = Some t"
  shows "\<exists>t'. k_tun s' = Some t' \<and> (tt_wq t' = tt_wq t \<or> (\<exists>tev. ev = KTunTurn tev) \<or>
    (\<exists>c pkt pick. ev = KMessage c (Pack TypeIP pkt) pick \<and> isReadyConn c s \<and>
       tt_wq t' = tt_wq t @ [pkt]))"
proof (cases ev)
  case KStart
  with assms show ?thesis by (auto split: sum.splits dest!: client_start_InrD)
next
  case (KConnect r room a e)
  with assms(2,3) show ?thesis by (auto simp: onTCPConnect_tun)
next
  case (KLost d)
  with assms show ?thesis by (auto split: if_splits)
next
  case KDisconnect
  with assms show ?thesis by (auto simp: client_onTCPDisconnect_def)
next
  case (KMessage d raw pick)
  show ?thesis
  proof (cases "\<exists>pkt. Unpack raw = Inr (TypeIP, pkt) \<and> isCurrentConn d s \<and> isReadyConn d s")
    case True
    then obtain pkt where u: "Unpack raw = Inr (TypeIP, pkt)" "isCurrentConn d s" "isReadyConn d s"
      by blast
    from u(1) have "raw = Pack TypeIP pkt" by (simp add: Unpack_InrD)
    with KMessage u assms(2,3) show ?thesis
      by (auto simp: client_onTCPMessage_def split: if_splits dest!: tt_write_queue)
  next
    case False
    with KMessage assms(2,3) handleVDHCP_ok [OF assms(1), of E d] show ?thesis
      by (auto simp: client_onTCPMessage_def split: if_splits sum.splits prod.splits
          payload_type.splits option.splits)
  qed
next
  case KForward
  with assms(2,3) show ?thesis
    by (auto simp: forward_turn_def tun_to_tcp_state dest!: tt_receive_queue
        split: if_splits option.splits sum.splits)
next
  case (KTunTurn tev)
  with assms(2,3) show ?thesis by (auto simp del: tunnel_step.simps)
next
  case (KStop live)
  with assms(2,3) show ?thesis
    by (auto simp: client_stop_def Let_def split: if_splits option.splits prod.splits)
qed

section \<open>Stop and start again\<close>

lemma configureAddress_started: "configureAddress E ip m g dns mtu s = (e, s') \<Longrightarrow> k_started s' = k_started s"
  by (auto simp: configureAddress_def initTun_def configure_routes_def AllowTunTraffic_def Let_def
      split: option.splits prod.splits if_splits)

lemma k_close_started [simp]: "k_started (k_close c s) = k_started s"
  by (simp add: k_close_def)

lemma handleVDHCP_started: "client_handleVDHCP E c pkt s = (e, s') \<Longrightarrow> k_started s' = k_started s"
  by (auto simp: client_handleVDHCP_def Let_def dest!: configureAddress_started
      split: sum.splits option.splits prod.splits if_splits)

lemma onTCPMessage_started: "client_onTCPMessage E pick c raw s = Some s' \<Longrightarrow> k_started s' = k_started s"
  by (auto simp: client_onTCPMessage_def dest!: handleVDHCP_started
      split: sum.splits option.splits prod.splits if_splits payload_type.splits)

lemma onTCPConnect_started: "k_started (client_onTCPConnect E a e now d s) = k_started s"
  by (auto simp: client_onTCPConnect_def Let_def split: sum.splits prod.splits bool.splits
      dest!: k_write_state)


text \<open>The device is closed and nobody reads it.\<close>

definition tun_dead :: "client \<Rightarrow> bool" where
  "tun_dead s \<longleftrightarrow> (\<exists>t. k_tun s = Some t \<and> tt_done t) \<and> \<not> k_forwarding s"

lemma onTCPConnect_forwarding: "k_forwarding (client_onTCPConnect E a e now d s) = k_forwarding s"
  by (auto simp: client_onTCPConnect_def Let_def split: sum.splits prod.splits bool.splits
      dest!: k_write_state)

lemma tunnel_step_done: "tunnel_step ev t = Some t' \<Longrightarrow> tt_done t \<Longrightarrow> tt_done t'"
  by (cases ev) (auto simp: read_turn_def put_turn_def write_turn_def
      split: if_splits option.splits list.splits prod.splits)

lemma tun_dead_step:
  assumes "session_ok s" and "tun_dead s" and "client_step E now ev s = Some s'"
  shows "tun_dead s'"
proof (cases ev)
  case KStart
  with assms show ?thesis by (auto simp: tun_dead_def split: sum.splits dest!: client_start_InrD)
next
  case (KConnect r room a e)
  with assms(2,3) show ?thesis by (auto simp: tun_dead_def onTCPConnect_tun onTCPConnect_forwarding)
next
  case (KLost d)
  with assms show ?thesis by (auto simp: tun_dead_def split: if_splits)
next
  case KDisconnect
  with assms show ?thesis by (auto simp: tun_dead_def client_onTCPDisconnect_def)
next
  case (KMessage d raw pick)
  with assms(2,3) handleVDHCP_ok [OF assms(1), of E d] show ?thesis
    by (auto simp: tun_dead_def client_onTCPMessage_def split: if_splits sum.splits
        prod.splits payload_type.splits option.splits dest!: tt_write_queue)
next
  case KForward
  with assms(2,3) show ?thesis by (auto simp: tun_dead_def forward_turn_def)
next
  case (KTunTurn tev)
  with assms(2,3) obtain t t' where "k_tun s = Some t" "tt_done t" "tunnel_step tev t = Some t'"
    "s' = s\<lparr>k_tun := Some t'\<rparr>" by (auto simp: tun_dead_def simp del: tunnel_step.simps)
  with tunnel_step_done [of tev t t'] assms(2) show ?thesis by (simp add: tun_dead_def)
next
  case (KStop live)
  with assms(2,3) show ?thesis
    by (auto simp: tun_dead_def client_stop_def Let_def split: if_splits option.splits prod.splits)
qed

lemma tun_dead_run:
  "client_run E s s' \<Longrightarrow> session_ok s \<Longrightarrow> tun_dead s \<Longrightarrow> tun_dead s'"
  by (induction rule: client_run.induct) (auto dest: tun_dead_step client_run_ok)

lemma client_stop_dead: "k_started s \<Longrightarrow> k_tun s \<noteq> None \<Longrightarrow> tun_dead (client_stop E current s)"
  by (auto simp: tun_dead_def client_stop_def Let_def split: option.splits prod.splits)

end
