(* ===== verification/Vlan_Server.thy ===== *)
theory Vlan_Server
  imports Peers Dhcp_Message Config
begin

text \<open>
  \<^verbatim>\<open>vlan/server.go\<close> and the server's half of \<^verbatim>\<open>vlan/events.go\<close>: the handlers of connections,
  messages and packets, and the step function that runs them. Each handler is one step; the
  clock, the cryptography, the JSON codec and the IPv4 header parser of \<^verbatim>\<open>golang.org/x/net\<close> are
  arguments. \<open>s_tun\<close> is what was written to the TUN queue, if the server has one (its bound is left
  to the model of the tunnel); \<open>s_assigned\<close> is what the assignment callback was given.
\<close>

section \<open>State\<close>

record server =
  s_conf :: server_config
  s_peers :: "peer list"
  s_conns :: "conn_st list"
  s_reg :: registry
  s_dhcp :: manager
  s_tun :: "bytes list option"
  s_log :: event_log
  s_assigned :: "vdhcp_info list"

text \<open>
  The environment of a handler: \<open>hdr\<close> gives source and destination of a packet, or \<open>None\<close> for
  the error.
\<close>

record server_env =
  e_crypto :: crypto
  e_json :: json_codec
  e_hdr :: "bytes \<Rightarrow> (bytes \<times> bytes) option"

text \<open>
  \<^verbatim>\<open>IP.String\<close>. The server prints only what the header parser returns, which has an IPv4 form; the
  second case stands for Go's notation of other lengths.
\<close>

definition ip_String :: "bytes \<Rightarrow> string" where
  "ip_String ip = (case To4 ip of Some q \<Rightarrow> v4_string q | None \<Rightarrow> CHR ''?'' # hex_encode ip)"

text \<open>
  \<^verbatim>\<open>NewServer\<close> with the first steps of \<^verbatim>\<open>Start\<close>, which give it its address manager and, when it is a
  gateway, the TUN queue.
\<close>

definition NewServer :: "server_config \<Rightarrow> dhcp_error + server" where
  "NewServer conf =
     (case initDHCP conf of
        Inl e \<Rightarrow> Inl e
      | Inr m \<Rightarrow>
          Inr \<lparr>s_conf = conf, s_peers = [], s_conns = [], s_reg = newPeerRegistry, s_dhcp = m,
               s_tun = (if sv_proxy conf then Some [] else None),
               s_log = \<lparr>el_events = [], el_id = 0\<rparr>, s_assigned = []\<rparr>)"

text \<open>Access through the pointers.\<close>

abbreviation peer_at :: "server \<Rightarrow> nat \<Rightarrow> peer" where
  "peer_at s i \<equiv> s_peers s ! i"

definition upd_peer :: "nat \<Rightarrow> (peer \<Rightarrow> peer) \<Rightarrow> server \<Rightarrow> server" where
  "upd_peer i f s = s\<lparr>s_peers := (s_peers s)[i := f (s_peers s ! i)]\<rparr>"

definition upd_conn :: "nat \<Rightarrow> (conn_st \<Rightarrow> conn_st) \<Rightarrow> server \<Rightarrow> server" where
  "upd_conn c f s = s\<lparr>s_conns := (s_conns s)[c := f (s_conns s ! c)]\<rparr>"

definition close_conn :: "nat \<Rightarrow> server \<Rightarrow> server" where
  "close_conn c s = upd_conn c conn_close s"

definition remoteAddr :: "nat \<Rightarrow> server \<Rightarrow> string" where
  "remoteAddr i s = cn_remote (s_conns s ! p_conn (peer_at s i))"

definition peer_write :: "nat \<Rightarrow> bytes \<Rightarrow> server \<Rightarrow> bool \<times> server" where
  "peer_write i payload s =
     (let c = p_conn (peer_at s i)
      in (fst (conn_write payload (s_conns s ! c)),
          upd_conn c (\<lambda>cn. snd (conn_write payload cn)) s))"

definition peer_close :: "nat \<Rightarrow> server \<Rightarrow> server" where
  "peer_close i s =
     (if p_done (peer_at s i) then s
      else close_conn (p_conn (peer_at s i)) (upd_peer i (\<lambda>p. p\<lparr>p_done := True\<rparr>) s))"

definition record_event :: "int \<Rightarrow> event_kind \<Rightarrow> server \<Rightarrow> server" where
  "record_event now k s = s\<lparr>s_log := recordManagementEvent now k (s_log s)\<rparr>"

definition emitVDHCPAssigned :: "int \<Rightarrow> vdhcp_info \<Rightarrow> server \<Rightarrow> server" where
  "emitVDHCPAssigned now info s =
     (record_event now (VDHCPAssigned info) s)\<lparr>s_assigned := s_assigned s @ [info]\<rparr>"

section \<open>Handlers\<close>

definition onTCPConnect :: "string \<Rightarrow> nat \<Rightarrow> server \<Rightarrow> server" where
  "onTCPConnect remote room s =
     (let c = length (s_conns s); i = length (s_peers s);
          s1 = s\<lparr>s_conns := s_conns s @ [\<lparr>cn_remote = remote, cn_closed = False, cn_room = room,
                                         cn_sent = []\<rparr>],
                 s_peers := s_peers s @ [newClientPeer c]\<rparr>
      in upd_peer i (\<lambda>p. p\<lparr>p_sending := True\<rparr>) (s1\<lparr>s_reg := addConn i (s_peers s1) (s_reg s1)\<rparr>))"

definition cleanupPeer :: "int \<Rightarrow> nat \<Rightarrow> server \<Rightarrow> server" where
  "cleanupPeer now i s =
     (let s1 = peer_close i s;
          s2 = s1\<lparr>s_reg := remove i (s_peers s1) (s_reg s1)\<rparr>;
          s3 = (if p_id (peer_at s2 i) \<noteq> []
                then s2\<lparr>s_dhcp := MarkOffline now (p_id (peer_at s2 i)) (s_dhcp s2)\<rparr> else s2)
      in record_event now (ClientDisconnected (p_id (peer_at s3 i)) (p_ip (peer_at s3 i))) s3)"

definition onTCPDisconnect :: "int \<Rightarrow> nat \<Rightarrow> server \<Rightarrow> server" where
  "onTCPDisconnect now c s =
     (case byConn (s_reg s) c of None \<Rightarrow> s | Some i \<Rightarrow> cleanupPeer now i s)"

definition handleClientAuth :: "server_env \<Rightarrow> int \<Rightarrow> nat \<Rightarrow> bytes \<Rightarrow> server \<Rightarrow> server" where
  "handleClientAuth E now i payload s =
     (case VerifyClientAuth (e_crypto E) payload (sv_privateKey (s_conf s)) of
        Inl e \<Rightarrow>
          close_conn (p_conn (peer_at s i)) (record_event now (AuthFailed (remoteAddr i s) e) s)
      | Inr clientID \<Rightarrow>
          (case setIdentity clientID (peer_at s i) of
             (False, p) \<Rightarrow> close_conn (p_conn (peer_at s i)) s
           | (True, p) \<Rightarrow>
               record_event now (ClientAuthed clientID (remoteAddr i s))
                 (upd_peer i (\<lambda>_. p) s)))"

fun dhcp_error_text :: "dhcp_error \<Rightarrow> string" where
  "dhcp_error_text EmptyClientID = ''clientID is empty''"
| "dhcp_error_text PoolExhausted = ''ip pool exhausted''"
| "dhcp_error_text BadRange = ''startIP/endIP must be valid IPv4''"
| "dhcp_error_text BadGateway = ''gateway must be valid IPv4''"
| "dhcp_error_text BadMask = ''subnetMask must be valid IPv4 mask''"
| "dhcp_error_text NoDNS = ''dns must contain at least one IPv4 server''"
| "dhcp_error_text (BadDNS d) = ''dns must be valid IPv4: '' @ d"
| "dhcp_error_text RangeOrder = ''startIP must be <= endIP''"

definition assigned_info :: "nat \<Rightarrow> string \<Rightarrow> server \<Rightarrow> vdhcp_info" where
  "assigned_info i ip s =
     (let v = sv_vdhcp (s_conf s)
      in \<lparr>i_client = p_id (peer_at s i), i_remote = remoteAddr i s, i_ip = ip, i_mask = v_mask v,
          i_gateway = v_gateway v, i_dns = v_dns v, i_mtu = sv_mtu (s_conf s),
          i_lease = serverLeaseTTL div second\<rparr>)"

text \<open>The part of \<^verbatim>\<open>handleDHCPDiscover\<close> after the offer is sent.\<close>

definition bind_peer :: "int \<Rightarrow> nat \<Rightarrow> string \<Rightarrow> server \<Rightarrow> server" where
  "bind_peer now i ip s =
     (case bindIP i ip (s_peers s) (s_reg s) of
        (old, ps, r) \<Rightarrow>
          let s1 = s\<lparr>s_peers := ps, s_reg := r\<rparr>;
              s2 = (case old of
                      Some j \<Rightarrow> if j \<noteq> i then peer_close j s1 else s1
                    | None \<Rightarrow> s1)
          in emitVDHCPAssigned now (assigned_info i ip s2) s2)"

definition handleDHCPDiscover :: "server_env \<Rightarrow> int \<Rightarrow> nat \<Rightarrow> message \<Rightarrow> server \<Rightarrow> server" where
  "handleDHCPDiscover E now i msg s =
     (case Acquire now (p_id (peer_at s i)) (s_dhcp s) of
        (Inl e, m) \<Rightarrow>
          snd (peer_write i (Pack TypeVDHCP
            (EncodeNak (e_json E) (msg_reqID msg) (dhcp_error_text e))) (s\<lparr>s_dhcp := m\<rparr>))
      | (Inr l, m) \<Rightarrow>
          let s1 = s\<lparr>s_dhcp := m\<rparr>; v = sv_vdhcp (s_conf s);
              offer = EncodeOffer (e_json E) (msg_reqID msg) (l_ip l) (v_mask v) (v_gateway v)
                        (v_dns v) (sv_mtu (s_conf s)) serverLeaseTTL
          in case peer_write i (Pack TypeVDHCP offer) s1 of
               (False, s2) \<Rightarrow> close_conn (p_conn (peer_at s2 i)) s2
             | (True, s2) \<Rightarrow> bind_peer now i (l_ip l) s2)"

definition handleVDHCP :: "server_env \<Rightarrow> int \<Rightarrow> nat \<Rightarrow> bytes \<Rightarrow> server \<Rightarrow> server" where
  "handleVDHCP E now i pkt s =
     (case DecodeMessage (e_json E) pkt of
        Inl e \<Rightarrow> s
      | Inr msg \<Rightarrow>
          if msg_type msg \<noteq> MessageTypeDiscover then s else handleDHCPDiscover E now i msg s)"

text \<open>Forwarding: to the peer that has the destination address, or else to the TUN device.\<close>

definition forward :: "bytes \<Rightarrow> bytes \<Rightarrow> server \<Rightarrow> server option" where
  "forward dst pkt s =
     (case byIP (s_reg s) (ip_String dst) of
        Some j \<Rightarrow> map_option (\<lambda>p. upd_peer j (\<lambda>_. p) s) (enqueue pkt (peer_at s j))
      | None \<Rightarrow>
          Some (case s_tun s of
                  Some out \<Rightarrow> if pkt = [] then s else s\<lparr>s_tun := Some (out @ [pkt])\<rparr>
                | None \<Rightarrow> s))"

definition handleIP :: "server_env \<Rightarrow> nat \<Rightarrow> bytes \<Rightarrow> server \<Rightarrow> server option" where
  "handleIP E i pkt s =
     (let s1 = upd_peer i (\<lambda>p. p\<lparr>p_stats := AddDownload (length pkt) (p_stats p)\<rparr>) s;
          v = sv_vdhcp (s_conf s)
      in case e_hdr E pkt of
           None \<Rightarrow> Some s1
         | Some (src, dst) \<Rightarrow>
             if \<not> ownsIP (ip_String src) (peer_at s1 i) \<or> IsBroadcast dst \<or> IsMulticast dst \<or>
                IsSubnetBroadcast dst (v_gateway v) (v_mask v)
             then Some s1
             else forward dst pkt s1)"

definition onTCPMessage :: "server_env \<Rightarrow> int \<Rightarrow> nat \<Rightarrow> bytes \<Rightarrow> server \<Rightarrow> server option" where
  "onTCPMessage E now c raw s =
     (case byConn (s_reg s) c of
        None \<Rightarrow> Some (close_conn c s)
      | Some i \<Rightarrow>
          (case Unpack raw of
             Inl e \<Rightarrow> Some (close_conn c s)
           | Inr (TypeAuth, payload) \<Rightarrow> Some (handleClientAuth E now i payload s)
           | Inr (TypeVDHCP, payload) \<Rightarrow>
               Some (if \<not> authed (peer_at s i) then close_conn c s
                     else handleVDHCP E now i payload s)
           | Inr (TypeIP, payload) \<Rightarrow>
               if \<not> authed (peer_at s i) then Some (close_conn c s)
               else handleIP E i payload s))"

text \<open>One turn of \<^verbatim>\<open>peerSendLoop\<close>: \<open>None\<close> while it waits.\<close>

definition send_turn :: "nat \<Rightarrow> server \<Rightarrow> server option" where
  "send_turn i s =
     (if \<not> p_sending (peer_at s i) then None
      else if p_done (peer_at s i) then Some (upd_peer i (\<lambda>p. p\<lparr>p_sending := False\<rparr>) s)
      else case p_queue (peer_at s i) of
          [] \<Rightarrow> None
        | pkt # q \<Rightarrow>
            let s1 = upd_peer i (\<lambda>p. p\<lparr>p_queue := q\<rparr>) s
            in case peer_write i (Pack TypeIP pkt) s1 of
                 (False, s2) \<Rightarrow>
                   Some (upd_peer i (\<lambda>p. p\<lparr>p_sending := False\<rparr>)
                     (close_conn (p_conn (peer_at s2 i)) s2))
               | (True, s2) \<Rightarrow>
                   Some (upd_peer i (\<lambda>p. p\<lparr>p_stats := AddUpload (length pkt) (p_stats p)\<rparr>) s2))"

text \<open>One packet of \<^verbatim>\<open>tunToClients\<close>, and one tick of \<^verbatim>\<open>sweepDHCPLeases\<close>.\<close>

definition tun_packet :: "server_env \<Rightarrow> bytes \<Rightarrow> server \<Rightarrow> server option" where
  "tun_packet E pkt s =
     (case e_hdr E pkt of
        None \<Rightarrow> Some s
      | Some (src, dst) \<Rightarrow>
          (case byIP (s_reg s) (ip_String dst) of
             Some j \<Rightarrow> map_option (\<lambda>p. upd_peer j (\<lambda>_. p) s) (enqueue pkt (peer_at s j))
           | None \<Rightarrow> Some s))"

definition sweep_tick :: "int \<Rightarrow> server \<Rightarrow> server" where
  "sweep_tick now s = s\<lparr>s_dhcp := SweepExpired now (s_dhcp s)\<rparr>"

section \<open>Steps\<close>

datatype server_event =
    Connect string nat
  | Disconnect nat
  | Message nat bytes
  | SendTurn nat
  | TunPacket bytes
  | SweepTick

text \<open>\<open>None\<close>: the event cannot happen yet, because its handler waits.\<close>

fun server_step :: "server_env \<Rightarrow> int \<Rightarrow> server_event \<Rightarrow> server \<Rightarrow> server option" where
  "server_step E now (Connect remote room) s = Some (onTCPConnect remote room s)"
| "server_step E now (Disconnect c) s =
     (if c < length (s_conns s) then Some (onTCPDisconnect now c s) else None)"
| "server_step E now (Message c raw) s =
     (if c < length (s_conns s) then onTCPMessage E now c raw s else None)"
| "server_step E now (SendTurn i) s = (if i < length (s_peers s) then send_turn i s else None)"
| "server_step E now (TunPacket pkt) s = (if s_tun s = None then None else tun_packet E pkt s)"
| "server_step E now SweepTick s = Some (sweep_tick now s)"

inductive server_run :: "server_env \<Rightarrow> server \<Rightarrow> server \<Rightarrow> bool" for E s where
  start: "server_run E s s"
| step: "\<lbrakk>server_run E s s1; server_step E now ev s1 = Some s2\<rbrakk> \<Longrightarrow> server_run E s s2"

end
