(* ===== verification/Server_Safety.thy ===== *)
theory Server_Safety
  imports Vlan_Server
begin

text \<open>
  The invariant of the server over every sequence of events, what it says about addresses and
  forwarding, and a run in which a client that reconnects loses its lease while it is connected.
\<close>

section \<open>The invariant\<close>

text \<open>
  A peer's identity was proved by some payload; it has an address only with an identity, and the
  address is one of the pool and not a reserved one; its queue is bounded.
\<close>

definition peer_ok :: "server_env \<Rightarrow> server_config \<Rightarrow> manager \<Rightarrow> peer \<Rightarrow> bool" where
  "peer_ok E conf m p \<longleftrightarrow>
     (p_id p \<noteq> [] \<longrightarrow>
        (\<exists>payload. VerifyClientAuth (e_crypto E) payload (sv_privateKey conf) = Inr (p_id p))) \<and>
     (p_ip p \<noteq> [] \<longrightarrow> p_id p \<noteq> [] \<and> in_pool m (p_ip p) \<and> p_ip p \<notin> set (m_reserved m)) \<and>
     length (p_queue p) \<le> serverPeerSendQueueSize"

definition reg_keys :: "registry \<Rightarrow> bool" where
  "reg_keys r \<longleftrightarrow> distinct (map fst (r_conns r)) \<and> distinct (map fst (r_ips r)) \<and>
     distinct (map fst (r_ids r))"

definition reg_ok :: "peer list \<Rightarrow> registry \<Rightarrow> bool" where
  "reg_ok ps r \<longleftrightarrow> reg_keys r \<and>
     (\<forall>c i. map_of (r_conns r) c = Some i \<longrightarrow> i < length ps \<and> p_conn (ps ! i) = c) \<and>
     (\<forall>ip i. map_of (r_ips r) ip = Some i \<longrightarrow> i < length ps \<and> p_ip (ps ! i) \<noteq> []) \<and>
     (\<forall>d i. map_of (r_ids r) d = Some i \<longrightarrow> i < length ps \<and> p_id (ps ! i) = d \<and> d \<noteq> [])"

definition server_inv :: "server_env \<Rightarrow> server \<Rightarrow> bool" where
  "server_inv E s \<longleftrightarrow>
     mgr_ok (s_dhcp s) \<and> reg_ok (s_peers s) (s_reg s) \<and>
     (\<forall>p\<in>set (s_peers s). peer_ok E (s_conf s) (s_dhcp s) p \<and> p_conn p < length (s_conns s))"

lemma peer_ok_same_pool: "same_pool m m' \<Longrightarrow> peer_ok E conf m' p = peer_ok E conf m p"
  by (simp add: peer_ok_def same_pool_def in_pool_def)

lemma reg_okD:
  assumes "reg_ok ps r"
  shows "map_of (r_conns r) c = Some i \<Longrightarrow> i < length ps \<and> p_conn (ps ! i) = c"
    and "map_of (r_ips r) ip = Some i \<Longrightarrow> i < length ps \<and> p_ip (ps ! i) \<noteq> []"
    and "map_of (r_ids r) d = Some i \<Longrightarrow> i < length ps \<and> p_id (ps ! i) = d \<and> d \<noteq> []"
    and "reg_keys r"
  using assms unfolding reg_ok_def by blast+

lemma reg_okI:
  assumes "\<And>c i. map_of (r_conns r) c = Some i \<Longrightarrow> i < length ps \<and> p_conn (ps ! i) = c"
    and "\<And>ip i. map_of (r_ips r) ip = Some i \<Longrightarrow> i < length ps \<and> p_ip (ps ! i) \<noteq> []"
    and "\<And>d i. map_of (r_ids r) d = Some i \<Longrightarrow> i < length ps \<and> p_id (ps ! i) = d \<and> d \<noteq> []"
    and "reg_keys r"
  shows "reg_ok ps r"
  using assms unfolding reg_ok_def by blast

lemma server_inv_peer: "server_inv E s \<Longrightarrow> i < length (s_peers s) \<Longrightarrow>
    peer_ok E (s_conf s) (s_dhcp s) (peer_at s i) \<and> p_conn (peer_at s i) < length (s_conns s)"
  by (simp add: server_inv_def)

subsection \<open>Small steps\<close>

text \<open>A change of one peer that keeps its connection and does not take back its identity or address.\<close>

lemma reg_ok_upd:
  assumes "reg_ok ps r" and "p_conn q = p_conn (ps ! i)"
    and "p_id (ps ! i) \<noteq> [] \<Longrightarrow> p_id q = p_id (ps ! i)"
    and "p_ip (ps ! i) \<noteq> [] \<Longrightarrow> p_ip q \<noteq> []"
  shows "reg_ok (ps[i := q]) r"
proof (rule reg_okI)
  fix c j
  assume "map_of (r_conns r) c = Some j"
  from reg_okD(1) [OF assms(1) this] assms(2)
  show "j < length (ps[i := q]) \<and> p_conn (ps[i := q] ! j) = c"
    by (cases "i = j") simp_all
next
  fix ip j
  assume "map_of (r_ips r) ip = Some j"
  from reg_okD(2) [OF assms(1) this] assms(4)
  show "j < length (ps[i := q]) \<and> p_ip (ps[i := q] ! j) \<noteq> []" by (cases "i = j") simp_all
next
  fix d j
  assume "map_of (r_ids r) d = Some j"
  from reg_okD(3) [OF assms(1) this] assms(3)
  show "j < length (ps[i := q]) \<and> p_id (ps[i := q] ! j) = d \<and> d \<noteq> []"
    by (cases "i = j") auto
qed (rule reg_okD(4) [OF assms(1)])

lemma inv_upd_peer:
  assumes inv: "server_inv E s" and "i < length (s_peers s)"
    and "p_conn (f (peer_at s i)) = p_conn (peer_at s i)"
    and "p_id (peer_at s i) \<noteq> [] \<Longrightarrow> p_id (f (peer_at s i)) = p_id (peer_at s i)"
    and "p_ip (peer_at s i) \<noteq> [] \<Longrightarrow> p_ip (f (peer_at s i)) \<noteq> []"
    and "peer_ok E (s_conf s) (s_dhcp s) (f (peer_at s i))"
  shows "server_inv E (upd_peer i f s)"
proof -
  have "reg_ok ((s_peers s)[i := f (peer_at s i)]) (s_reg s)"
    using inv by (intro reg_ok_upd assms(3-5)) (simp_all add: server_inv_def)
  moreover have "peer_ok E (s_conf s) (s_dhcp s) p \<and> p_conn p < length (s_conns s)"
    if "p \<in> set ((s_peers s)[i := f (peer_at s i)])" for p
    using set_update_subset_insert that inv server_inv_peer [OF inv assms(2)] assms(3,6)
    by (fastforce simp: server_inv_def)
  ultimately show ?thesis using inv by (simp add: server_inv_def upd_peer_def)
qed

text \<open>Changes that touch neither identity, nor address, nor connection of the peer.\<close>

lemma inv_upd_plain:
  assumes "server_inv E s" and "i < length (s_peers s)"
    and "\<And>p. p_conn (f p) = p_conn p" "\<And>p. p_id (f p) = p_id p" "\<And>p. p_ip (f p) = p_ip p"
    and "length (p_queue (f (peer_at s i))) \<le> serverPeerSendQueueSize"
  shows "server_inv E (upd_peer i f s)"
  using server_inv_peer [OF assms(1,2)] assms
  by (intro inv_upd_peer) (simp_all add: peer_ok_def)

lemma inv_upd_conn [simp]: "server_inv E (upd_conn c f s) = server_inv E s"
  by (simp add: server_inv_def upd_conn_def)

lemma inv_close_conn [simp]: "server_inv E (close_conn c s) = server_inv E s"
  by (simp add: close_conn_def)

lemma inv_record_event [simp]: "server_inv E (record_event now k s) = server_inv E s"
  by (simp add: server_inv_def record_event_def)

lemma inv_emit [simp]: "server_inv E (emitVDHCPAssigned now info s) = server_inv E s"
  by (simp add: server_inv_def emitVDHCPAssigned_def record_event_def)

lemma inv_dhcp:
  assumes "server_inv E s" and "mgr_ok m" and "same_pool (s_dhcp s) m"
  shows "server_inv E (s\<lparr>s_dhcp := m\<rparr>)"
  using assms peer_ok_same_pool [OF assms(3)] by (simp add: server_inv_def)

lemma peer_write_state:
  "snd (peer_write i payload s) =
     upd_conn (p_conn (peer_at s i)) (\<lambda>cn. snd (conn_write payload cn)) s"
  by (simp add: peer_write_def Let_def)

lemma inv_peer_write [simp]: "server_inv E (snd (peer_write i payload s)) = server_inv E s"
  by (simp add: peer_write_state)

lemma length_upd [simp]:
  "length (s_peers (upd_peer i f s)) = length (s_peers s)"
  "s_peers (upd_conn c g s) = s_peers s" "s_peers (close_conn c s) = s_peers s"
  "length (s_conns (upd_conn c g s)) = length (s_conns s)"
  by (simp_all add: upd_peer_def upd_conn_def close_conn_def)

lemma inv_peer_close:
  assumes "server_inv E s" and "i < length (s_peers s)"
  shows "server_inv E (peer_close i s)"
proof -
  have "length (p_queue (peer_at s i)) \<le> serverPeerSendQueueSize"
    using server_inv_peer [OF assms] by (simp add: peer_ok_def)
  with assms show ?thesis by (auto simp: peer_close_def intro: inv_upd_plain)
qed

lemma peer_close_same:
  "length (s_peers (peer_close i s)) = length (s_peers s)"
  "s_reg (peer_close i s) = s_reg s" "s_dhcp (peer_close i s) = s_dhcp s"
  "s_conf (peer_close i s) = s_conf s"
  "p_id (peer_at (peer_close i s) j) = p_id (peer_at s j)"
  "p_ip (peer_at (peer_close i s) j) = p_ip (peer_at s j)"
  "map p_queue (s_peers (peer_close i s)) = map p_queue (s_peers s)"
  "s_tun (peer_close i s) = s_tun s"
  by (simp_all add: peer_close_def close_conn_def upd_conn_def upd_peer_def nth_update_proj
      map_update_proj)

subsection \<open>The registry\<close>

lemma reg_ok_remove: "reg_ok ps r \<Longrightarrow> reg_ok ps (remove i ps r)"
  by (rule reg_okI)
    (auto simp: remove_def Let_def alist_simps reg_keys_def split: if_splits dest: reg_okD)

lemma reg_ok_bindIP:
  assumes r: "reg_ok ps r" and i: "i < length ps" and "ip \<noteq> []" and b: "bindIP i ip ps r = (old, ps', r')"
  shows "reg_ok ps' r'" and "ps' = ps[i := setIP ip (ps ! i)]"
    and "old = Some j \<Longrightarrow> j < length ps"
proof -
  show ps': "ps' = ps[i := setIP ip (ps ! i)]" and "old = Some j \<Longrightarrow> j < length ps"
    using b reg_okD(2) [OF r] by (auto simp: bindIP_def Let_def)
  have r1: "reg_ok ps' r"
    unfolding ps' using r \<open>ip \<noteq> []\<close> by (intro reg_ok_upd) (simp_all add: setIP_def)
  have q: "p_ip (ps' ! i) = ip" "p_id (ps' ! i) = p_id (ps ! i)" "i < length ps'"
    using i by (simp_all add: ps' setIP_def)
  show "reg_ok ps' r'"
  proof (rule reg_okI)
    show "j < length ps' \<and> p_conn (ps' ! j) = c" if "map_of (r_conns r') c = Some j" for c j
      using that b reg_okD(1) [OF r1, of c j] by (auto simp: bindIP_def Let_def split: if_splits)
    show "j < length ps' \<and> p_ip (ps' ! j) \<noteq> []" if "map_of (r_ips r') a = Some j" for a j
      using that b reg_okD(2) [OF r1, of a j] q \<open>ip \<noteq> []\<close>
      by (auto simp: bindIP_def Let_def map_of_update split: if_splits)
    show "j < length ps' \<and> p_id (ps' ! j) = d \<and> d \<noteq> []" if "map_of (r_ids r') d = Some j" for d j
      using that b reg_okD(3) [OF r1, of d j] q i
      by (auto simp: bindIP_def Let_def map_of_update setIP_def split: if_splits)
    show "reg_keys r'"
      using reg_okD(4) [OF r1] b by (auto simp: bindIP_def Let_def reg_keys_def distinct_alist)
  qed
qed

subsection \<open>Handlers\<close>

lemma inv_onTCPConnect:
  assumes inv: "server_inv E s"
  shows "server_inv E (onTCPConnect remote room s)"
proof -
  let ?n = "length (s_peers s)" and ?c = "length (s_conns s)"
  let ?p = "(newClientPeer ?c)\<lparr>p_sending := True\<rparr>"
  have r: "reg_ok (s_peers s @ [q]) (s_reg s)" for q
    using inv by (auto simp: server_inv_def nth_append intro!: reg_okI dest: reg_okD)
  have "reg_ok (s_peers s @ [?p]) (addConn ?n (s_peers s @ [newClientPeer ?c]) (s_reg s))"
  proof (rule reg_okI)
    show "i < length (s_peers s @ [?p]) \<and> p_conn ((s_peers s @ [?p]) ! i) = c"
      if "map_of (r_conns (addConn ?n (s_peers s @ [newClientPeer ?c]) (s_reg s))) c = Some i" for c i
      using that reg_okD(1) [OF r, of c i ?p]
      by (auto simp: addConn_def map_of_update newClientPeer_def split: if_splits)
  qed (use reg_okD(2,3,4) [OF r] in \<open>simp_all add: addConn_def reg_keys_def distinct_alist\<close>)
  moreover have "peer_ok E conf m ?p" for conf m
    by (simp add: peer_ok_def newClientPeer_def)
  ultimately show ?thesis
    using inv by (auto simp: onTCPConnect_def Let_def upd_peer_def server_inv_def newClientPeer_def)
qed

lemma inv_cleanupPeer:
  assumes "server_inv E s" and "i < length (s_peers s)"
  shows "server_inv E (cleanupPeer now i s)"
proof -
  let ?s1 = "peer_close i s"
  have 1: "server_inv E ?s1" by (rule inv_peer_close [OF assms])
  then have 2: "server_inv E (?s1\<lparr>s_reg := remove i (s_peers ?s1) (s_reg ?s1)\<rparr>)"
    by (simp add: server_inv_def reg_ok_remove)
  have "mgr_ok (s_dhcp ?s1)" using 1 by (simp add: server_inv_def)
  with 2 inv_dhcp [OF 2] show ?thesis by (simp add: cleanupPeer_def Let_def MarkOffline_ok)
qed

lemma inv_handleClientAuth:
  assumes inv: "server_inv E s" and i: "i < length (s_peers s)"
  shows "server_inv E (handleClientAuth E now i payload s)"
proof (cases "VerifyClientAuth (e_crypto E) payload (sv_privateKey (s_conf s))")
  case (Inl e)
  with inv show ?thesis by (simp add: handleClientAuth_def)
next
  case (Inr d)
  show ?thesis
  proof (cases "p_id (peer_at s i) \<noteq> [] \<and> p_id (peer_at s i) \<noteq> d")
    case True
    with Inr inv show ?thesis by (simp add: handleClientAuth_def setIdentity_def)
  next
    case False
    have "d \<noteq> []"
    proof
      assume "d = []"
      with Inr have "hex_encode (take 32 (drop 1 payload)) = []" "length payload = clientAuthPayloadSize"
        by (auto simp: VerifyClientAuth_def Let_def split: if_splits sum.splits option.splits)
      then show False
        using length_hex_encode [of "take 32 (drop 1 payload)"]
        by (simp add: clientAuthPayloadSize_def clientAuthNonceSize_def clientAuthMACSize_def)
    qed
    then have "peer_ok E (s_conf s) (s_dhcp s) ((peer_at s i)\<lparr>p_id := d\<rparr>)"
      using server_inv_peer [OF inv i] Inr by (auto simp: peer_ok_def)
    then have "server_inv E (upd_peer i (\<lambda>_. (peer_at s i)\<lparr>p_id := d\<rparr>) s)"
      using False by (intro inv_upd_peer [OF inv i]) auto
    moreover have "handleClientAuth E now i payload s =
        record_event now (ClientAuthed d (remoteAddr i s))
          (upd_peer i (\<lambda>_. (peer_at s i)\<lparr>p_id := d\<rparr>) s)"
      using Inr False by (auto simp: handleClientAuth_def setIdentity_def)
    ultimately show ?thesis by simp
  qed
qed

lemma inv_bind_peer:
  assumes inv: "server_inv E s" and i: "i < length (s_peers s)"
    and "p_id (peer_at s i) \<noteq> []" and ip: "in_pool (s_dhcp s) ip" "ip \<notin> set (m_reserved (s_dhcp s))"
  shows "server_inv E (bind_peer now i ip s)"
proof -
  have ne: "ip \<noteq> []" using ip(1) by (auto simp: in_pool_def)
  obtain old ps r where b: "bindIP i ip (s_peers s) (s_reg s) = (old, ps, r)" by (cases "bindIP i ip (s_peers s) (s_reg s)") auto
  have "reg_ok (s_peers s) (s_reg s)" using inv by (simp add: server_inv_def)
  note bo = reg_ok_bindIP [OF this i ne b]
  have "server_inv E (upd_peer i (setIP ip) s)"
    using server_inv_peer [OF inv i] assms(3) ip ne
    by (intro inv_upd_peer [OF inv i]) (simp_all add: setIP_def peer_ok_def)
  with bo(1,2) have 1: "server_inv E (s\<lparr>s_peers := ps, s_reg := r\<rparr>)"
    by (simp add: server_inv_def upd_peer_def)
  have "length ps = length (s_peers s)" by (simp add: bo(2))
  with 1 bo(3) inv_peer_close [OF 1] show ?thesis
    by (auto simp: bind_peer_def b Let_def split: option.split)
qed

lemma inv_handleVDHCP:
  assumes inv: "server_inv E s" and i: "i < length (s_peers s)" and "p_id (peer_at s i) \<noteq> []"
  shows "server_inv E (handleVDHCP E now i pkt s)"
proof -
  have ok: "mgr_ok (s_dhcp s)" using inv by (simp add: server_inv_def)
  have "server_inv E (handleDHCPDiscover E now i msg s)" for msg
  proof -
    obtain r m where a: "Acquire now (p_id (peer_at s i)) (s_dhcp s) = (r, m)" by fastforce
    note A = Acquire_ok [OF ok a]
    have inv1: "server_inv E (s\<lparr>s_dhcp := m\<rparr>)" using A by (intro inv_dhcp [OF inv]) simp_all
    show ?thesis
    proof (cases r)
      case (Inl e)
      with a inv1 show ?thesis by (simp add: handleDHCPDiscover_def)
    next
      case (Inr l)
      with A have "map_of (leaseByID m) (p_id (peer_at s i)) = Some l" by simp
      with mgr_okD(3) [of m] A have l: "in_pool m (l_ip l)" "l_ip l \<notin> set (m_reserved m)"
        by (auto simp: lease_ok_def)
      obtain ok2 s2 where w: "peer_write i (Pack TypeVDHCP (EncodeOffer (e_json E) (msg_reqID msg)
          (l_ip l) (v_mask (sv_vdhcp (s_conf s))) (v_gateway (sv_vdhcp (s_conf s)))
          (v_dns (sv_vdhcp (s_conf s))) (sv_mtu (s_conf s)) serverLeaseTTL)) (s\<lparr>s_dhcp := m\<rparr>) =
          (ok2, s2)" by fastforce
      then have s2: "s2 = snd (peer_write i (Pack TypeVDHCP (EncodeOffer (e_json E) (msg_reqID msg)
          (l_ip l) (v_mask (sv_vdhcp (s_conf s))) (v_gateway (sv_vdhcp (s_conf s)))
          (v_dns (sv_vdhcp (s_conf s))) (sv_mtu (s_conf s)) serverLeaseTTL)) (s\<lparr>s_dhcp := m\<rparr>))"
        by simp
      have inv2: "server_inv E s2" "s_dhcp s2 = m" "s_peers s2 = s_peers s"
        using inv1 by (simp_all add: s2 peer_write_state upd_conn_def server_inv_def)
      show ?thesis
      proof (cases ok2)
        case True
        with Inr a w inv_bind_peer [OF inv2(1)] inv2 i assms(3) l show ?thesis
          by (simp add: handleDHCPDiscover_def Let_def)
      next
        case False
        with Inr a w inv2 show ?thesis by (simp add: handleDHCPDiscover_def Let_def)
      qed
    qed
  qed
  with inv show ?thesis by (simp add: handleVDHCP_def split: sum.split)
qed

lemma inv_enqueue:
  assumes inv: "server_inv E s" and "byIP (s_reg s) ip = Some j" and "enqueue pkt (peer_at s j) = Some p"
  shows "server_inv E (upd_peer j (\<lambda>_. p) s)"
proof -
  have "reg_ok (s_peers s) (s_reg s)" using inv by (simp add: server_inv_def)
  from reg_okD(2) [OF this] assms(2) have j: "j < length (s_peers s)" by (simp add: byIP_def)
  from server_inv_peer [OF inv j] assms(3) show ?thesis
    by (intro inv_upd_peer [OF inv j]) (auto simp: enqueue_def peer_ok_def split: if_splits)
qed

lemma inv_handleIP:
  assumes inv: "server_inv E s" and i: "i < length (s_peers s)" and h: "handleIP E i pkt s = Some s'"
  shows "server_inv E s'"
proof -
  let ?s1 = "upd_peer i (\<lambda>p. p\<lparr>p_stats := AddDownload (length pkt) (p_stats p)\<rparr>) s"
  have inv1: "server_inv E ?s1"
    using server_inv_peer [OF inv i] by (intro inv_upd_plain [OF inv i]) (simp_all add: peer_ok_def)
  have "server_inv E s2" if "forward dst pkt ?s1 = Some s2" for dst s2
    using that inv1 inv_enqueue [OF inv1]
    by (auto simp: forward_def server_inv_def split: option.splits if_splits)
  with h inv1 show ?thesis
    by (auto simp: handleIP_def Let_def split: option.splits prod.splits if_splits)
qed

lemma inv_send_turn:
  assumes inv: "server_inv E s" and i: "i < length (s_peers s)" and h: "send_turn i s = Some s'"
  shows "server_inv E s'"
proof -
  have q: "length (p_queue (peer_at s i)) \<le> serverPeerSendQueueSize"
    using server_inv_peer [OF inv i] by (simp add: peer_ok_def)
  have stop: "server_inv E (upd_peer i (\<lambda>p. p\<lparr>p_sending := False\<rparr>) t)"
    if "server_inv E t" "length (s_peers t) = length (s_peers s)" for t
    using server_inv_peer [OF that(1), of i] that i
    by (intro inv_upd_plain) (simp_all add: peer_ok_def)
  have stats: "server_inv E (upd_peer i (\<lambda>p. p\<lparr>p_stats := AddUpload n (p_stats p)\<rparr>) t)"
    if "server_inv E t" "length (s_peers t) = length (s_peers s)" for t n
    using server_inv_peer [OF that(1), of i] that i
    by (intro inv_upd_plain) (simp_all add: peer_ok_def)
  have pop: "server_inv E (upd_peer i (\<lambda>p. p\<lparr>p_queue := ks\<rparr>) s)" if "p_queue (peer_at s i) = k # ks" for k ks
    using that q by (intro inv_upd_plain [OF inv i]) simp_all
  have w: "server_inv E t' \<and> length (s_peers t') = length (s_peers t)"
    if "server_inv E t" "peer_write i pl t = (b, t')" for t t' pl b
    using that peer_write_state [of i pl t] by (simp add: upd_conn_def server_inv_def)
  from h show ?thesis
    using stop [OF inv] stop stats w [OF pop]
    by (auto simp: send_turn_def Let_def split: if_splits list.splits prod.splits bool.splits)
qed

lemma inv_step:
  assumes inv: "server_inv E s" and st: "server_step E now ev s = Some s'"
  shows "server_inv E s'"
proof (cases ev)
  case (Connect remote room)
  with inv st show ?thesis by (auto simp: inv_onTCPConnect)
next
  case (Disconnect c)
  have "reg_ok (s_peers s) (s_reg s)" using inv by (simp add: server_inv_def)
  with Disconnect inv st reg_okD(1) show ?thesis
    by (auto simp: onTCPDisconnect_def byConn_def split: if_splits option.splits
        intro: inv_cleanupPeer)
next
  case (Message c raw)
  have r: "reg_ok (s_peers s) (s_reg s)" using inv by (simp add: server_inv_def)
  from Message st have m: "onTCPMessage E now c raw s = Some s'" by (simp split: if_splits)
  show ?thesis
  proof (cases "byConn (s_reg s) c")
    case None
    with m inv show ?thesis by (auto simp: onTCPMessage_def)
  next
    case (Some i)
    with reg_okD(1) [OF r] have i: "i < length (s_peers s)" by (simp add: byConn_def)
    from m Some show ?thesis
      using inv inv_handleClientAuth [OF inv i] inv_handleVDHCP [OF inv i] inv_handleIP [OF inv i]
      by (auto simp: onTCPMessage_def authed_def split: sum.splits prod.splits payload_type.splits
          if_splits)
  qed
next
  case (SendTurn i)
  with inv st show ?thesis by (auto split: if_splits intro: inv_send_turn)
next
  case (TunPacket pkt)
  with inv st inv_enqueue [OF inv] show ?thesis
    by (auto simp: tun_packet_def split: if_splits option.splits prod.splits)
next
  case SweepTick
  with inv st sweep_ok [of "s_dhcp s" now] show ?thesis
    by (auto simp: sweep_tick_def SweepExpired_def server_inv_def intro: peer_ok_same_pool [THEN iffD2])
qed

lemma run_inv:
  assumes "server_run E s0 s" and "server_inv E s0"
  shows "server_inv E s"
  using assms by induction (auto intro: inv_step)

lemma NewServer_inv: "NewServer conf = Inr s0 \<Longrightarrow> server_inv E s0"
  using NewManager_ok
  by (auto simp: NewServer_def initDHCP_def server_inv_def reg_ok_def reg_keys_def newPeerRegistry_def
      split: sum.splits)

section \<open>Where packets go\<close>

text \<open>What waits to be sent: the queues of the peers and the TUN queue.\<close>

definition flow :: "server \<Rightarrow> bytes list list \<times> bytes list option" where
  "flow s = (map p_queue (s_peers s), s_tun s)"

named_theorems flow_simps \<open>operations that send nothing on\<close>

lemma flow_upd_conn [flow_simps]: "flow (upd_conn c f s) = flow s" "flow (close_conn c s) = flow s"
  by (simp_all add: flow_def upd_conn_def close_conn_def)

lemma flow_upd_peer [flow_simps]:
  "(\<And>p. p_queue (f p) = p_queue p) \<Longrightarrow> flow (upd_peer i f s) = flow s"
  by (simp add: flow_def upd_peer_def map_update_proj)

lemma flow_log [flow_simps]:
  "flow (record_event now k s) = flow s" "flow (emitVDHCPAssigned now info s) = flow s"
  "flow (s\<lparr>s_dhcp := m\<rparr>) = flow s" "flow (s\<lparr>s_reg := r\<rparr>) = flow s"
  by (simp_all add: flow_def record_event_def emitVDHCPAssigned_def)

lemma flow_peer_write [flow_simps]: "peer_write i pl s = (b, s') \<Longrightarrow> flow s' = flow s"
  using peer_write_state [of i pl s] by (simp add: flow_simps)

lemma flow_peer_close [flow_simps]: "flow (peer_close i s) = flow s"
  by (simp add: flow_def peer_close_same)

lemma flow_handleClientAuth [flow_simps]: "flow (handleClientAuth E now i payload s) = flow s"
proof -
  have "flow (upd_peer i (\<lambda>_. p) s) = flow s" if "setIdentity d (peer_at s i) = (b, p)" for d b p
    using that by (auto simp: flow_def upd_peer_def setIdentity_def map_update_proj split: if_splits)
  then show ?thesis
    by (auto simp: handleClientAuth_def flow_simps split: sum.split prod.split bool.split)
qed

lemma flow_handleVDHCP [flow_simps]: "flow (handleVDHCP E now i pkt s) = flow s"
proof -
  have b: "flow (bind_peer now i ip t) = flow t" for ip t
  proof -
    have "flow (t\<lparr>s_peers := (s_peers t)[i := setIP ip (peer_at t i)], s_reg := r\<rparr>) = flow t" for r
      by (simp add: flow_def map_update_proj setIP_def)
    then show ?thesis
      by (auto simp: bind_peer_def bindIP_def Let_def flow_simps split: option.split)
  qed
  show ?thesis
    using flow_peer_write
    by (auto simp: handleVDHCP_def handleDHCPDiscover_def Let_def b flow_simps peer_write_state
        split: sum.split prod.split bool.split)
qed

section \<open>Properties\<close>


text \<open>
  C3: No spoofing. If a message of a connection puts anything into the queue of a peer or into
  the TUN queue, then it is an IP payload, the connection belongs to a peer with a proved
  identity, the source address in the packet's header is the virtual address of this peer, an
  address of the pool, and the destination is not a broadcast address.
\<close>

theorem no_spoofing:
  assumes "NewServer conf = Inr s0" and "server_run E s0 s"
    and "server_step E now (Message c raw) s = Some s'"
    and "map p_queue (s_peers s') \<noteq> map p_queue (s_peers s) \<or> s_tun s' \<noteq> s_tun s"
  shows "\<exists>i pkt src dst payload. raw = Pack TypeIP pkt \<and> byConn (s_reg s) c = Some i \<and>
    VerifyClientAuth (e_crypto E) payload (sv_privateKey (s_conf s)) = Inr (p_id (peer_at s i)) \<and>
    e_hdr E pkt = Some (src, dst) \<and> ip_String src = p_ip (peer_at s i) \<and>
    in_pool (s_dhcp s) (ip_String src) \<and> \<not> IsBroadcast dst"
proof -
  have inv: "server_inv E s" by (rule run_inv [OF assms(2) NewServer_inv [OF assms(1)]])
  then have r: "reg_ok (s_peers s) (s_reg s)" by (simp add: server_inv_def)
  from assms(4) have ne: "flow s' \<noteq> flow s" by (auto simp: flow_def)
  from assms(3) have m: "onTCPMessage E now c raw s = Some s'" by (simp split: if_splits)
  from m ne obtain i pkt where i: "byConn (s_reg s) c = Some i" and u: "Unpack raw = Inr (TypeIP, pkt)"
    and h: "handleIP E i pkt s = Some s'"
    by (auto simp: onTCPMessage_def flow_simps split: option.splits sum.splits payload_type.splits
        if_splits)
  from reg_okD(1) [OF r] i have il: "i < length (s_peers s)" by (simp add: byConn_def)
  let ?s1 = "upd_peer i (\<lambda>p. p\<lparr>p_stats := AddDownload (length pkt) (p_stats p)\<rparr>) s"
  have f1: "flow ?s1 = flow s" by (simp add: flow_simps)
  have ip1: "p_ip (peer_at ?s1 i) = p_ip (peer_at s i)"
    by (simp add: upd_peer_def nth_update_proj)
  from h ne f1 obtain src dst where hd: "e_hdr E pkt = Some (src, dst)"
    and own: "ownsIP (ip_String src) (peer_at ?s1 i)" and nb: "\<not> IsBroadcast dst"
    by (auto simp: handleIP_def Let_def split: option.splits if_splits)
  from own ip1 have ip: "p_ip (peer_at s i) \<noteq> []" "ip_String src = p_ip (peer_at s i)"
    by (auto simp: ownsIP_def)
  with server_inv_peer [OF inv il] have "in_pool (s_dhcp s) (p_ip (peer_at s i))"
    "\<exists>payload. VerifyClientAuth (e_crypto E) payload (sv_privateKey (s_conf s)) =
       Inr (p_id (peer_at s i))"
    by (auto simp: peer_ok_def)
  with i hd ip nb Unpack_InrD [OF u] show ?thesis by auto
qed

section \<open>A client that reconnects\<close>

lemma lease_of_cong: "map_of (leaseByID m) d = map_of (leaseByID m') d \<Longrightarrow> lease_of m d = lease_of m' d"
  by (simp add: lease_of_def)

lemma conn_after_close [simp]:
  "s_conns (peer_close i s) ! c =
     (if \<not> p_done (peer_at s i) \<and> c = p_conn (peer_at s i) \<and> c < length (s_conns s)
      then conn_close (s_conns s ! c) else s_conns s ! c)" if "i < length (s_peers s)"
  using that
  by (cases "p_conn (peer_at s i) < length (s_conns s)")
    (auto simp: peer_close_def close_conn_def upd_conn_def upd_peer_def nth_list_update
        list_update_beyond)

lemma done_after_close:
  "j \<noteq> i \<Longrightarrow> peer_at (peer_close i s) j = peer_at s j"
  by (simp add: peer_close_def close_conn_def upd_conn_def upd_peer_def)

lemma peer_close_kept:
  "p_conn (peer_at (peer_close i s) j) = p_conn (peer_at s j)"
  "length (s_conns (peer_close i s)) = length (s_conns s)"
  by (simp_all add: peer_close_def close_conn_def upd_conn_def upd_peer_def nth_update_proj)

text \<open>A client logs in: it connects, proves its identity and asks for an address.\<close>

text \<open>The offer that answers the request \<open>msg\<close> with the lease \<open>l\<close>.\<close>

definition login_offer :: "server_env \<Rightarrow> server_config \<Rightarrow> message \<Rightarrow> lease \<Rightarrow> bytes" where
  "login_offer E conf msg l =
     EncodeOffer (e_json E) (msg_reqID msg) (l_ip l) (v_mask (sv_vdhcp conf))
       (v_gateway (sv_vdhcp conf)) (v_dns (sv_vdhcp conf)) (sv_mtu conf) serverLeaseTTL"

lemma login_run:
  assumes inv: "server_inv E s" and room: "0 < (room::nat)"
    and v: "VerifyClientAuth (e_crypto E) payload (sv_privateKey (s_conf s)) = Inr d" and d: "d \<noteq> []"
    and m: "DecodeMessage (e_json E) ask = Inr msg" "msg_type msg = MessageTypeDiscover"
    and a: "Acquire now d (s_dhcp s) = (Inr l, dm)"
    and new: "map_of (r_conns (s_reg s)) (length (s_conns s)) = None"
  shows "\<exists>s'. (\<exists>s1 s2. server_step E now (Connect remote room) s = Some s1 \<and>
      server_step E now (Message (length (s_conns s)) (Pack TypeAuth payload)) s1 = Some s2 \<and>
      server_step E now (Message (length (s_conns s)) (Pack TypeVDHCP ask)) s2 = Some s') \<and>
    cn_sent (s_conns s' ! length (s_conns s)) = [Pack TypeVDHCP (login_offer E (s_conf s) msg l)] \<and>
    (\<forall>s0. server_run E s0 s \<longrightarrow> server_run E s0 s') \<and> server_inv E s' \<and>
    s_conf s' = s_conf s \<and> s_dhcp s' = dm \<and> length (s_conns s') = Suc (length (s_conns s)) \<and>
    length (s_peers s') = Suc (length (s_peers s)) \<and>
    map_of (r_conns (s_reg s')) = (map_of (r_conns (s_reg s)))(length (s_conns s) \<mapsto> length (s_peers s)) \<and>
    byIP (s_reg s') (l_ip l) = Some (length (s_peers s)) \<and>
    peer_at s' (length (s_peers s)) =
      (newClientPeer (length (s_conns s)))\<lparr>p_sending := True, p_id := d, p_ip := l_ip l\<rparr> \<and>
    \<not> cn_closed (s_conns s' ! length (s_conns s)) \<and>
    cn_room (s_conns s' ! length (s_conns s)) = room - 1 \<and> s_tun s' = s_tun s \<and>
    (\<forall>k<length (s_peers s). p_id (peer_at s' k) = p_id (peer_at s k) \<and>
       p_conn (peer_at s' k) = p_conn (peer_at s k))"
proof -
  let ?n = "length (s_peers s)" and ?c = "length (s_conns s)"
  define s1 where "s1 = onTCPConnect remote room s"
  have e1: "server_step E now (Connect remote room) s = Some s1" by (simp add: s1_def)
  have inv1: "server_inv E s1" by (rule inv_step [OF inv e1])
  have s1: "s_conf s1 = s_conf s" "s_dhcp s1 = s_dhcp s"
    "s_peers s1 = s_peers s @ [(newClientPeer ?c)\<lparr>p_sending := True\<rparr>]"
    "s_conns s1 = s_conns s @ [\<lparr>cn_remote = remote, cn_closed = False, cn_room = room, cn_sent = []\<rparr>]"
    "s_reg s1 = addConn ?n (s_peers s @ [newClientPeer ?c]) (s_reg s)"
    by (simp_all add: s1_def onTCPConnect_def Let_def upd_peer_def)
  have c1: "map_of (r_conns (s_reg s1)) = (map_of (r_conns (s_reg s)))(?c \<mapsto> ?n)"
    by (auto simp: s1 addConn_def newClientPeer_def map_of_update)
  have p1: "peer_at s1 ?n = (newClientPeer ?c)\<lparr>p_sending := True\<rparr>" by (simp add: s1)
  define s2 where "s2 = record_event now (ClientAuthed d (remoteAddr ?n s1))
      (upd_peer ?n (\<lambda>_. (peer_at s1 ?n)\<lparr>p_id := d\<rparr>) s1)"
  have "handleClientAuth E now ?n payload s1 = s2"
    using v by (simp add: handleClientAuth_def s1(1) setIdentity_def p1 newClientPeer_def s2_def)
  then have e2: "server_step E now (Message ?c (Pack TypeAuth payload)) s1 = Some s2"
    by (simp add: onTCPMessage_def byConn_def c1 Unpack_Pack s1(4))
  have inv2: "server_inv E s2" by (rule inv_step [OF inv1 e2])
  have s2: "s_conf s2 = s_conf s" "s_dhcp s2 = s_dhcp s" "s_conns s2 = s_conns s1"
    "s_peers s2 = s_peers s @ [(newClientPeer ?c)\<lparr>p_sending := True, p_id := d\<rparr>]"
    "s_reg s2 = s_reg s1"
    by (simp_all add: s2_def record_event_def upd_peer_def s1 p1)
  have p2: "peer_at s2 ?n = (newClientPeer ?c)\<lparr>p_sending := True, p_id := d\<rparr>" by (simp add: s2)
  have t12: "s_tun s2 = s_tun s"
    by (simp add: s2_def s1_def record_event_def upd_peer_def onTCPConnect_def Let_def)
  define pl where "pl = Pack TypeVDHCP (login_offer E (s_conf s) msg l)"
  have pl: "handleVDHCP E now ?n ask s2 =
      (case peer_write ?n pl (s2\<lparr>s_dhcp := dm\<rparr>) of
         (False, t) \<Rightarrow> close_conn (p_conn (peer_at t ?n)) t
       | (True, t) \<Rightarrow> bind_peer now ?n (l_ip l) t)"
    using m a by (simp add: handleVDHCP_def handleDHCPDiscover_def p2 s2 Let_def pl_def login_offer_def)
  define s3 where "s3 = upd_conn ?c (\<lambda>cn. snd (conn_write pl cn)) (s2\<lparr>s_dhcp := dm\<rparr>)"
  have "peer_write ?n pl (s2\<lparr>s_dhcp := dm\<rparr>) = (True, s3)"
    using room by (simp add: peer_write_def Let_def p2 newClientPeer_def s3_def s2 s1 conn_write_def)
  with pl have h: "handleVDHCP E now ?n ask s2 = bind_peer now ?n (l_ip l) s3" by simp
  have s3: "s_conf s3 = s_conf s" "s_dhcp s3 = dm" "s_peers s3 = s_peers s2" "s_reg s3 = s_reg s1"
    "length (s_conns s3) = Suc ?c" "\<not> cn_closed (s_conns s3 ! ?c)" "s_tun s3 = s_tun s"
    "cn_room (s_conns s3 ! ?c) = room - 1" "cn_sent (s_conns s3 ! ?c) = [pl]"
    using room by (simp_all add: s3_def upd_conn_def s2 s1 conn_write_def t12)
  obtain old ps rg where b: "bindIP ?n (l_ip l) (s_peers s3) (s_reg s3) = (old, ps, rg)"
    by (cases "bindIP ?n (l_ip l) (s_peers s3) (s_reg s3)") auto
  have ps: "ps = s_peers s @ [(newClientPeer ?c)\<lparr>p_sending := True, p_id := d, p_ip := l_ip l\<rparr>]"
    and rg: "map_of (r_conns rg) = map_of (r_conns (s_reg s1))" "byIP rg (l_ip l) = Some ?n"
    using b by (auto simp: bindIP_def Let_def s3 s2 setIP_def byIP_def map_of_update)
  define s4 where "s4 = s3\<lparr>s_peers := ps, s_reg := rg\<rparr>"
  define s5 where "s5 = (case old of Some k \<Rightarrow> if k \<noteq> ?n then peer_close k s4 else s4 | None \<Rightarrow> s4)"
  define s6 where "s6 = emitVDHCPAssigned now (assigned_info ?n (l_ip l) s5) s5"
  have b6: "bind_peer now ?n (l_ip l) s3 = s6"
    by (cases old) (simp_all add: bind_peer_def b Let_def s4_def s5_def s6_def)
  have e3: "server_step E now (Message ?c (Pack TypeVDHCP ask)) s2 = Some s6"
    using d by (simp add: onTCPMessage_def byConn_def s2(3,5) c1 Unpack_Pack p2 authed_def h b6 s1(4))
  have inv6: "server_inv E s6" by (rule inv_step [OF inv2 e3])
  have old: "k < ?n \<and> p_conn (peer_at s4 k) \<noteq> ?c" if "old = Some k" "k \<noteq> ?n" for k
  proof -
    from that b have "map_of (r_ips (s_reg s3)) (l_ip l) = Some k" by (auto simp: bindIP_def Let_def)
    then have "map_of (r_ips (s_reg s2)) (l_ip l) = Some k" by (simp add: s3 s2)
    with inv2 reg_okD(2) [of "s_peers s2" "s_reg s2" "l_ip l" k] have "k < length (s_peers s2)"
      by (simp add: server_inv_def)
    with that(2) have k: "k < ?n" by (simp add: s2)
    with server_inv_peer [OF inv k] show ?thesis by (simp add: s4_def ps nth_append)
  qed
  have k4: "length (s_peers s4) = Suc ?n" "s_reg s4 = rg" "s_dhcp s4 = dm" "s_conf s4 = s_conf s"
    "length (s_conns s4) = Suc ?c" "\<not> cn_closed (s_conns s4 ! ?c)" "s_tun s4 = s_tun s"
    "cn_room (s_conns s4 ! ?c) = room - 1" "cn_sent (s_conns s4 ! ?c) = [pl]"
    "peer_at s4 ?n = (newClientPeer ?c)\<lparr>p_sending := True, p_id := d, p_ip := l_ip l\<rparr>"
    "\<And>k. k < ?n \<Longrightarrow> peer_at s4 k = peer_at s k"
    by (simp_all add: s4_def ps s3 nth_append)
  have k5: "length (s_peers s5) = Suc ?n" "s_reg s5 = rg" "s_dhcp s5 = dm" "s_conf s5 = s_conf s"
    "length (s_conns s5) = Suc ?c" "\<not> cn_closed (s_conns s5 ! ?c)" "s_tun s5 = s_tun s"
    "cn_room (s_conns s5 ! ?c) = room - 1" "cn_sent (s_conns s5 ! ?c) = [pl]"
    "peer_at s5 ?n = peer_at s4 ?n"
    "\<And>k. p_id (peer_at s5 k) = p_id (peer_at s4 k)"
    "\<And>k. p_conn (peer_at s5 k) = p_conn (peer_at s4 k)"
    using old k4(1-9)
    by (auto simp: s5_def peer_close_same peer_close_kept done_after_close split: option.split)
  have k6: "s_peers s6 = s_peers s5" "s_reg s6 = s_reg s5" "s_dhcp s6 = s_dhcp s5"
    "s_conf s6 = s_conf s5" "s_conns s6 = s_conns s5" "s_tun s6 = s_tun s5"
    by (simp_all add: s6_def emitVDHCPAssigned_def record_event_def)
  have run: "server_run E s0 s6" if "server_run E s0 s" for s0
    by (rule server_run.step [OF server_run.step [OF server_run.step [OF that e1] e2] e3])
  show ?thesis
    using run inv6 rg c1 k4 e1 e2 e3 unfolding pl_def [symmetric]
    by (intro exI [of _ s6] conjI exI [of _ s1] exI [of _ s2]) (simp_all add: k6 k5 newClientPeer_def del: server_step.simps)
qed

text \<open>
  C15: A reconnected client loses its lease while it is connected. Let a client with two
  connections be bound to its address on the second one, as after a reconnection that came before
  the end of the first connection was noticed; binding the second closes the first. When the end
  of the first connection is then handled, the lease of the client goes offline, and the first
  sweep after the grace period deletes it and frees the address, while the second connection is
  open, its peer is the one registered for the address, and packets are still accepted from it.
\<close>

theorem reconnect_marks_offline:
  assumes "NewServer conf = Inr s0" and "server_run E s0 s"
    and "byConn (s_reg s) c = Some i" and "c < length (s_conns s)" and "j < length (s_peers s)"
    and "p_conn (peer_at s j) \<noteq> c" and "p_id (peer_at s i) = d" and "p_id (peer_at s j) = d"
    and "byIP (s_reg s) ip = Some j" and "p_ip (peer_at s j) = ip"
    and "\<not> p_done (peer_at s j)" and "\<not> cn_closed (s_conns s ! p_conn (peer_at s j))"
    and "lease_of (s_dhcp s) d = Some (ip, True)"
    and "t' > t + mc_grace (m_cfg (s_dhcp s))"
  shows "\<exists>s1 s2. server_step E t (Disconnect c) s = Some s1 \<and>
    lease_of (s_dhcp s1) d = Some (ip, False) \<and>
    server_step E t' SweepTick s1 = Some s2 \<and> lease_of (s_dhcp s2) d = None \<and>
    map_of (ownerByIP (s_dhcp s2)) ip = None \<and>
    byIP (s_reg s2) ip = Some j \<and> authed (peer_at s2 j) \<and> ownsIP ip (peer_at s2 j) \<and>
    \<not> p_done (peer_at s2 j) \<and> \<not> cn_closed (s_conns s2 ! p_conn (peer_at s2 j))"
proof -
  have inv: "server_inv E s" by (rule run_inv [OF assms(2) NewServer_inv [OF assms(1)]])
  then have r: "reg_ok (s_peers s) (s_reg s)" and ok: "mgr_ok (s_dhcp s)"
    by (simp_all add: server_inv_def)
  from reg_okD(1) [OF r] assms(3) have i: "i < length (s_peers s)" "p_conn (peer_at s i) = c"
    by (simp_all add: byConn_def)
  with assms(6) have ij: "j \<noteq> i" by auto
  from assms(13) obtain l where l: "map_of (leaseByID (s_dhcp s)) d = Some l" "l_ip l = ip"
    by (auto simp: lease_of_def)
  with mgr_okD(3) [OF ok] have d: "d \<noteq> []" by (auto simp: lease_ok_def)
  define s1 where "s1 = cleanupPeer t i s"
  have s1: "s_dhcp s1 = MarkOffline t d (s_dhcp s)" "s_peers s1 = s_peers (peer_close i s)"
    "s_conns s1 = s_conns (peer_close i s)" "s_reg s1 = remove i (s_peers (peer_close i s)) (s_reg s)"
    using d assms(7)
    by (simp_all add: s1_def cleanupPeer_def Let_def record_event_def peer_close_same)
  note mo = MarkOffline_ok [OF ok, of t d]
  define s2 where "s2 = sweep_tick t' s1"
  have s2: "s_dhcp s2 = sweepExpiredLocked t' (s_dhcp s1)" "s_peers s2 = s_peers s1"
    "s_conns s2 = s_conns s1" "s_reg s2 = s_reg s1"
    by (simp_all add: s2_def sweep_tick_def SweepExpired_def)
  have pj: "peer_at s2 j = peer_at s j" using ij by (simp add: s2 s1 done_after_close)
  have "s_conns s2 ! p_conn (peer_at s j) = s_conns s ! p_conn (peer_at s j)"
    using i assms(6) by (simp add: s2 s1)
  moreover have "byIP (s_reg s2) ip = Some j"
    using assms(9) ij by (auto simp: s2 s1 remove_def byIP_def Let_def map_of_delete peer_close_same)
  moreover have gone: "lease_of (s_dhcp s2) d = None"
    using sweep_ok(3) [OF mo(1)] l assms(14) by (simp add: s2 s1 lease_of_def mo(3) expired_def)
  moreover have "map_of (ownerByIP (s_dhcp s2)) ip = None"
  proof (rule ccontr)
    have ok2: "mgr_ok (s_dhcp s2)" using sweep_ok(1) [OF mo(1)] by (simp add: s2 s1)
    assume "map_of (ownerByIP (s_dhcp s2)) ip \<noteq> None"
    then obtain x k where k: "map_of (leaseByID (s_dhcp s2)) x = Some k" "l_ip k = ip"
      using mgr_okD(4) [OF ok2] by blast
    with gone have xd: "x \<noteq> d" by (auto simp: lease_of_def)
    with k have "map_of (leaseByID (s_dhcp s)) x = Some k"
      by (auto simp: s2 s1 sweep_ok(3) [OF mo(1)] mo(3) split: option.splits if_splits)
    with mgr_okD(3) [OF ok this] mgr_okD(3) [OF ok l(1)] k(2) l(2) xd show False
      by (simp add: lease_ok_def)
  qed
  moreover have "server_step E t (Disconnect c) s = Some s1"
    using assms(3,4) by (simp add: onTCPDisconnect_def s1_def)
  moreover have "lease_of (s_dhcp s1) d = Some (ip, False)"
    using l by (simp add: s1 lease_of_def mo(3))
  moreover have "ip \<noteq> []"
    using reg_okD(2) [OF r, of ip j] assms(9,10) by (auto simp: byIP_def)
  ultimately show ?thesis
    using assms d pj by (intro exI [of _ s1] exI [of _ s2]) (simp add: s2_def authed_def ownsIP_def)
qed

section \<open>A concrete server\<close>

definition sample_running_conf :: server_config where
  "sample_running_conf =
     (applyServerDefaults sample_server_conf)\<lparr>sv_privateKey := sample_key_text 7, sv_proxy := True\<rparr>"

text \<open>A header parser for the examples: addresses at their place in the fixed part.\<close>

definition sample_hdr :: "bytes \<Rightarrow> (bytes \<times> bytes) option" where
  "sample_hdr pkt =
     (if length pkt < 20 then None
      else Some (net_IPv4 (pkt ! 12) (pkt ! 13) (pkt ! 14) (pkt ! 15),
                 net_IPv4 (pkt ! 16) (pkt ! 17) (pkt ! 18) (pkt ! 19)))"

definition sample_env :: server_env where
  "sample_env = \<lparr>e_crypto = toy_crypto, e_json = toy_json, e_hdr = sample_hdr\<rparr>"

definition sample_id :: string where "sample_id = hex_encode (replicate 32 5)"

definition sample_auth_payload :: bytes where
  "sample_auth_payload = [1] @ replicate 32 5 @ replicate 16 9 @
     clientAuthMAC toy_crypto (replicate 32 12) (replicate 32 5) (replicate 32 7) (replicate 16 9)"

definition sample_pool :: manager where
  "sample_pool =
     \<lparr>m_cfg = (dhcp_config_of sample_running_conf), m_start = 0xAC13000A, m_end = 0xAC1300C8,
      m_next = 0xAC13000A, leaseByID = [], ownerByIP = [], m_reserved = [''172.19.0.254'']\<rparr>"

lemma sample_vdhcp [simp]:
  "sv_vdhcp sample_running_conf = \<lparr>v_start = ''172.19.0.10'', v_end = ''172.19.0.200'',
     v_mask = ''255.255.255.0'', v_gateway = ''172.19.0.254'', v_dns = [''8.8.8.8'', ''1.1.1.1'']\<rparr>"
  "sv_privateKey sample_running_conf = sample_key_text 7" "sv_proxy sample_running_conf = True"
  "sv_mtu sample_running_conf = 1300"
  by (simp_all add: sample_running_conf_def applyServerDefaults_def sample_server_conf_def
      vdhcp_defaults_def Let_def config_normalizeDNSServers_def defaultDNSServers_def)

lemma sample_gateway: "v4_string [172, 19, 0, 254] = ''172.19.0.254''"
  by (simp add: v4_string_def decimal.simps digit_char_def char_of_def bit_Suc_0_iff)

lemma sample_initDHCP: "initDHCP sample_running_conf = Inr sample_pool"
  using default_dns_normal
  by (simp add: initDHCP_def dhcp_config_of_def NewManager_def Let_def default_addresses
      sample_pool_def ipToUint32_def defaultDNSServers_def serverLeaseTTL_def serverOfflineGrace_def
      hour_def sample_gateway)

definition sample_start :: server where
  "sample_start =
     \<lparr>s_conf = sample_running_conf, s_peers = [], s_conns = [], s_reg = newPeerRegistry,
      s_dhcp = sample_pool, s_tun = Some [], s_log = \<lparr>el_events = [], el_id = 0\<rparr>, s_assigned = []\<rparr>"

lemma sample_NewServer: "NewServer sample_running_conf = Inr sample_start"
  by (simp add: NewServer_def sample_initDHCP sample_start_def)

definition sample_ask :: bytes where
  "sample_ask = fst (EncodeDiscover toy_json (replicate 16 4) 0)"

lemma sample_ask_decodes: "\<exists>msg. DecodeMessage toy_json sample_ask = Inr msg \<and>
    msg_type msg = MessageTypeDiscover"
proof -
  let ?m = "empty_message\<lparr>msg_type := MessageTypeDiscover, msg_reqID := hex_encode (replicate 16 4)\<rparr>"
  have "ascii (hex_encode bs)" for bs
    using visible_hex_encode [of _ bs] by (auto simp: ascii_def list_all_iff visible_def)
  then have "plain_message ?m"
    by (simp add: plain_message_def ascii_def empty_message_def MessageTypeDiscover_def int64_def)
  then have "j_dec toy_json (j_enc toy_json ?m) = Some ?m"
    using toy_json_ok by (simp add: json_ok_def)
  then show ?thesis
    by (simp add: DecodeMessage_def sample_ask_def EncodeDiscover_def NewRequestID_def Let_def)
qed

lemma sample_verifies:
  "VerifyClientAuth toy_crypto sample_auth_payload (sample_key_text 7) = Inr sample_id"
proof -
  have "ecdh toy_crypto (replicate 32 7) (replicate 32 5) = Some (replicate 32 12)"
    "ecdh_pub toy_crypto (replicate 32 7) = replicate 32 7"
    by (simp_all add: toy_crypto_def)
  then show ?thesis
    unfolding sample_auth_payload_def sample_id_def
    by (subst VerifyClientAuth_parts [OF toy_laws(1) _ _ length_clientAuthMAC [OF toy_laws(1)]
          sample_keys_parse(1)]) simp_all
qed

text \<open>The client's first and second login, and the reconnected state.\<close>

lemma sample_id_ne: "sample_id \<noteq> []"
  using length_hex_encode [of "replicate 32 5"] by (simp add: sample_id_def flip: length_greater_0_conv)

lemma sample_fresh:
  "\<exists>l m. Acquire 1 sample_id sample_pool = (Inr l, m) \<and> lease_of m sample_id = Some (dotted 0xAC13000A, True) \<and> l_ip l = dotted 0xAC13000A"
proof -
  note sample_id_ne
  moreover have "unat (pool_size sample_pool) = Suc 190" by (simp add: pool_size_def sample_pool_def)
  moreover have "dotted 0xAC13000A \<noteq> ''172.19.0.254''"
  proof -
    have "put_u32 0xAC1300FE = [172, 19, 0, 254]" by (simp add: put_u32_def)
    then have "dotted 0xAC1300FE = ''172.19.0.254''" by (simp add: dotted_def sample_gateway)
    then show ?thesis using dotted_inj [of "0xAC13000A" "0xAC1300FE"] by simp
  qed
  moreover have "scan_pool (Suc 190) sample_pool =
      (Some (dotted 0xAC13000A), sample_pool\<lparr>m_next := 0xAC13000B\<rparr>)"
    if "dotted 0xAC13000A \<noteq> ''172.19.0.254''"
    unfolding scan_pool.simps(2) using that by (simp add: sample_pool_def advanceNextLocked_def)
  ultimately have "allocateIPLocked sample_pool =
      (Some (dotted 0xAC13000A), sample_pool\<lparr>m_next := 0xAC13000B\<rparr>)"
    by (simp only: allocateIPLocked_def not_False_eq_True HOL.simp_thms)
  moreover have "leaseByID sample_pool = []" by (simp add: sample_pool_def)
  ultimately show ?thesis
    using sample_id_ne by (simp add: Acquire_def Let_def sweepExpiredLocked_def lease_of_def
        map_of_update)
qed

lemma reconnected:
  "\<exists>s. server_run sample_env sample_start s \<and> server_inv sample_env s \<and>
    s_conf s = sample_running_conf \<and> byConn (s_reg s) 0 = Some 0 \<and> length (s_conns s) = 2 \<and>
    length (s_peers s) = 2 \<and> p_id (peer_at s 0) = sample_id \<and>
    peer_at s 1 = (newClientPeer 1)\<lparr>p_sending := True, p_id := sample_id,
      p_ip := dotted 0xAC13000A\<rparr> \<and>
    byConn (s_reg s) 1 = Some 1 \<and> byIP (s_reg s) (dotted 0xAC13000A) = Some 1 \<and>
    \<not> cn_closed (s_conns s ! 1) \<and> cn_room (s_conns s ! 1) = 4 \<and> s_tun s = Some [] \<and>
    lease_of (s_dhcp s) sample_id = Some (dotted 0xAC13000A, True) \<and>
    m_cfg (s_dhcp s) = m_cfg sample_pool"
proof -
  note d = sample_id_ne
  obtain msg where msg: "DecodeMessage (e_json sample_env) sample_ask = Inr msg"
    "msg_type msg = MessageTypeDiscover"
    using sample_ask_decodes by (auto simp: sample_env_def)
  have v: "VerifyClientAuth (e_crypto sample_env) sample_auth_payload
      (sv_privateKey sample_running_conf) = Inr sample_id"
    by (simp add: sample_env_def sample_verifies)
  obtain l m where a: "Acquire 1 sample_id sample_pool = (Inr l, m)"
    "lease_of m sample_id = Some (dotted 0xAC13000A, True)" "l_ip l = dotted 0xAC13000A"
    using sample_fresh by blast
  have st: "s_conf sample_start = sample_running_conf" "s_dhcp sample_start = sample_pool"
    "s_peers sample_start = []" "s_conns sample_start = []" "r_conns (s_reg sample_start) = []"
    "s_tun sample_start = Some []"
    by (simp_all add: sample_start_def newPeerRegistry_def)
  obtain s1 where s1: "server_run sample_env sample_start s1" "server_inv sample_env s1"
    "s_conf s1 = sample_running_conf" "s_dhcp s1 = m" "length (s_conns s1) = 1"
    "length (s_peers s1) = 1" "map_of (r_conns (s_reg s1)) = [0 \<mapsto> 0]"
    "p_id (peer_at s1 0) = sample_id" "s_tun s1 = Some []"
    using login_run [OF NewServer_inv [OF sample_NewServer], of 5 sample_env sample_auth_payload
        sample_id sample_ask msg 1 l m "''r''"] v d msg a st
      server_run.start [of sample_env sample_start]
    by (force simp: newClientPeer_def)
  have okm: "mgr_ok m" using s1(2,4) by (simp add: server_inv_def)
  obtain r m2 where a2: "Acquire 2 sample_id m = (r, m2)" by fastforce
  from sweep_online [OF okm a(2), of 2] d a2 obtain l2 where l2: "r = Inr l2"
    by (auto simp: lease_of_def Acquire_def Let_def)
  have on2: "lease_of m2 sample_id = Some (l_ip l2, True)"
    using Acquire_ok [OF okm a2] l2 by (simp add: lease_of_def)
  have "mgr_ok sample_pool"
    using NewServer_inv [OF sample_NewServer, of sample_env] st by (simp add: server_inv_def)
  from Acquire_ok [OF this a(1)] Acquire_ok [OF okm a2] have cfg: "m_cfg m2 = m_cfg sample_pool"
    by (simp add: same_pool_def)
  from Acquire_online [OF okm a2 a(2)] on2 have ip2: "l_ip l2 = dotted 0xAC13000A" by simp
  show ?thesis
    using login_run [OF s1(2), of 5 sample_auth_payload sample_id sample_ask msg 2 l2 m2 "''r''"]
      v d msg a2 l2 on2 s1 cfg ip2
    by (auto simp: byConn_def numeral_2_eq_2)
qed


theorem reconnect_marks_offline_witness:
  "\<exists>s s1 s2. server_run sample_env sample_start s \<and>
     server_step sample_env 3 (Disconnect 0) s = Some s1 \<and>
     server_step sample_env (10 * 60 * 1000000000) SweepTick s1 = Some s2 \<and>
     lease_of (s_dhcp s) sample_id = Some (dotted 0xAC13000A, True) \<and>
     lease_of (s_dhcp s2) sample_id = None \<and> byIP (s_reg s2) (dotted 0xAC13000A) = Some 1 \<and>
     \<not> cn_closed (s_conns s2 ! p_conn (peer_at s2 1))"
proof -
  obtain s where s: "server_run sample_env sample_start s" "byConn (s_reg s) 0 = Some 0"
    "length (s_conns s) = 2" "length (s_peers s) = 2" "p_id (peer_at s 0) = sample_id"
    "byIP (s_reg s) (dotted 0xAC13000A) = Some 1" "\<not> cn_closed (s_conns s ! 1)"
    "lease_of (s_dhcp s) sample_id = Some (dotted 0xAC13000A, True)"
    and c: "m_cfg (s_dhcp s) = m_cfg sample_pool"
    and p: "peer_at s 1 = (newClientPeer 1)\<lparr>p_sending := True, p_id := sample_id,
      p_ip := dotted 0xAC13000A\<rparr>"
    using reconnected by auto
  have q: "p_conn (peer_at s 1) = 1" "p_id (peer_at s 1) = sample_id" "\<not> p_done (peer_at s 1)"
    "p_ip (peer_at s 1) = dotted 0xAC13000A"
    unfolding p by (simp_all add: newClientPeer_def)
  have g: "mc_grace (m_cfg (s_dhcp s)) = serverOfflineGrace"
    by (simp add: c sample_pool_def dhcp_config_of_def)
  have t: "10 * 60 * 1000000000 > 3 + mc_grace (m_cfg (s_dhcp s))"
    by (simp add: g serverOfflineGrace_def)
  have "0 < length (s_conns s)" "1 < length (s_peers s)" by (simp_all add: s(3,4))
  note r = reconnect_marks_offline [OF sample_NewServer s(1,2) this _ s(5) q(2) s(6) q(4,3) _ s(8) t]
  from r q(1) s(7) have "\<exists>s1 s2. server_step sample_env 3 (Disconnect 0) s = Some s1 \<and>
     server_step sample_env (10 * 60 * 1000000000) SweepTick s1 = Some s2 \<and>
     lease_of (s_dhcp s2) sample_id = None \<and> byIP (s_reg s2) (dotted 0xAC13000A) = Some 1 \<and>
     \<not> cn_closed (s_conns s2 ! p_conn (peer_at s2 1))"
    by (fastforce simp del: server_step.simps)
  with s(1,8) show ?thesis by blast
qed

text \<open>A packet of the reconnected client to its own address.\<close>

definition sample_packet :: bytes where
  "sample_packet = replicate 12 0 @ [172, 19, 0, 10, 172, 19, 0, 10]"

lemma sample_packet_hdr:
  "sample_hdr sample_packet = Some (net_IPv4 172 19 0 10, net_IPv4 172 19 0 10)"
  by (simp add: sample_hdr_def sample_packet_def nth_append)

lemma sample_address:
  "ip_String (net_IPv4 172 19 0 10) = dotted 0xAC13000A" "\<not> IsBroadcast (net_IPv4 172 19 0 10)"
  "\<not> IsMulticast (net_IPv4 172 19 0 10)"
  "\<not> IsSubnetBroadcast (net_IPv4 172 19 0 10) ''172.19.0.254'' ''255.255.255.0''"
proof -
  have t: "To4 (net_IPv4 172 19 0 10) = Some [172, 19, 0, 10]" by (simp add: net_IPv4_def)
  have "put_u32 0xAC13000A = [172, 19, 0, 10]" by (simp add: put_u32_def)
  then show "ip_String (net_IPv4 172 19 0 10) = dotted 0xAC13000A"
    by (simp add: ip_String_def t dotted_def)
  show "\<not> IsBroadcast (net_IPv4 172 19 0 10)" "\<not> IsMulticast (net_IPv4 172 19 0 10)"
    by (simp_all add: IsBroadcast_def ip_Equal_def net_IPv4_def v4_in_v6_def IsMulticast_def)
  show "\<not> IsSubnetBroadcast (net_IPv4 172 19 0 10) ''172.19.0.254'' ''255.255.255.0''"
    by (simp add: IsSubnetBroadcast_def t default_addresses ip_Equal_def)
qed

lemma sample_forwarded:
  assumes "byConn (s_reg s) 1 = Some 1" and "length (s_conns s) = 2" and "length (s_peers s) = 2"
    and "s_conf s = sample_running_conf" and "byIP (s_reg s) (dotted 0xAC13000A) = Some 1"
    and "peer_at s 1 = (newClientPeer 1)\<lparr>p_sending := True, p_id := sample_id,
      p_ip := dotted 0xAC13000A\<rparr>"
  shows "\<exists>s'. server_step sample_env 9 (Message 1 (Pack TypeIP sample_packet)) s = Some s' \<and>
    p_queue (peer_at s' 1) = [sample_packet] \<and> length (s_peers s') = 2"
proof -
  have "dotted 0xAC13000A \<noteq> []" by (simp add: dotted_def v4_string_def)
  moreover have "e_hdr sample_env = sample_hdr" by (simp add: sample_env_def)
  ultimately show ?thesis
    using assms unfolding One_nat_def
    by (simp add: onTCPMessage_def handleIP_def Let_def forward_def authed_def ownsIP_def
        sample_id_ne upd_peer_def sample_packet_hdr sample_address newClientPeer_def
        enqueue_def serverPeerSendQueueSize_def)
qed

theorem no_spoofing_witness:
  "\<exists>s payload. server_run sample_env sample_start s \<and>
     VerifyClientAuth toy_crypto payload (sv_privateKey (s_conf s)) = Inr (p_id (peer_at s 1)) \<and>
     in_pool (s_dhcp s) (p_ip (peer_at s 1))"
proof -
  obtain s where s: "server_run sample_env sample_start s" "byConn (s_reg s) 1 = Some 1"
    "length (s_conns s) = 2" "length (s_peers s) = 2" "s_conf s = sample_running_conf"
    "byIP (s_reg s) (dotted 0xAC13000A) = Some 1"
    "peer_at s 1 = (newClientPeer 1)\<lparr>p_sending := True, p_id := sample_id,
      p_ip := dotted 0xAC13000A\<rparr>"
    using reconnected by blast
  obtain s' where s': "server_step sample_env 9 (Message 1 (Pack TypeIP sample_packet)) s = Some s'"
    "p_queue (peer_at s' 1) = [sample_packet]" "length (s_peers s') = 2"
    using sample_forwarded [OF s(2-7)] by blast
  have "map p_queue (s_peers s') ! 1 = [sample_packet]" "map p_queue (s_peers s) ! 1 = []"
    using s'(2,3) s(4,7) by (simp_all add: newClientPeer_def)
  then have "map p_queue (s_peers s') \<noteq> map p_queue (s_peers s) \<or> s_tun s' \<noteq> s_tun s" by force
  from no_spoofing [OF sample_NewServer s(1) s'(1) this] s(1,2) show ?thesis
    by (fastforce simp: sample_env_def)
qed

end
