(* ===== verification/Server_Delivery.thy ===== *)
theory Server_Delivery
  imports Server_Safety
begin

text \<open>
  What the server does deliver: the turns of a peer's sending loop, a packet on its way from one
  client to another, and the packets that go to the TUN device.
\<close>

section \<open>The sending loop\<close>

fun send_turns :: "nat \<Rightarrow> nat \<Rightarrow> server \<Rightarrow> server option" where
  "send_turns 0 i s = Some s"
| "send_turns (Suc n) i s = Option.bind (send_turn i s) (send_turns n i)"

text \<open>A peer that sends: its loop runs, its connection is open and has room for \<open>n\<close> writes.\<close>

definition can_send :: "nat \<Rightarrow> nat \<Rightarrow> server \<Rightarrow> bool" where
  "can_send n i s \<longleftrightarrow>
     i < length (s_peers s) \<and> p_conn (peer_at s i) < length (s_conns s) \<and>
     p_sending (peer_at s i) \<and> \<not> p_done (peer_at s i) \<and>
     \<not> cn_closed (s_conns s ! p_conn (peer_at s i)) \<and>
     n \<le> cn_room (s_conns s ! p_conn (peer_at s i))"

definition sent_to :: "nat \<Rightarrow> server \<Rightarrow> bytes list" where
  "sent_to i s = cn_sent (s_conns s ! p_conn (peer_at s i))"

lemma send_turn_ok:
  assumes "can_send (Suc n) i s" and "p_queue (peer_at s i) = pkt # q"
  shows "\<exists>s'. send_turn i s = Some s' \<and> can_send n i s' \<and> p_queue (peer_at s' i) = q \<and>
    sent_to i s' = sent_to i s @ [Pack TypeIP pkt]"
  using assms
  by (auto simp: send_turn_def can_send_def sent_to_def peer_write_def Let_def conn_write_def
      upd_peer_def upd_conn_def)

lemma send_turns_ok:
  "can_send n i s \<Longrightarrow> n \<le> length (p_queue (peer_at s i)) \<Longrightarrow>
   \<exists>s'. send_turns n i s = Some s' \<and> p_queue (peer_at s' i) = drop n (p_queue (peer_at s i)) \<and>
     sent_to i s' = sent_to i s @ map (Pack TypeIP) (take n (p_queue (peer_at s i)))"
proof (induction n arbitrary: s)
  case 0
  then show ?case by simp
next
  case (Suc n)
  then obtain pkt q where q: "p_queue (peer_at s i) = pkt # q" by (cases "p_queue (peer_at s i)") auto
  with send_turn_ok [OF Suc.prems(1)] obtain t where t: "send_turn i s = Some t" "can_send n i t"
    "p_queue (peer_at t i) = q" "sent_to i t = sent_to i s @ [Pack TypeIP pkt]" by blast
  with Suc.IH [of t] Suc.prems(2) q show ?case by auto
qed

section \<open>From a message to a queue\<close>

text \<open>A packet that the checks of \<open>handleIP\<close> let pass.\<close>

definition passes :: "server_env \<Rightarrow> nat \<Rightarrow> bytes \<Rightarrow> bytes \<Rightarrow> server \<Rightarrow> bool" where
  "passes E i pkt dst s \<longleftrightarrow>
     (\<exists>src. e_hdr E pkt = Some (src, dst) \<and> ownsIP (ip_String src) (peer_at s i)) \<and>
     \<not> IsBroadcast dst \<and> \<not> IsMulticast dst \<and>
     \<not> IsSubnetBroadcast dst (v_gateway (sv_vdhcp (s_conf s))) (v_mask (sv_vdhcp (s_conf s)))"

lemma handleIP_passes:
  assumes "passes E i pkt dst s"
  shows "handleIP E i pkt s =
    forward dst pkt (upd_peer i (\<lambda>p. p\<lparr>p_stats := AddDownload (length pkt) (p_stats p)\<rparr>) s)"
  using assms
  by (auto simp: passes_def handleIP_def Let_def ownsIP_def upd_peer_def nth_update_proj)

lemma stats_same:
  "p_queue (peer_at (upd_peer i (\<lambda>p. p\<lparr>p_stats := f p\<rparr>) s) j) = p_queue (peer_at s j)"
  "p_done (peer_at (upd_peer i (\<lambda>p. p\<lparr>p_stats := f p\<rparr>) s) j) = p_done (peer_at s j)"
  "p_conn (peer_at (upd_peer i (\<lambda>p. p\<lparr>p_stats := f p\<rparr>) s) j) = p_conn (peer_at s j)"
  "p_sending (peer_at (upd_peer i (\<lambda>p. p\<lparr>p_stats := f p\<rparr>) s) j) = p_sending (peer_at s j)"
  by (simp_all add: upd_peer_def nth_update_proj)

lemma message_enqueued:
  assumes "byConn (s_reg s) c = Some i" and "c < length (s_conns s)" and "authed (peer_at s i)"
    and "passes E i pkt dst s" and "byIP (s_reg s) (ip_String dst) = Some j"
    and "can_send n j s" and "length (p_queue (peer_at s j)) < serverPeerSendQueueSize"
  shows "\<exists>s'. server_step E now (Message c (Pack TypeIP pkt)) s = Some s' \<and> can_send n j s' \<and>
    p_queue (peer_at s' j) = p_queue (peer_at s j) @ [pkt] \<and> sent_to j s' = sent_to j s"
proof -
  let ?s1 = "upd_peer i (\<lambda>p. p\<lparr>p_stats := AddDownload (length pkt) (p_stats p)\<rparr>) s"
  have s1: "s_reg ?s1 = s_reg s" "s_conns ?s1 = s_conns s" "length (s_peers ?s1) = length (s_peers s)"
    by (simp_all add: upd_peer_def)
  let ?p = "(peer_at ?s1 j)\<lparr>p_queue := p_queue (peer_at s j) @ [pkt]\<rparr>"
  have "enqueue pkt (peer_at ?s1 j) = Some ?p"
    using assms(6,7) by (simp add: enqueue_def can_send_def stats_same)
  with assms(5) s1(1) have "forward dst pkt ?s1 = Some (upd_peer j (\<lambda>_. ?p) ?s1)"
    by (simp add: forward_def)
  then have h: "handleIP E i pkt s = Some (upd_peer j (\<lambda>_. ?p) ?s1)"
    using handleIP_passes [OF assms(4)] by simp
  have "server_step E now (Message c (Pack TypeIP pkt)) s = Some (upd_peer j (\<lambda>_. ?p) ?s1)"
    using assms(1-3) h by (simp add: onTCPMessage_def)
  moreover have "can_send n j (upd_peer j (\<lambda>_. ?p) ?s1)"
    "p_queue (peer_at (upd_peer j (\<lambda>_. ?p) ?s1) j) = p_queue (peer_at s j) @ [pkt]"
    "sent_to j (upd_peer j (\<lambda>_. ?p) ?s1) = sent_to j s"
    using assms(6)
    by (simp_all add: can_send_def sent_to_def upd_peer_def [of j] s1 stats_same)
  ultimately show ?thesis by blast
qed

section \<open>A server that delivers\<close>

lemma sample_delivery:
  obtains s where "server_run sample_env sample_start s" "p_queue (peer_at s 1) = []"
    "byConn (s_reg s) 1 = Some 1" "1 < length (s_conns s)" "authed (peer_at s 1)"
    "passes sample_env 1 sample_packet (net_IPv4 172 19 0 10) s"
    "byIP (s_reg s) (ip_String (net_IPv4 172 19 0 10)) = Some 1"
    "can_send (Suc (length (p_queue (peer_at s 1)))) 1 s"
    "length (p_queue (peer_at s 1)) < serverPeerSendQueueSize"
proof -
  obtain s where s: "server_run sample_env sample_start s" "byConn (s_reg s) 1 = Some 1"
    "length (s_conns s) = 2" "length (s_peers s) = 2" "s_conf s = sample_running_conf"
    "byIP (s_reg s) (dotted 0xAC13000A) = Some 1" "\<not> cn_closed (s_conns s ! 1)"
    "cn_room (s_conns s ! 1) = 4"
    and p: "peer_at s 1 = (newClientPeer 1)\<lparr>p_sending := True, p_id := sample_id,
      p_ip := dotted 0xAC13000A\<rparr>"
    using reconnected by blast
  have q: "p_queue (peer_at s 1) = []" "authed (peer_at s 1)" "1 < length (s_conns s)"
    "can_send (Suc (length (p_queue (peer_at s 1)))) 1 s"
    unfolding can_send_def p using s sample_id_ne by (simp_all add: newClientPeer_def authed_def)
  have "dotted 0xAC13000A \<noteq> []" by (simp add: dotted_def v4_string_def)
  then have 1: "passes sample_env 1 sample_packet (net_IPv4 172 19 0 10) s"
    unfolding passes_def p using s(5)
    by (simp add: sample_env_def sample_packet_hdr sample_address ownsIP_def newClientPeer_def)
  have 2: "byIP (s_reg s) (ip_String (net_IPv4 172 19 0 10)) = Some 1"
    using s(6) by (simp add: sample_address)
  have 3: "length (p_queue (peer_at s 1)) < serverPeerSendQueueSize"
    by (simp only: q(1) serverPeerSendQueueSize_def) simp
  show ?thesis by (rule that [OF s(1) q(1) s(2) q(3,2) 1 2 q(4) 3])
qed

section \<open>Properties\<close>

text \<open>
  C8: Packets are delivered. A packet of an authenticated client that carries the client's own
  source address and is addressed to a client whose peer is bound, connected and not overfull is
  queued for that client unchanged, and after as many turns of its sending loop as packets wait
  it has been written to that client's connection, packed, after all packets queued before it
  and in their order.
\<close>

theorem packet_delivered:
  assumes "byConn (s_reg s) c = Some i" and "c < length (s_conns s)" and "authed (peer_at s i)"
    and "passes E i pkt dst s" and "byIP (s_reg s) (ip_String dst) = Some j"
    and "can_send (Suc (length (p_queue (peer_at s j)))) j s"
    and "length (p_queue (peer_at s j)) < serverPeerSendQueueSize"
  shows "\<exists>s1 s2. server_step E now (Message c (Pack TypeIP pkt)) s = Some s1 \<and>
    send_turns (Suc (length (p_queue (peer_at s j)))) j s1 = Some s2 \<and>
    p_queue (peer_at s2 j) = [] \<and>
    sent_to j s2 = sent_to j s @ map (Pack TypeIP) (p_queue (peer_at s j)) @ [Pack TypeIP pkt]"
proof -
  obtain s1 where s1: "server_step E now (Message c (Pack TypeIP pkt)) s = Some s1"
    "can_send (Suc (length (p_queue (peer_at s j)))) j s1"
    "p_queue (peer_at s1 j) = p_queue (peer_at s j) @ [pkt]" "sent_to j s1 = sent_to j s"
    using message_enqueued [OF assms] by blast
  with send_turns_ok [OF s1(2)] show ?thesis by (auto simp del: send_turns.simps)
qed

theorem packet_delivered_witness:
  "\<exists>s s1 s2. server_run sample_env sample_start s \<and>
     server_step sample_env 9 (Message 1 (Pack TypeIP sample_packet)) s = Some s1 \<and>
     send_turns 1 1 s1 = Some s2 \<and>
     sent_to 1 s2 = sent_to 1 s @ [Pack TypeIP sample_packet]"
proof -
  obtain s where s: "server_run sample_env sample_start s" "p_queue (peer_at s 1) = []"
    "byConn (s_reg s) 1 = Some 1" "1 < length (s_conns s)" "authed (peer_at s 1)"
    "passes sample_env 1 sample_packet (net_IPv4 172 19 0 10) s"
    "byIP (s_reg s) (ip_String (net_IPv4 172 19 0 10)) = Some 1"
    "can_send (Suc (length (p_queue (peer_at s 1)))) 1 s"
    "length (p_queue (peer_at s 1)) < serverPeerSendQueueSize"
    by (rule sample_delivery)
  from packet_delivered [OF s(3-9), of 9] have "\<exists>s1 s2.
      server_step sample_env 9 (Message 1 (Pack TypeIP sample_packet)) s = Some s1 \<and>
      send_turns (Suc (length (p_queue (peer_at s 1)))) 1 s1 = Some s2 \<and>
      p_queue (peer_at s2 1) = [] \<and> sent_to 1 s2 =
        sent_to 1 s @ map (Pack TypeIP) (p_queue (peer_at s 1)) @ [Pack TypeIP sample_packet]" .
  then show ?thesis
    unfolding s(2) list.size list.map append.left_neutral One_nat_def [symmetric] using s(1) by blast
qed

text \<open>
  Multicast packets go out. The header parser gives addresses in sixteen bytes, for which
  \<open>IsMulticast\<close> is false; so a packet of an authenticated client to any address from 224.0.0.0 to
  239.255.255.255 is not dropped but written to the TUN device of a server that is a gateway,
  like a packet to a host outside.
\<close>

theorem multicast_forwarded:
  assumes "byConn (s_reg s) c = Some i" and "c < length (s_conns s)" and "authed (peer_at s i)"
    and "e_hdr E pkt = Some (src, net_IPv4 a b d e)" and "ownsIP (ip_String src) (peer_at s i)"
    and "0xE0 \<le> a" and "a \<le> 0xEF" and "pkt \<noteq> []" and "s_tun s = Some out"
    and "\<not> IsSubnetBroadcast (net_IPv4 a b d e) (v_gateway (sv_vdhcp (s_conf s)))
      (v_mask (sv_vdhcp (s_conf s)))"
    and "byIP (s_reg s) (ip_String (net_IPv4 a b d e)) = None"
  shows "IsMulticast [a, b, d, e] \<and>
    (\<exists>s'. server_step E now (Message c (Pack TypeIP pkt)) s = Some s' \<and> s_tun s' = Some (out @ [pkt]))"
proof -
  have "a \<noteq> 255" using assms(7) by (auto simp: word_le_nat_alt)
  then have "\<not> IsBroadcast (net_IPv4 a b d e)"
    by (auto simp: IsBroadcast_def ip_Equal_def net_IPv4_def v4_in_v6_def)
  moreover have "\<not> IsMulticast (net_IPv4 a b d e)"
    by (simp add: IsMulticast_def net_IPv4_def v4_in_v6_def)
  ultimately have "passes E i pkt (net_IPv4 a b d e) s"
    using assms(4,5,10) by (simp add: passes_def)
  note h = handleIP_passes [OF this]
  have "IsMulticast [a, b, d, e]" using assms(6,7) by (simp add: IsMulticast_def)
  then show ?thesis
    using assms(1-3,8,9,11) by (simp add: onTCPMessage_def h forward_def upd_peer_def)
qed

definition sample_bound :: server where
  "sample_bound = sample_start
     \<lparr>s_conns := [\<lparr>cn_remote = ''r'', cn_closed = False, cn_room = 5, cn_sent = []\<rparr>],
      s_peers := [(newClientPeer 0)\<lparr>p_id := sample_id, p_ip := dotted 0xAC13000A\<rparr>],
      s_reg := \<lparr>r_conns = [(0, 0)], r_ips = [(dotted 0xAC13000A, 0)], r_ids = [(sample_id, 0)]\<rparr>\<rparr>"

theorem multicast_forwarded_witness:
  "\<exists>s'. server_step sample_env 9 (Message 0 (Pack TypeIP
      (replicate 12 0 @ [172, 19, 0, 10, 224, 0, 0, 1]))) sample_bound = Some s' \<and>
    s_tun s' = Some [replicate 12 0 @ [172, 19, 0, 10, 224, 0, 0, 1]]"
proof -
  let ?pkt = "replicate 12 0 @ [172, 19, 0, 10, 224, 0, 0, 1] :: bytes"
  have t: "To4 (net_IPv4 224 0 0 1) = Some [224, 0, 0, 1]" by (simp add: net_IPv4_def)
  have "put_u32 0xE0000001 = [224, 0, 0, 1]" by (simp add: put_u32_def)
  then have i: "ip_String (net_IPv4 224 0 0 1) = dotted 0xE0000001"
    by (simp add: ip_String_def t dotted_def)
  have n: "dotted v \<noteq> []" for v by (simp add: dotted_def v4_string_def)
  have b: "byConn (s_reg sample_bound) 0 = Some 0" "0 < length (s_conns sample_bound)"
    "authed (peer_at sample_bound 0)" "s_tun sample_bound = Some []"
    "ownsIP (ip_String (net_IPv4 172 19 0 10)) (peer_at sample_bound 0)"
    "byIP (s_reg sample_bound) (ip_String (net_IPv4 224 0 0 1)) = None"
    using sample_id_ne n
    by (simp_all add: sample_bound_def byConn_def byIP_def authed_def ownsIP_def sample_start_def
        newClientPeer_def sample_address i)
  have "e_hdr sample_env ?pkt = Some (net_IPv4 172 19 0 10, net_IPv4 224 0 0 1)"
    by (simp add: sample_env_def sample_hdr_def nth_append)
  moreover have "\<not> IsSubnetBroadcast (net_IPv4 224 0 0 1) (v_gateway (sv_vdhcp (s_conf sample_bound)))
      (v_mask (sv_vdhcp (s_conf sample_bound)))"
    by (simp add: sample_bound_def sample_start_def IsSubnetBroadcast_def t default_addresses
        ip_Equal_def)
  ultimately show ?thesis
    using multicast_forwarded [OF b(1-3) _ b(5) _ _ _ b(4) _ b(6)] by simp
qed

end
