(* ===== verification/Sessions.thy ===== *)
theory Sessions
  imports Client_Safety Server_Delivery
begin

text \<open>
  A client and the server together: what the client sends when its connection is there, what the
  server answers, and what the client does with the answer.
\<close>

section \<open>The client's side\<close>

lemma ascii_hex: "ascii (hex_encode bs)"
  using visible_hex_encode [of _ bs] by (auto simp: ascii_def list_all_iff visible_def)

lemma ascii_digits: "(\<And>c. c \<in> set s \<Longrightarrow> is_digit c) \<Longrightarrow> ascii s"
  by (fastforce simp: ascii_def list_all_iff is_digit_def)

lemma ascii_decimal: "ascii (decimal n)"
  by (rule ascii_digits) (use decimal_digits in blast)

lemma ascii_request: "ascii (NewRequestID ent now)"
  using ascii_decimal ascii_hex by (auto simp: NewRequestID_def ascii_def)

lemma ascii_discover: "EncodeDiscover J ent now = (ask, req) \<Longrightarrow> ascii req"
  using ascii_request by (auto simp: EncodeDiscover_def Let_def)

text \<open>A discover message, as the server reads it.\<close>

definition discover_message :: "string \<Rightarrow> message" where
  "discover_message req = empty_message\<lparr>msg_type := MessageTypeDiscover, msg_reqID := req\<rparr>"

lemma discover_simps [simp]:
  "msg_type (discover_message req) = MessageTypeDiscover" "msg_reqID (discover_message req) = req"
  by (simp_all add: discover_message_def)

lemma discover_decodes:
  assumes "json_ok J" and "EncodeDiscover J ent now = (ask, req)"
  shows "DecodeMessage J ask = Inr (discover_message req)"
proof -
  have "plain_message (discover_message req)"
    using assms(2) ascii_request [of ent now]
    by (auto simp: plain_message_def discover_message_def empty_message_def MessageTypeDiscover_def
        int64_def ascii_def EncodeDiscover_def Let_def)
  then have "j_dec J (j_enc J (discover_message req)) = Some (discover_message req)"
    using assms(1) by (simp add: json_ok_def)
  with assms(2) show ?thesis
    by (auto simp: DecodeMessage_def EncodeDiscover_def Let_def discover_message_def)
qed

lemma client_connects:
  assumes "EncodeClientAuth (ce_crypto K) (cc_privateKey (k_conf k)) (cc_serverPublicKey (k_conf k)) entA
      = Inr (auth, d)"
    and "EncodeDiscover (ce_json K) entD now = (ask, req)" and "2 \<le> room"
    and "client_step K now (KConnect remote room entA entD) k = Some k1"
  shows "k_session k1 = no_session\<lparr>cs_conn := Some (length (k_conns k)), cs_clientID := d,
      cs_reqID := req, cs_remote := remote\<rparr> \<and>
    length (k_conns k1) = Suc (length (k_conns k)) \<and>
    k_conns k1 ! length (k_conns k) = \<lparr>cn_remote = remote, cn_closed = False, cn_room = room - 2,
      cn_sent = [Pack TypeAuth auth, Pack TypeVDHCP ask]\<rparr>"
  using assms(3,4)
  by (auto simp: client_onTCPConnect_def assms(1,2) Let_def k_write_def upd_kconn_def conn_write_def)

lemma client_offered:
  assumes "k_session k = no_session\<lparr>cs_conn := Some c, cs_clientID := d, cs_reqID := req,
      cs_remote := remote\<rparr>" and "c < length (k_conns k)" and "session_ok k"
    and "DecodeMessage (ce_json K) pkt = Inr msg" and "ValidateOffer msg req = None"
    and "configureAddress K (msg_ip msg) (msg_mask msg) (msg_gateway msg) (msg_dns msg)
      (msg_mtu msg) k = (None, k1)"
  shows "\<exists>k2. client_step K now (KMessage c (Pack TypeVDHCP pkt) pick) k = Some k2 \<and>
    isReadyConn c k2 \<and> cs_lastIP (k_session k2) = msg_ip msg \<and> cs_clientID (k_session k2) = d \<and>
    k_conns k2 = k_conns k \<and> k_tun k2 = k_tun k1 \<and> k_forwarding k2 = k_forwarding k1"
proof -
  from assms(5) have "msg_type msg = MessageTypeOffer"
    by (auto simp: ValidateOffer_def split: if_splits)
  then have n: "msg_type msg \<noteq> MessageTypeNak"
    by (simp add: MessageTypeOffer_def MessageTypeNak_def)
  have "k_session k1 = k_session k" "k_conns k1 = k_conns k"
    using configureAddress_ok [OF assms(6)] assms(3) by (simp_all add: session_ok_def)
  with assms n show ?thesis
    by (auto simp: client_onTCPMessage_def isCurrentConn_def client_handleVDHCP_def no_session_def
        isReadyConn_def Let_def)
qed

section \<open>The server's side\<close>

text \<open>What the server puts into an offer is a complete offer.\<close>

definition offers_ok :: "server_config \<Rightarrow> bool" where
  "offers_ok conf \<longleftrightarrow>
     (let v = sv_vdhcp conf
      in v_mask v \<noteq> [] \<and> v_gateway v \<noteq> [] \<and> v_dns v \<noteq> [] \<and>
         (\<forall>d\<in>set (v_dns v). parse_v4 (trim_space d) \<noteq> None) \<and> 0 < sv_mtu conf \<and>
         ascii (v_mask v) \<and> ascii (v_gateway v) \<and> list_all ascii (v_dns v) \<and> int64 (sv_mtu conf))"

definition offer_of :: "server_config \<Rightarrow> string \<Rightarrow> string \<Rightarrow> message" where
  "offer_of conf req ip =
     offer_message req ip (v_mask (sv_vdhcp conf)) (v_gateway (sv_vdhcp conf)) (v_dns (sv_vdhcp conf))
       (sv_mtu conf) serverLeaseTTL"

lemma login_offer_decodes:
  assumes "json_ok (e_json E)" and "offers_ok conf" and "ascii (l_ip l)" and "ascii req" and "l_ip l \<noteq> []"
  shows "DecodeMessage (e_json E) (login_offer E conf (discover_message req) l) =
      Inr (offer_of conf req (l_ip l))" (is ?d)
    and "ValidateOffer (offer_of conf req (l_ip l)) req = None" (is ?v)
proof -
  have "plain_message (offer_of conf req (l_ip l))"
    using assms(2-4)
    by (auto simp: plain_message_def offer_of_def offer_message_def offers_ok_def Let_def
        MessageTypeOffer_def ascii_def int64_def serverLeaseTTL_def hour_def)
  with assms(1) show ?d unfolding login_offer_def offer_of_def by (simp add: offer_decodes)
  have "1000000000 \<le> serverLeaseTTL" by (simp add: serverLeaseTTL_def hour_def)
  with assms(2,5) show ?v by (auto simp: offer_of_def offer_validates offers_ok_def Let_def)
qed

lemma next_conn_unknown:
  assumes "server_inv E s"
  shows "map_of (r_conns (s_reg s)) (length (s_conns s)) = None"
proof (rule ccontr)
  assume "map_of (r_conns (s_reg s)) (length (s_conns s)) \<noteq> None"
  then obtain i where "map_of (r_conns (s_reg s)) (length (s_conns s)) = Some i" by blast
  with assms reg_okD(1) [of "s_peers s" "s_reg s"] server_inv_peer [OF assms, of i]
  show False by (auto simp: server_inv_def)
qed

section \<open>Properties of the client\<close>

text \<open>
  C12: A session that is ready is configured. In every state the client can reach, a ready session
  has a live connection, a TUN device and an interface that was given the session's address by a
  command that succeeded; the address, mask, gateway and name servers are those of an offer
  that answers the session's own request.
\<close>

theorem client_ready_configured:
  assumes "client_run E (NewVlanClient conf) s" and "cs_ready (k_session s)"
  shows "\<exists>c msg. cs_conn (k_session s) = Some c \<and> c < length (k_conns s) \<and> k_tun s \<noteq> None \<and>
    address_set (k_conf s) (cs_lastIP (k_session s)) (k_log s) \<and>
    ValidateOffer msg (cs_reqID (k_session s)) = None \<and>
    cs_lastIP (k_session s) = msg_ip msg \<and> cs_lastMask (k_session s) = msg_mask msg \<and>
    cs_lastGW (k_session s) = msg_gateway msg \<and> cs_lastDNS (k_session s) = msg_dns msg"
  using client_run_ok [OF assms(1) NewVlanClient_ok] assms(2)
  by (auto simp: session_ok_def split: option.splits)

text \<open>
  C11: Packets pass only in ready sessions. Whatever event a reachable client handles: what has
  been sent on a connection grows only when the forwarding loop takes a packet from the device's
  queue, and then by that packet, packed, on the connection of the ready session; and the queue to
  the device grows, other than by the turns of its own loops, only by the payload of a packet
  message on the connection of the ready session.
\<close>

theorem client_gate:
  assumes "client_run E (NewVlanClient conf) s" and "client_step E now ev s = Some s'"
  shows "(\<forall>c<length (k_conns s). cn_sent (k_conns s' ! c) = cn_sent (k_conns s ! c) \<or>
      (\<exists>t pkt. ev = KForward \<and> isReadyConn c s \<and> k_tun s = Some t \<and> tt_rq t = pkt # tl (tt_rq t) \<and>
         cn_sent (k_conns s' ! c) = cn_sent (k_conns s ! c) @ [Pack TypeIP pkt])) \<and>
    (\<forall>t. k_tun s = Some t \<longrightarrow> (\<exists>t'. k_tun s' = Some t' \<and>
      (tt_wq t' = tt_wq t \<or> (\<exists>tev. ev = KTunTurn tev) \<or>
       (\<exists>c pkt pick. ev = KMessage c (Pack TypeIP pkt) pick \<and> isReadyConn c s \<and>
          tt_wq t' = tt_wq t @ [pkt]))))"
proof -
  have ok: "session_ok s" by (rule client_run_ok [OF assms(1) NewVlanClient_ok])
  show ?thesis
    using client_step_sent [OF ok assms(2)] client_step_tun [OF ok assms(2)] by blast
qed

text \<open>
  C27: A client that was stopped never forwards again. \<^verbatim>\<open>Stop\<close> closes the TUN device but leaves it in
  its field, so that after another \<^verbatim>\<open>Start\<close>, whatever connections and offers follow, no new device
  is made and the loop that takes packets from the device is not started again: sessions become
  ready, and nothing from the device reaches them.
\<close>

theorem restarted_client_silent:
  assumes "client_run E (NewVlanClient conf) s" and "k_started s" and "k_tun s \<noteq> None"
    and "client_run E (client_stop E current s) s'"
  shows "\<not> k_forwarding s' \<and> client_step E now KForward s' = None \<and>
    (\<exists>t. k_tun s' = Some t \<and> tt_done t)"
proof -
  have ok: "session_ok s" by (rule client_run_ok [OF assms(1) NewVlanClient_ok])
  have "session_ok (client_stop E current s)"
    by (rule session_ok_step [OF ok, of E 0 "KStop current"]) simp
  from tun_dead_run [OF assms(4) this client_stop_dead [OF assms(2,3)]]
  show ?thesis by (simp add: tun_dead_def forward_turn_def)
qed

section \<open>The client and the server\<close>

lemma Acquire_lease:
  assumes "mgr_ok m" and "Acquire now d m = (Inr l, m')"
  shows "(\<exists>v. l_ip l = dotted v) \<and> d \<noteq> []"
proof -
  from Acquire_ok [OF assms] have "mgr_ok m'" "map_of (leaseByID m') d = Some l" by auto
  from mgr_okD(3) [OF this] show ?thesis by (auto simp: lease_ok_def in_pool_def)
qed

lemma dotted_plain: "ascii (dotted v)" "dotted v \<noteq> []"
  using decimal_digits
  by (fastforce simp: dotted_def v4_string_def ascii_def list_all_iff is_digit_def)+

text \<open>
  The server's part of every login: the two messages of a client make it send one message, the
  offer of the lease, and register the connection's peer.
\<close>

lemma server_answers:
  assumes srv: "NewServer sconf = Inr s0" "server_run E s0 s"
    and same: "e_crypto E = C" "e_json E = J"
    and laws: "ecdh_ok C" "hmac_len C" "json_ok J"
    and keys: "ParsePrivateKeyAny (sv_privateKey (s_conf s)) = Inr sp"
      "ParsePublicKeyAny spk = Inr (ecdh_pub C sp)"
      "EncodeClientAuth C ck spk entA = Inr (auth, d)"
    and ask: "EncodeDiscover J entD now = (ask, req)"
    and lease: "Acquire now d (s_dhcp s) = (Inr l, m)" "offers_ok (s_conf s)"
    and room: "0 < sroom"
  shows "\<exists>s1 s2 s3 pkt. server_step E now (Connect sremote sroom) s = Some s1 \<and>
    server_step E now (Message (length (s_conns s)) (Pack TypeAuth auth)) s1 = Some s2 \<and>
    server_step E now (Message (length (s_conns s)) (Pack TypeVDHCP ask)) s2 = Some s3 \<and>
    cn_sent (s_conns s3 ! length (s_conns s)) = [Pack TypeVDHCP pkt] \<and>
    DecodeMessage J pkt = Inr (offer_of (s_conf s) req (l_ip l)) \<and>
    ValidateOffer (offer_of (s_conf s) req (l_ip l)) req = None \<and>
    byIP (s_reg s3) (l_ip l) = Some (length (s_peers s)) \<and>
    p_id (peer_at s3 (length (s_peers s))) = d \<and> ownsIP (l_ip l) (peer_at s3 (length (s_peers s)))"
proof -
  have inv: "server_inv E s" by (rule run_inv [OF srv(2) NewServer_inv [OF srv(1)]])
  then have ok: "mgr_ok (s_dhcp s)" by (simp add: server_inv_def)
  from Acquire_lease [OF ok lease(1)] obtain v where v: "l_ip l = dotted v" and d: "d \<noteq> []" by blast
  have req: "ascii req" by (rule ascii_discover [OF ask])
  have ver: "VerifyClientAuth (e_crypto E) auth (sv_privateKey (s_conf s)) = Inr d"
    using auth_verifies [OF laws(1,2) keys] by (simp add: same)
  have dec: "DecodeMessage (e_json E) ask = Inr (discover_message req)"
    using discover_decodes [OF laws(3) ask] by (simp add: same)
  from login_run [OF inv room ver d dec _ lease(1) next_conn_unknown [OF inv], of sremote]
  obtain s1 s2 s3 where s: "server_step E now (Connect sremote sroom) s = Some s1"
    "server_step E now (Message (length (s_conns s)) (Pack TypeAuth auth)) s1 = Some s2"
    "server_step E now (Message (length (s_conns s)) (Pack TypeVDHCP ask)) s2 = Some s3"
    "cn_sent (s_conns s3 ! length (s_conns s)) =
      [Pack TypeVDHCP (login_offer E (s_conf s) (discover_message req) l)]"
    "byIP (s_reg s3) (l_ip l) = Some (length (s_peers s))"
    "peer_at s3 (length (s_peers s)) =
      (newClientPeer (length (s_conns s)))\<lparr>p_sending := True, p_id := d, p_ip := l_ip l\<rparr>"
    by (auto simp del: server_step.simps)
  have ne: "l_ip l \<noteq> []" and asc: "ascii (l_ip l)" using v dotted_plain by simp_all
  have js: "json_ok (e_json E)" using laws(3) by (simp add: same)
  from login_offer_decodes [OF js lease(2) asc req ne] s ne show ?thesis
    by (intro exI conjI) (assumption | simp add: ownsIP_def newClientPeer_def same)+
qed

text \<open>
  C4: A client gets its address. Let a running client and a running server agree on their keys, and
  let the server have an address left. When the client's connection is there, the two messages
  the client sends, handled by the server on a new connection, make the server send exactly one
  message; when the client handles it and can configure its interface, its session is ready with
  the address of its lease, and the server has the connection's peer registered for that address
  under the same identity.
\<close>

theorem client_gets_address:
  assumes srv: "NewServer sconf = Inr s0" "server_run E s0 s"
    and cli: "client_run K (NewVlanClient conf) k"
    and same: "e_crypto E = ce_crypto K" "e_json E = ce_json K"
    and laws: "ecdh_ok (ce_crypto K)" "hmac_len (ce_crypto K)" "json_ok (ce_json K)"
    and keys: "ParsePrivateKeyAny (sv_privateKey (s_conf s)) = Inr sp"
      "ParsePublicKeyAny (cc_serverPublicKey (k_conf k)) = Inr (ecdh_pub (ce_crypto K) sp)"
      "EncodeClientAuth (ce_crypto K) (cc_privateKey (k_conf k)) (cc_serverPublicKey (k_conf k)) entA
        = Inr (auth, d)"
    and lease: "Acquire now d (s_dhcp s) = (Inr l, m)" "offers_ok (s_conf s)"
    and room: "0 < sroom" "2 \<le> kroom"
    and connect: "client_step K now (KConnect kremote kroom entA entD) k = Some k1"
    and host: "configureAddress K (l_ip l) (v_mask (sv_vdhcp (s_conf s)))
        (v_gateway (sv_vdhcp (s_conf s))) (v_dns (sv_vdhcp (s_conf s))) (sv_mtu (s_conf s)) k1
      = (None, kt)"
  shows "\<exists>hello ask offer s1 s2 s3 k2.
    cn_sent (k_conns k1 ! length (k_conns k)) = [hello, ask] \<and>
    server_step E now (Connect sremote sroom) s = Some s1 \<and>
    server_step E now (Message (length (s_conns s)) hello) s1 = Some s2 \<and>
    server_step E now (Message (length (s_conns s)) ask) s2 = Some s3 \<and>
    cn_sent (s_conns s3 ! length (s_conns s)) = [offer] \<and>
    client_step K now (KMessage (length (k_conns k)) offer pick) k1 = Some k2 \<and>
    isReadyConn (length (k_conns k)) k2 \<and> cs_lastIP (k_session k2) = l_ip l \<and>
    cs_clientID (k_session k2) = d \<and> byIP (s_reg s3) (l_ip l) = Some (length (s_peers s)) \<and>
    p_id (peer_at s3 (length (s_peers s))) = d \<and> ownsIP (l_ip l) (peer_at s3 (length (s_peers s)))"
proof -
  obtain ask req where ask: "EncodeDiscover (ce_json K) entD now = (ask, req)" by fastforce
  from server_answers [OF srv same laws keys ask lease room(1), of sremote] obtain s1 s2 s3 pkt where
    s: "server_step E now (Connect sremote sroom) s = Some s1"
    "server_step E now (Message (length (s_conns s)) (Pack TypeAuth auth)) s1 = Some s2"
    "server_step E now (Message (length (s_conns s)) (Pack TypeVDHCP ask)) s2 = Some s3"
    "cn_sent (s_conns s3 ! length (s_conns s)) = [Pack TypeVDHCP pkt]"
    and dk: "DecodeMessage (ce_json K) pkt = Inr (offer_of (s_conf s) req (l_ip l))"
      "ValidateOffer (offer_of (s_conf s) req (l_ip l)) req = None"
    and reg: "byIP (s_reg s3) (l_ip l) = Some (length (s_peers s))"
      "p_id (peer_at s3 (length (s_peers s))) = d" "ownsIP (l_ip l) (peer_at s3 (length (s_peers s)))"
    by (elim exE conjE) (erule (8) that)
  note c = client_connects [OF keys(3) ask room(2) connect]
  have okk: "session_ok k1"
    by (rule session_ok_step [OF client_run_ok [OF cli NewVlanClient_ok] connect])
  have sess: "k_session k1 = no_session\<lparr>cs_conn := Some (length (k_conns k)), cs_clientID := d,
      cs_reqID := req, cs_remote := kremote\<rparr>" and lt: "length (k_conns k) < length (k_conns k1)"
    and sent: "cn_sent (k_conns k1 ! length (k_conns k)) = [Pack TypeAuth auth, Pack TypeVDHCP ask]"
    using c by simp_all
  have cfg: "configureAddress K (msg_ip (offer_of (s_conf s) req (l_ip l)))
      (msg_mask (offer_of (s_conf s) req (l_ip l))) (msg_gateway (offer_of (s_conf s) req (l_ip l)))
      (msg_dns (offer_of (s_conf s) req (l_ip l))) (msg_mtu (offer_of (s_conf s) req (l_ip l))) k1
      = (None, kt)"
    using host by (simp add: offer_of_def offer_message_def)
  from client_offered [OF sess lt okk dk cfg, of now pick] obtain k2 where
    "client_step K now (KMessage (length (k_conns k)) (Pack TypeVDHCP pkt) pick) k1 = Some k2"
    "isReadyConn (length (k_conns k)) k2" "cs_lastIP (k_session k2) = l_ip l"
    "cs_clientID (k_session k2) = d"
    by (auto simp: offer_of_def offer_message_def simp del: client_step.simps)
  with s sent reg show ?thesis by (intro exI conjI) assumption+
qed

text \<open>A client of the sample server on a host where every command succeeds.\<close>

definition sample_client_env :: client_env where
  "sample_client_env =
     \<lparr>ce_crypto = toy_crypto, ce_json = toy_json,
      ce_host = \<lparr>he_run = \<lambda>log argv. True, he_out = \<lambda>log argv. [], he_lookpath = \<lambda>p. True,
                 he_lookup = \<lambda>h. None\<rparr>,
      ce_tun = \<lambda>name mtu. Some 1\<rparr>"

definition sample_client_conf :: client_config where
  "sample_client_conf =
     \<lparr>cc_privateKey = sample_key_text 5, cc_server = ''10.0.0.1:9000'',
      cc_serverPublicKey = sample_server_pub, cc_ifName = ''lwyv0'', cc_proxy = False,
      cc_tcp = undefined\<rparr>"

lemma sample_configure:
  assumes "k_tun k = None" and "k_conf k = sample_client_conf"
  shows "\<exists>k'. configureAddress sample_client_env ip ''255.255.255.0'' g dns mtu k = (None, k') \<and>
    k_tun k' = Some (NewTUNTunnel 1) \<and> k_forwarding k'"
  using assms
  by (simp add: configureAddress_def initTun_def AllowTunTraffic_def configure_routes_def
      ConfigureTunAddress_def exec_err_def exec_cmd_def sample_client_env_def sample_client_conf_def
      prefix_of_sample_mask)

lemma sample_offers: "offers_ok sample_running_conf"
  by (simp add: offers_ok_def Let_def ascii_def int64_def default_addresses trim_space_visible
      visible_def)

lemma sample_connects:
  assumes "k_tun k = None" and "k_conf k = sample_client_conf"
  shows "\<exists>k1. client_step sample_client_env 1 (KConnect ''s'' 9 (replicate 16 9) (replicate 16 4)) k =
    Some k1 \<and> k_tun k1 = None \<and> k_conf k1 = sample_client_conf \<and> k_started k1 = k_started k"
  using assms by (simp add: onTCPConnect_tun onTCPConnect_conf onTCPConnect_started)

theorem client_gets_address_witness:
  "\<exists>k1 k2 offer (s3 :: server). client_step sample_client_env 1 (KConnect ''s'' 9 (replicate 16 9) (replicate 16 4))
      (NewVlanClient sample_client_conf) = Some k1 \<and>
    client_step sample_client_env 1 (KMessage 0 offer True) k1 = Some k2 \<and> isReadyConn 0 k2 \<and>
    cs_lastIP (k_session k2) = dotted 0xAC13000A \<and> byIP (s_reg s3) (dotted 0xAC13000A) = Some 0"
proof -
  let ?k = "NewVlanClient sample_client_conf"
  obtain k1 where k1: "client_step sample_client_env 1 (KConnect ''s'' 9 (replicate 16 9) (replicate 16 4))
      ?k = Some k1" "k_tun k1 = None" "k_conf k1 = sample_client_conf"
    using sample_connects [of ?k] by (auto simp: NewVlanClient_def simp del: client_step.simps)
  obtain l m where l: "Acquire 1 sample_id (s_dhcp sample_start) = (Inr l, m)" "l_ip l = dotted 0xAC13000A"
    using sample_fresh by (auto simp: sample_start_def)
  obtain kt where kt: "configureAddress sample_client_env (l_ip l) ''255.255.255.0'' ''172.19.0.254''
      [''8.8.8.8'', ''1.1.1.1''] 1300 k1 = (None, kt)"
    using sample_configure [OF k1(2,3)] by blast
  obtain p where p: "EncodeClientAuth toy_crypto (sample_key_text 5) sample_server_pub (replicate 16 9) =
     Inr (p, sample_id)" using sample_auth by (auto simp: sample_id_def)
  have e: "ce_crypto sample_client_env = toy_crypto" "ce_json sample_client_env = toy_json"
    "e_crypto sample_env = toy_crypto" "e_json sample_env = toy_json"
    "s_conf sample_start = sample_running_conf" "s_conns sample_start = []" "s_peers sample_start = []"
    "k_conf ?k = sample_client_conf" "k_conns ?k = []"
    by (simp_all add: sample_client_env_def sample_env_def sample_start_def NewVlanClient_def)
  have pub: "ecdh_pub toy_crypto (replicate 32 7) = replicate 32 7" by (simp add: toy_crypto_def)
  have "\<exists>hello ask offer s1 s2 s3 k2.
    cn_sent (k_conns k1 ! length (k_conns ?k)) = [hello, ask] \<and>
    server_step sample_env 1 (Connect ''r'' 5) sample_start = Some s1 \<and>
    server_step sample_env 1 (Message (length (s_conns sample_start)) hello) s1 = Some s2 \<and>
    server_step sample_env 1 (Message (length (s_conns sample_start)) ask) s2 = Some s3 \<and>
    cn_sent (s_conns s3 ! length (s_conns sample_start)) = [offer] \<and>
    client_step sample_client_env 1 (KMessage (length (k_conns ?k)) offer True) k1 = Some k2 \<and>
    isReadyConn (length (k_conns ?k)) k2 \<and> cs_lastIP (k_session k2) = l_ip l \<and>
    cs_clientID (k_session k2) = sample_id \<and>
    byIP (s_reg s3) (l_ip l) = Some (length (s_peers sample_start)) \<and>
    p_id (peer_at s3 (length (s_peers sample_start))) = sample_id \<and>
    ownsIP (l_ip l) (peer_at s3 (length (s_peers sample_start)))"
    by (rule client_gets_address [OF sample_NewServer server_run.start client_run.start
          _ _ _ _ _ _ _ _ l(1) _ _ _ k1(1), where auth = p])
      (use p kt pub [symmetric] sample_offers toy_laws(1,4) toy_json_ok in
        \<open>simp_all add: e sample_client_conf_def NewVlanClient_def\<close>)
  then obtain offer k2 and s3 :: server where "client_step sample_client_env 1 (KMessage 0 offer True) k1 = Some k2"
    "isReadyConn 0 k2" "cs_lastIP (k_session k2) = l_ip l" "byIP (s_reg s3) (l_ip l) = Some 0"
    unfolding e list.size(3) by (elim exE conjE) (erule (3) that)
  with k1(1) l(2) show ?thesis by (auto simp del: client_step.simps)
qed

text \<open>A client that is started, connected and ready.\<close>

lemma sample_client_fields:
  "ce_crypto sample_client_env = toy_crypto" "ce_json sample_client_env = toy_json"
  "cc_privateKey sample_client_conf = sample_key_text 5"
  "cc_serverPublicKey sample_client_conf = sample_server_pub"
  by (simp_all add: sample_client_env_def sample_client_conf_def)

lemma json_env: "e_json sample_env = toy_json" by (simp add: sample_env_def)

lemma sample_ready:
  "\<exists>k. client_run sample_client_env (NewVlanClient sample_client_conf) k \<and>
     isReadyConn 0 k \<and> k_started k \<and> k_tun k = Some (NewTUNTunnel 1) \<and> k_forwarding k \<and>
     0 < length (k_conns k) \<and> \<not> cn_closed (k_conns k ! 0) \<and> cn_room (k_conns k ! 0) = 7"
proof -
  let ?E = sample_client_env and ?c = "KConnect ''s'' 9 (replicate 16 9) (replicate 16 4)"
  define k where "k = (NewVlanClient sample_client_conf)\<lparr>k_started := True\<rparr>"
  have 0: "client_step ?E 1 KStart (NewVlanClient sample_client_conf) = Some k"
    by (simp add: client_start_def initTransport_def NewVlanClient_def k_def sample_client_conf_def
        NormalizePublicKeyHex_def PublicKeyHexFromPrivate_def tcpx_NewClient_def ParsePublicKeyHex_def
        x25519_new_def Let_def)
  have k: "k_tun k = None" "k_conf k = sample_client_conf" "k_conns k = []" "k_started k"
    by (simp_all add: k_def NewVlanClient_def)
  obtain k1 where 1: "client_step ?E 1 ?c k = Some k1" "k_tun k1 = None" "k_conf k1 = sample_client_conf"
    "k_started k1"
    using sample_connects [OF k(1,2)] k(4) by blast
  have run1: "client_run ?E (NewVlanClient sample_client_conf) k1"
    by (rule client_run.step [OF client_run.step [OF client_run.start 0] 1(1)])
  obtain p where p: "EncodeClientAuth toy_crypto (sample_key_text 5) sample_server_pub (replicate 16 9) =
     Inr (p, sample_id)" using sample_auth by (auto simp: sample_id_def)
  obtain ask req where ask: "EncodeDiscover toy_json (replicate 16 4) 1 = (ask, req)" by fastforce
  have pk: "EncodeClientAuth (ce_crypto ?E) (cc_privateKey (k_conf k)) (cc_serverPublicKey (k_conf k))
      (replicate 16 9) = Inr (p, sample_id)"
    and ask': "EncodeDiscover (ce_json ?E) (replicate 16 4) 1 = (ask, req)"
    using p ask by (simp_all only: k(2) sample_client_fields)
  have c: "k_session k1 = no_session\<lparr>cs_conn := Some 0, cs_clientID := sample_id, cs_reqID := req,
      cs_remote := ''s''\<rparr>" "0 < length (k_conns k1)" "\<not> cn_closed (k_conns k1 ! 0)"
    "cn_room (k_conns k1 ! 0) = 7"
    using client_connects [OF pk ask' _ 1(1)] k(3) by simp_all
  have ok: "session_ok k1" by (rule client_run_ok [OF run1 NewVlanClient_ok])
  obtain l :: lease where l: "l_ip l = dotted 0xAC13000A" using sample_fresh by blast
  have req: "ascii req" by (rule ascii_discover [OF ask])
  have js: "json_ok (e_json sample_env)" by (simp only: json_env toy_json_ok)
  have asc: "ascii (l_ip l)" "l_ip l \<noteq> []" by (simp_all only: l dotted_plain simp_thms)
  note o = login_offer_decodes [OF js sample_offers asc(1) req asc(2), unfolded l json_env]
  let ?o = "offer_of sample_running_conf req (dotted 0xAC13000A)"
    and ?pkt = "login_offer sample_env sample_running_conf (discover_message req) l"
  obtain kt where kt: "configureAddress ?E (dotted 0xAC13000A) ''255.255.255.0'' ''172.19.0.254''
      [''8.8.8.8'', ''1.1.1.1''] 1300 k1 = (None, kt)"
    "k_tun kt = Some (NewTUNTunnel 1)" "k_forwarding kt"
    using sample_configure [OF 1(2,3)] by blast
  have cfg: "configureAddress ?E (msg_ip ?o) (msg_mask ?o) (msg_gateway ?o) (msg_dns ?o) (msg_mtu ?o) k1
      = (None, kt)"
    using kt(1) by (simp add: offer_of_def offer_message_def)
  have dk: "DecodeMessage (ce_json ?E) ?pkt = Inr ?o" using o(1) by (simp only: sample_client_fields)
  from client_offered [OF c(1,2) ok dk o(2) cfg, of 1 True] kt(2,3) obtain k2 where
    2: "client_step ?E 1 (KMessage 0 (Pack TypeVDHCP ?pkt) True) k1 = Some k2" and r: "isReadyConn 0 k2"
      "k_conns k2 = k_conns k1" "k_tun k2 = Some (NewTUNTunnel 1)" "k_forwarding k2"
    by (auto simp del: client_step.simps)
  have "k_started k2" using 2 1(4) by (auto split: if_splits dest: onTCPMessage_started)
  with client_run.step [OF run1 2] r c(2-4) show ?thesis by auto
qed

theorem client_ready_configured_witness:
  "\<exists>k c. client_run sample_client_env (NewVlanClient sample_client_conf) k \<and>
     cs_conn (k_session k) = Some c \<and> c < length (k_conns k) \<and> k_tun k \<noteq> None"
  proof -
  obtain k where k: "client_run sample_client_env (NewVlanClient sample_client_conf) k" "cs_ready (k_session k)"
    using sample_ready by (auto simp: isReadyConn_def)
  from client_ready_configured [OF this] k(1) show ?thesis by blast
qed

theorem restarted_client_silent_witness:
  "\<exists>k s. client_run sample_client_env (client_stop sample_client_env (Some 0) k) s \<and> k_started k \<and>
     k_forwarding k \<and> \<not> k_forwarding s"
proof -
  obtain k where k: "client_run sample_client_env (NewVlanClient sample_client_conf) k"
    "k_started k" "k_tun k = Some (NewTUNTunnel 1)" "k_forwarding k" using sample_ready by blast
  from k(3) have "k_tun k \<noteq> None" by simp
  from restarted_client_silent [OF k(1,2) this client_run.start] k(2,4) client_run.start show ?thesis
    by blast
qed

theorem client_gate_witness:
  "\<exists>k s. client_run sample_client_env (NewVlanClient sample_client_conf) k \<and>
     client_step sample_client_env 2 KForward k = Some s \<and> isReadyConn 0 k \<and>
     cn_sent (k_conns s ! 0) = cn_sent (k_conns k ! 0) @ [Pack TypeIP [1, 2]]"
proof -
  let ?E = sample_client_env
  obtain k where k: "client_run ?E (NewVlanClient sample_client_conf) k"
    "isReadyConn 0 k" "k_tun k = Some (NewTUNTunnel 1)" "k_forwarding k" "0 < length (k_conns k)"
    "\<not> cn_closed (k_conns k ! 0)" "cn_room (k_conns k ! 0) = 7" using sample_ready by blast
  define k1 where "k1 = k\<lparr>k_tun := Some ((NewTUNTunnel 1)\<lparr>tt_pending := [(2, [1, 2])]\<rparr>)\<rparr>"
  define k2 where "k2 = k\<lparr>k_tun := Some ((NewTUNTunnel 1)\<lparr>tt_rq := [[1, 2]]\<rparr>)\<rparr>"
  have "client_step ?E 1 (KTunTurn (ReadTurn (Some [(2, [1, 2])]))) k = Some k1"
    by (simp add: k(3) read_turn_def NewTUNTunnel_def k1_def)
  moreover have "client_step ?E 1 (KTunTurn (PutTurn False)) k1 = Some k2"
    by (simp add: k(3) put_turn_def NewTUNTunnel_def k1_def k2_def tunPacketQueueSize_def)
  ultimately have run: "client_run ?E (NewVlanClient sample_client_conf) k2"
    using k(1) by (blast intro: client_run.step)
  obtain s where s: "client_step ?E 2 KForward k2 = Some s"
    "cn_sent (k_conns s ! 0) \<noteq> cn_sent (k_conns k2 ! 0)"
    using k(2,4-7) by (auto simp: k2_def forward_turn_def tt_receive_def tun_to_tcp_def readyConn_def
        isReadyConn_def k_write_def upd_kconn_def conn_write_def NewTUNTunnel_def)
  have "k_tun k2 = Some ((NewTUNTunnel 1)\<lparr>tt_rq := [[1, 2]]\<rparr>)" "0 < length (k_conns k2)"
    using k(5) by (simp_all add: k2_def)
  with client_gate [OF run s(1)] s run show ?thesis by fastforce
qed

end
