(* ===== verification/Mobile_Protocol.thy ===== *)
theory Mobile_Protocol
  imports App_Protocol Dhcp_Message
begin

text \<open>
  The protocol code of \<^verbatim>\<open>mobile/lwyvpn.go\<close>, which repeats that of the packages \<^verbatim>\<open>vlan\<close> and \<^verbatim>\<open>config\<close>,
  and the TUN device of \<^verbatim>\<open>mobile/android_tun.go\<close>.
\<close>

section \<open>Payloads\<close>

datatype mobile_payload = M_typeAuth | M_typeVDHCP | M_typeIP

fun mobile_type_byte :: "mobile_payload \<Rightarrow> byte" where
  "mobile_type_byte M_typeAuth = 1"
| "mobile_type_byte M_typeVDHCP = 2"
| "mobile_type_byte M_typeIP = 3"

text \<open>\<^verbatim>\<open>pack\<close> fills a slice of the full length by index and copy.\<close>

definition mobile_pack :: "mobile_payload \<Rightarrow> bytes \<Rightarrow> bytes" where
  "mobile_pack t payload =
     (let out = replicate (1 + length payload) 0; out1 = out[0 := mobile_type_byte t]
      in take 1 out1 @ payload)"

definition mobile_unpack :: "bytes \<Rightarrow> unpack_error + mobile_payload \<times> bytes" where
  "mobile_unpack b =
     (if length b < 1 then Inl EmptyPayload
      else let t = b ! 0
           in if t = mobile_type_byte M_typeAuth then Inr (M_typeAuth, drop 1 b)
              else if t = mobile_type_byte M_typeVDHCP then Inr (M_typeVDHCP, drop 1 b)
              else if t = mobile_type_byte M_typeIP then Inr (M_typeIP, drop 1 b)
              else Inl (UnknownPayload (b ! 0)))"

section \<open>Proof of identity\<close>

definition mobile_clientAuthVersion :: byte where "mobile_clientAuthVersion = 1"
definition mobile_clientAuthNonceSize :: nat where "mobile_clientAuthNonceSize = 16"

definition mobile_clientAuthMAC :: "crypto \<Rightarrow> bytes \<Rightarrow> bytes \<Rightarrow> bytes \<Rightarrow> bytes \<Rightarrow> bytes" where
  "mobile_clientAuthMAC C shared clientPub serverPub nonce =
     (let prk = hmac C shared (str_bytes ''vlan2 client auth root v2'')
      in hmac C prk (((str_bytes ''vlan2 client auth payload v2'' @ clientPub) @ serverPub) @ nonce))"

definition mobile_encodeClientAuth ::
    "crypto \<Rightarrow> string \<Rightarrow> string \<Rightarrow> bytes \<Rightarrow> auth_error + bytes \<times> string" where
  "mobile_encodeClientAuth C clientPrivateKey serverPublicKey ent =
     (case ParsePrivateKeyAny clientPrivateKey of
        Inl e \<Rightarrow> Inl (BadAuthKey e)
      | Inr clientPriv \<Rightarrow>
          (case ParsePublicKeyAny serverPublicKey of
             Inl e \<Rightarrow> Inl (BadAuthKey e)
           | Inr serverPub \<Rightarrow>
               (case ecdh C clientPriv serverPub of
                  None \<Rightarrow> Inl AuthECDH
                | Some shared \<Rightarrow>
                    let clientPubRaw = ecdh_pub C clientPriv; serverPubRaw = serverPub
                    in if length ent < mobile_clientAuthNonceSize then Inl AuthRand
                       else
                         let nonce = take mobile_clientAuthNonceSize ent;
                             mac = mobile_clientAuthMAC C shared clientPubRaw serverPubRaw nonce;
                             payload = ((([] @ [mobile_clientAuthVersion]) @ clientPubRaw) @ nonce) @ mac
                         in Inr (payload, hex_encode clientPubRaw))))"

section \<open>Keys and masks\<close>

definition mobile_GeneratePrivateKey :: "crypto \<Rightarrow> bytes \<Rightarrow> tcp_error + string" where
  "mobile_GeneratePrivateKey C ent = map_sum id fst (GenerateStaticKeyBase64 C ent)"

definition mobile_PublicKeyFromPrivate :: "crypto \<Rightarrow> string \<Rightarrow> tcp_error + string" where
  "mobile_PublicKeyFromPrivate C privateKey = PublicKeyBase64FromPrivate C privateKey"

definition mobile_NormalizePublicKeyHex :: "string \<Rightarrow> tcp_error + string" where
  "mobile_NormalizePublicKeyHex publicKey = NormalizePublicKeyHex publicKey"

definition mobile_MaskToPrefix :: "string \<Rightarrow> int option" where
  "mobile_MaskToPrefix msk =
     (case Option.bind (ParseIP (trim_space msk)) To4 of
        None \<Rightarrow> None
      | Some ip \<Rightarrow>
          (case mask_Size ip of (ones, bits) \<Rightarrow>
             if bits \<noteq> 32 \<or> int ones < 0 then None else Some (int ones)))"

section \<open>Agreement with the desktop code\<close>

fun desktop_type :: "mobile_payload \<Rightarrow> payload_type" where
  "desktop_type M_typeAuth = TypeAuth"
| "desktop_type M_typeVDHCP = TypeVDHCP"
| "desktop_type M_typeIP = TypeIP"

lemma mobile_pack_eq: "mobile_pack t p = Pack (desktop_type t) p"
  by (cases t) (simp_all add: mobile_pack_def Pack_def)

lemma mobile_unpack_eq: "Unpack b = map_sum id (map_prod desktop_type id) (mobile_unpack b)"
  by (cases b) (simp_all add: mobile_unpack_def Unpack_def)

lemma mobile_auth_eq: "mobile_encodeClientAuth C ck spk ent = EncodeClientAuth C ck spk ent"
  by (auto simp: mobile_encodeClientAuth_def EncodeClientAuth_def mobile_clientAuthMAC_def
      clientAuthMAC_def mobile_clientAuthNonceSize_def clientAuthNonceSize_def
      mobile_clientAuthVersion_def clientAuthVersion_def Let_def split: sum.split option.split)

lemma mobile_prefix_eq: "mobile_MaskToPrefix m = map_option int (MaskToPrefix (trim_space m))"
  by (auto simp: mobile_MaskToPrefix_def MaskToPrefix_def parse_v4_def split: option.splits prod.splits
      Option.bind_splits)

section \<open>The TUN device of Android\<close>

text \<open>The file is written and read whole packets at a time; whether it takes one is an argument.\<close>

record android_tun =
  at_mtu :: int
  at_closed :: bool
  at_out :: "bytes list"
  at_closes :: nat

definition newAndroidTun :: "int \<Rightarrow> android_tun" where
  "newAndroidTun m =
     \<lparr>at_mtu = (if m \<le> 0 then 1300 else m), at_closed = False, at_out = [], at_closes = 0\<rparr>"

definition at_write :: "bool \<Rightarrow> bytes \<Rightarrow> android_tun \<Rightarrow> bool \<times> android_tun" where
  "at_write ok pkt t =
     (if pkt = [] then (True, t)
      else if at_closed t \<or> \<not> ok then (False, t)
      else (True, t\<lparr>at_out := at_out t @ [pkt]\<rparr>))"

definition at_close :: "android_tun \<Rightarrow> android_tun" where
  "at_close t = (if at_closed t then t else t\<lparr>at_closed := True, at_closes := at_closes t + 1\<rparr>)"

text \<open>
  One turn of \<^verbatim>\<open>readLoop\<close>: what the file gives, as the size and the content of the buffer, or an
  error. The loop ends, gives an error to the program and goes on after a pause, goes on, or gives
  a packet to the program.
\<close>

datatype read_result = Loop_ends | Read_failed | No_packet | Packet bytes

definition at_bufSize :: "android_tun \<Rightarrow> int" where
  "at_bufSize t = (if at_mtu t + 512 < 2048 then 2048 else at_mtu t + 512)"

definition at_read_turn :: "bool \<Rightarrow> (int \<times> bytes) option \<Rightarrow> android_tun \<Rightarrow> read_result" where
  "at_read_turn ctx_done answer t =
     (if ctx_done then Loop_ends
      else (case answer of
          None \<Rightarrow> if at_closed t then Loop_ends else Read_failed
        | Some (n, buf) \<Rightarrow> if n \<le> 0 then No_packet else Packet (take (nat n) buf)))"

section \<open>Properties\<close>

text \<open>
  C33: The mobile client speaks the protocol of the desktop program. Its own copies of the packing and
  unpacking of payloads, of the proof of identity and of the conversion of masks compute what the
  functions of the packages \<^verbatim>\<open>vlan\<close> and \<^verbatim>\<open>config\<close> compute, on every input and with the same errors;
  only white space around a mask, which the copy ignores, makes a difference.
\<close>

theorem mobile_protocol_agrees:
  "mobile_pack t p = Pack (desktop_type t) p \<and>
   Unpack b = map_sum id (map_prod desktop_type id) (mobile_unpack b) \<and>
   mobile_encodeClientAuth C ck spk ent = EncodeClientAuth C ck spk ent \<and>
   mobile_MaskToPrefix m = map_option int (MaskToPrefix (trim_space m))"
  by (simp add: mobile_pack_eq mobile_unpack_eq mobile_auth_eq mobile_prefix_eq)

end
