(* ===== verification/Transport_User.thy ===== *)
theory Transport_User
  imports Reconnect
begin

text \<open>
  What the reconnecting client of \<^verbatim>\<open>tcpx/client.go\<close> needs of the program that it calls back, as a
  locale. Inside it every run of the transport can be followed by the program, whatever the
  application does in between. The desktop client and the mobile client both offer it.
\<close>

section \<open>The link\<close>

text \<open>
  What a program knows of the connection that the transport keeps for it: none; made but not yet
  announced; announced; or lost and not yet reported.
\<close>

datatype link = Down | Opened nat | Up nat | Lost

text \<open>The connection that the transport's \<^verbatim>\<open>Write\<close> finds.\<close>

definition link_conn :: "link \<Rightarrow> nat option" where
  "link_conn l = (case l of Opened c \<Rightarrow> Some c | Up c \<Rightarrow> Some c | _ \<Rightarrow> None)"

text \<open>What the network and the random source add to a callback.\<close>

record call_data =
  cd_remote :: string
  cd_room :: nat
  cd_auth :: bytes
  cd_discover :: bytes
  cd_write :: bool

definition sample_call :: call_data where
  "sample_call = \<lparr>cd_remote = ''h'', cd_room = 9, cd_auth = replicate 16 9, cd_discover = replicate 16 4,
     cd_write = True\<rparr>"

section \<open>What the transport needs of the program\<close>

text \<open>
  What a program called back by the transport does: when its connection is there, in \<^verbatim>\<open>OnConnect\<close>,
  in \<^verbatim>\<open>OnMessage\<close>, when reading the connection has failed, and in \<^verbatim>\<open>OnDisconnect\<close>; and what the
  application does by itself. \<open>None\<close>: the program's model has no such step.
\<close>

record ('s, 'd, 'a) user_ops =
  u_opened :: "'d \<Rightarrow> 's \<Rightarrow> 's option"
  u_connected :: "'d \<Rightarrow> 's \<Rightarrow> 's option"
  u_received :: "'d \<Rightarrow> bytes \<Rightarrow> 's \<Rightarrow> 's option"
  u_dropped :: "'s \<Rightarrow> 's option"
  u_ended :: "'s \<Rightarrow> 's option"
  u_app :: "'a \<Rightarrow> 's \<Rightarrow> 's option"

text \<open>
  What a step of the transport does to the program: the connection is there when the handshake has
  ended well, and the callbacks are those of \<^verbatim>\<open>connectAndServe\<close> and \<^verbatim>\<open>Run\<close>.
\<close>

definition feed :: "('s, 'd, 'a) user_ops \<Rightarrow> 'd \<Rightarrow> tc_event \<Rightarrow> tclient \<Rightarrow> 's \<Rightarrow> 's option" where
  "feed U d ev t s =
     (case (ev, tc_phase t) of
        (TShake None, Shaking c) \<Rightarrow> u_opened U d s
      | (TTurn, Announcing c) \<Rightarrow> u_connected U d s
      | (TRead (Inr m), Serving c) \<Rightarrow> u_received U d m s
      | (TRead (Inl e), Serving c) \<Rightarrow> u_dropped U s
      | (TTurn, Notifying e) \<Rightarrow> u_ended U s
      | _ \<Rightarrow> Some s)"

text \<open>Both together: a step of the transport with what it does to the program, or a step of the application.\<close>

fun joint :: "('s, 'd, 'a) user_ops \<Rightarrow> (tc_event \<times> 'd + 'a) list \<Rightarrow> tclient \<Rightarrow> 's \<Rightarrow> (tclient \<times> 's) option" where
  "joint U [] t s = Some (t, s)"
| "joint U (Inl (ev, d) # xs) t s =
     (case tc_step ev t of
        None \<Rightarrow> None
      | Some t' \<Rightarrow> (case feed U d ev t s of None \<Rightarrow> None | Some s' \<Rightarrow> joint U xs t' s'))"
| "joint U (Inr a # xs) t s =
     joint U xs t (case u_app U a s of None \<Rightarrow> s | Some s' \<Rightarrow> s')"

fun transport_events :: "(tc_event \<times> 'd + 'a) list \<Rightarrow> tc_event list" where
  "transport_events [] = []"
| "transport_events (Inl (ev, d) # xs) = ev # transport_events xs"
| "transport_events (Inr a # xs) = transport_events xs"


definition agrees :: "phase \<Rightarrow> link \<Rightarrow> bool" where
  "agrees p l \<longleftrightarrow>
     (case p of
        Announcing c \<Rightarrow> (\<exists>k. l = Opened k) | Serving c \<Rightarrow> (\<exists>k. l = Up k)
      | Failed e \<Rightarrow> l = Down \<or> l = Lost | Notifying e \<Rightarrow> l = Down \<or> l = Lost
      | Idle \<Rightarrow> False | _ \<Rightarrow> l = Down)"

text \<open>A run of the transport that \<^verbatim>\<open>Stop\<close> does not end: no \<^verbatim>\<open>Run\<close>, \<^verbatim>\<open>Close\<close> or end of the context.\<close>

fun within :: "tc_event \<Rightarrow> bool" where
  "within (TRun b) \<longleftrightarrow> False"
| "within TClose \<longleftrightarrow> False"
| "within TCancel \<longleftrightarrow> False"
| "within ev \<longleftrightarrow> True"

lemma within_step:
  assumes "within ev" and "tc_step ev t = Some t'" and "\<not> tc_closed t" "\<not> tc_cancel t"
  shows "\<not> tc_closed t' \<and> \<not> tc_cancel t'"
  using assms
  by (cases ev) (auto simp: tc_defs split: phase.splits if_splits option.splits sum.splits)

text \<open>
  \<open>alive\<close>: the program has a transport that is running; \<open>linked\<close>: what the program knows of its
  connection.
\<close>

locale transport_user =
  fixes U :: "('s, 'd, 'a) user_ops"
    and alive :: "'s \<Rightarrow> bool"
    and linked :: "'s \<Rightarrow> link"
  assumes opened_law: "\<lbrakk>alive s; linked s = Down\<rbrakk> \<Longrightarrow>
      \<exists>s' c. u_opened U d s = Some s' \<and> alive s' \<and> linked s' = Opened c"
    and connected_law: "\<lbrakk>alive s; linked s = Opened c\<rbrakk> \<Longrightarrow>
      \<exists>s'. u_connected U d s = Some s' \<and> alive s' \<and> linked s' = Up c"
    and received_law: "\<lbrakk>alive s; linked s = Up c\<rbrakk> \<Longrightarrow>
      \<exists>s'. u_received U d m s = Some s' \<and> alive s' \<and> linked s' = Up c"
    and dropped_law: "\<lbrakk>alive s; linked s = Up c\<rbrakk> \<Longrightarrow>
      \<exists>s'. u_dropped U s = Some s' \<and> alive s' \<and> linked s' = Lost"
    and ended_law: "\<lbrakk>alive s; linked s = Down \<or> linked s = Lost\<rbrakk> \<Longrightarrow>
      \<exists>s'. u_ended U s = Some s' \<and> alive s' \<and> linked s' = Down"
    and app_law: "\<lbrakk>alive s; u_app U a s = Some s'\<rbrakk> \<Longrightarrow> alive s' \<and> linked s' = linked s"
begin

definition in_step :: "tclient \<Rightarrow> 's \<Rightarrow> bool" where
  "in_step t s \<longleftrightarrow> alive s \<and> tc_inv t \<and> \<not> tc_closed t \<and> \<not> tc_cancel t \<and> agrees (tc_phase t) (linked s)"

lemma feed_phase:
  assumes "alive s" and "agrees (tc_phase t) (linked s)" and "within ev" and "tc_step ev t = Some t'"
    and "\<not> tc_closed t" "\<not> tc_cancel t"
  shows "\<exists>s'. feed U d ev t s = Some s' \<and> alive s' \<and> agrees (tc_phase t') (linked s')"
proof (cases ev)
  case TTurn
  show ?thesis
  proof (cases "tc_phase t")
    case (Announcing c)
    with assms(2) obtain k where "linked s = Opened k" by (auto simp: agrees_def)
    from connected_law [OF assms(1) this, of d] TTurn Announcing assms(4) show ?thesis
      by (auto simp: feed_def agrees_def tc_defs)
  next
    case (Notifying e)
    with assms(2) have "linked s = Down \<or> linked s = Lost" by (simp add: agrees_def)
    from ended_law [OF assms(1) this] TTurn Notifying assms(4) show ?thesis
      by (auto simp: feed_def agrees_def tc_defs)
  qed (use TTurn assms in \<open>auto simp: feed_def agrees_def tc_defs\<close>)
next
  case (TShake r)
  with assms(4) obtain c where c: "tc_phase t = Shaking c" by (auto split: phase.splits)
  show ?thesis
  proof (cases r)
    case None
    from c assms(2) have "linked s = Down" by (simp add: agrees_def)
    from opened_law [OF assms(1) this, of d] None TShake c assms(4,5) show ?thesis
      by (auto simp: feed_def agrees_def tc_defs)
  qed (use c TShake assms in \<open>auto simp: feed_def agrees_def tc_defs\<close>)
next
  case (TRead r)
  with assms(4) obtain c where c: "tc_phase t = Serving c" by (auto split: phase.splits)
  with assms(2) obtain k where k: "linked s = Up k" by (auto simp: agrees_def)
  show ?thesis
  proof (cases r)
    case (Inl e)
    from dropped_law [OF assms(1) k] Inl TRead c assms(4) show ?thesis
      by (auto simp: feed_def agrees_def tc_defs)
  next
    case (Inr m)
    from received_law [OF assms(1) k, of d m] Inr TRead c assms(4) show ?thesis
      by (auto simp: feed_def agrees_def tc_defs)
  qed
qed (use assms in \<open>auto simp: feed_def agrees_def tc_defs split: if_splits option.splits\<close>)

lemma feed_in_step:
  assumes "in_step t s" and "within ev" and "tc_step ev t = Some t'"
  shows "\<exists>s'. feed U d ev t s = Some s' \<and> in_step t' s'"
proof -
  from assms(1) have i: "alive s" "tc_inv t" "\<not> tc_closed t" "\<not> tc_cancel t" "agrees (tc_phase t) (linked s)"
    by (simp_all add: in_step_def)
  have "tc_inv t'"
    using open_ok_step conn_ok_step calls_ok_step i(2) assms(3) unfolding tc_inv_def by blast
  with feed_phase [OF i(1,5) assms(2,3) i(3,4), of d] within_step [OF assms(2,3) i(3,4)] show ?thesis
    by (auto simp: in_step_def)
qed

theorem joint_follows:
  "in_step t s \<Longrightarrow> list_all within (transport_events xs) \<Longrightarrow> tc_steps (transport_events xs) t = Some t' \<Longrightarrow>
   \<exists>s'. joint U xs t s = Some (t', s') \<and> in_step t' s'"
proof (induction xs arbitrary: t s)
  case (Cons x xs)
  show ?case
  proof (cases x)
    case (Inl y)
    obtain ev d where y: "y = (ev, d)" by fastforce
    with Inl Cons.prems obtain t1 where t1: "tc_step ev t = Some t1" "within ev"
      "tc_steps (transport_events xs) t1 = Some t'" by (auto split: option.splits simp del: tc_step.simps)
    from feed_in_step [OF Cons.prems(1) t1(2,1), of d] obtain s1 where
      "feed U d ev t s = Some s1" "in_step t1 s1" by blast
    with Cons.IH [of t1 s1] Cons.prems(2) Inl y t1 show ?thesis by (simp del: tc_step.simps)
  next
    case (Inr a)
    have "in_step t (case u_app U a s of None \<Rightarrow> s | Some s' \<Rightarrow> s')"
      using Cons.prems(1) app_law [of s a] by (auto simp: in_step_def split: option.split)
    with Cons.IH Cons.prems(2,3) Inr show ?thesis by simp
  qed
qed simp

lemma write_found: "in_step t s \<Longrightarrow> (\<exists>c. tc_write t = Inr c) \<longleftrightarrow> link_conn (linked s) \<noteq> None"
  by (cases "tc_phase t")
    (auto simp: in_step_def agrees_def tc_write_def tc_inv_def conn_ok_def link_conn_def)

end

end
