(* ===== verification/Mobile_Client.thy ===== *)
theory Mobile_Client
  imports Mobile_Protocol Peers Transport_User
begin

text \<open>
  The client of \<^verbatim>\<open>mobile/lwyvpn.go\<close>: what the application calls, and the callbacks of the transport.
  Connections are indices into the list of all connections made. The link is what the transport's
  own client is doing (\<^verbatim>\<open>tcpx/client.go\<close>, modelled apart): it sets the connection that its \<^verbatim>\<open>Write\<close>
  finds before it calls \<^verbatim>\<open>OnConnect\<close>, and drops it before it calls \<^verbatim>\<open>OnDisconnect\<close>.
\<close>

section \<open>State\<close>

datatype mobile_error =
    ServerEmpty | ServerKeyEmpty | NoListener | NoProtector | KeyFailed tcp_error
  | AlreadyStarted | NotStarted | BadFd int | ClientNil | WriteFailed

datatype listener_call =
    OnState string
  | OnAuthError auth_error | OnSendError | OnDisconnected | OnUnpackError unpack_error
  | OnUnexpectedAuth | OnDecodeError vdhcp_error | OnNak string | OnOfferError vdhcp_error
  | OnTunWriteError | OnTunReadError | OnRunError
  | OnAddress string string string int string
  | OnTraffic "64 word" "64 word"

text \<open>
  \<open>mo_client\<close>: \<^verbatim>\<open>tcpxClient\<close> is set; \<open>mo_link\<close> is the link of that client; \<open>mo_old\<close> counts earlier
  runs that \<^verbatim>\<open>Stop\<close> has cancelled but that have not returned yet; \<open>mo_retired\<close>: the devices the client
  has let go; \<open>mo_calls\<close>: what the listener was told.
\<close>

record mobile =
  mo_ctx :: bool
  mo_client :: bool
  mo_tun :: "android_tun option"
  mo_retired :: "android_tun list"
  mo_listener :: bool
  mo_server :: string
  mo_serverPublicKey :: string
  mo_privateKey :: string
  mo_publicKey :: string
  mo_mtu :: int
  mo_reqID :: string
  mo_ip :: string
  mo_mask :: string
  mo_gateway :: string
  mo_dns :: string
  mo_started :: bool
  mo_ready :: bool
  mo_up :: "64 word"
  mo_down :: "64 word"
  mo_link :: link
  mo_old :: nat
  mo_conns :: "conn_st list"
  mo_calls :: "listener_call list"

record mobile_env =
  me_crypto :: crypto
  me_json :: json_codec

definition mobile_NewClient :: mobile where
  "mobile_NewClient =
     \<lparr>mo_ctx = False, mo_client = False, mo_tun = None, mo_retired = [], mo_listener = False, mo_server = [],
      mo_serverPublicKey = [], mo_privateKey = [], mo_publicKey = [], mo_mtu = 0, mo_reqID = [],
      mo_ip = [], mo_mask = [], mo_gateway = [], mo_dns = [], mo_started = False, mo_ready = False,
      mo_up = 0, mo_down = 0, mo_link = Down, mo_old = 0, mo_conns = [], mo_calls = []\<rparr>"

definition tell :: "listener_call \<Rightarrow> mobile \<Rightarrow> mobile" where
  "tell x s = (if mo_listener s then s\<lparr>mo_calls := mo_calls s @ [x]\<rparr> else s)"

definition emitState :: "string \<Rightarrow> mobile \<Rightarrow> mobile" where
  "emitState st s = tell (OnState st) s"

definition m_conn :: "nat \<Rightarrow> (conn_st \<Rightarrow> conn_st) \<Rightarrow> mobile \<Rightarrow> mobile" where
  "m_conn c f s = s\<lparr>mo_conns := (mo_conns s)[c := f (mo_conns s ! c)]\<rparr>"

definition m_close :: "nat \<Rightarrow> mobile \<Rightarrow> mobile" where
  "m_close c s = m_conn c conn_close s"

definition m_write :: "nat \<Rightarrow> bytes \<Rightarrow> mobile \<Rightarrow> bool \<times> mobile" where
  "m_write c payload s =
     (fst (conn_write payload (mo_conns s ! c)), m_conn c (\<lambda>cn. snd (conn_write payload cn)) s)"

section \<open>Calls of the application\<close>

text \<open>Closing a device that is no longer the client's.\<close>

definition retire :: "android_tun option \<Rightarrow> mobile \<Rightarrow> mobile" where
  "retire old s =
     (case old of None \<Rightarrow> s | Some t \<Rightarrow> s\<lparr>mo_retired := mo_retired s @ [at_close t]\<rparr>)"

text \<open>\<^verbatim>\<open>Stop\<close>; its run goes on until the transport notices.\<close>

definition mobile_Stop :: "mobile \<Rightarrow> mobile" where
  "mobile_Stop s =
     (if \<not> mo_started s then s
      else
        let s1 = s\<lparr>mo_started := False, mo_ready := False, mo_ctx := False, mo_client := False,
                   mo_tun := None, mo_reqID := [], mo_dns := [], mo_link := Down,
                   mo_old := (if mo_client s then mo_old s + 1 else mo_old s)\<rparr>;
            s2 = (if mo_client s
                  then (case link_conn (mo_link s) of Some c \<Rightarrow> m_close c s1 | None \<Rightarrow> s1) else s1)
        in emitState ''stopped'' (retire (mo_tun s) s2))"

text \<open>The fields \<^verbatim>\<open>Start\<close> sets under its lock.\<close>

definition start_fields :: "string \<Rightarrow> string \<Rightarrow> string \<Rightarrow> string \<Rightarrow> int \<Rightarrow> mobile \<Rightarrow> mobile" where
  "start_fields server spk priv pub m s =
     s\<lparr>mo_started := True, mo_ctx := True, mo_listener := True, mo_server := server,
       mo_serverPublicKey := spk, mo_privateKey := priv, mo_publicKey := pub, mo_mtu := m,
       mo_reqID := [], mo_ip := [], mo_mask := [], mo_gateway := [], mo_dns := [],
       mo_client := False, mo_tun := None, mo_up := 0, mo_down := 0, mo_ready := False\<rparr>"

text \<open>The timings of the transport, and what \<^verbatim>\<open>setDefaults\<close> adds to them.\<close>

definition mobile_transport :: tclient_config where
  "mobile_transport =
     \<lparr>tcf_base = \<lparr>magic = 0, version = 0, readTimeout = 45 * second, writeTimeout = 10 * second,
        maxPayload = push_bit 20 4, heartbeatBase = 15 * second, heartbeatJitter = 5 * second,
        keyRotateInterval = 600 * second, oldKeyGrace = 120 * second, replaySize = 64\<rparr>,
      tcf_reconnectBase = second, tcf_reconnectJitter = 3 * second\<rparr>"

text \<open>
  \<^verbatim>\<open>dialContext\<close>: the dialer makes a socket for each address of the server, calls \<^verbatim>\<open>Control\<close> with it
  before it connects, and takes the first that connects. \<open>fds\<close>: the sockets and whether they connect.
\<close>

definition dial_control :: "(int \<Rightarrow> bool) option \<Rightarrow> int \<Rightarrow> bool" where
  "dial_control protector fd \<longleftrightarrow> (case protector of None \<Rightarrow> True | Some protect \<Rightarrow> protect fd)"

fun dialContext :: "(int \<Rightarrow> bool) option \<Rightarrow> (int \<times> bool) list \<Rightarrow> tcp_error + int" where
  "dialContext protector [] = Inl ErrDial"
| "dialContext protector ((fd, connects) # fds) =
     (if dial_control protector fd \<and> connects then Inr fd else dialContext protector fds)"

text \<open>No connection of the client goes into its own tunnel.\<close>

lemma dialed_protected: "dialContext (Some protect) fds = Inr fd \<Longrightarrow> protect fd \<and> (fd, True) \<in> set fds"
  by (induction fds) (auto simp: dial_control_def split: if_splits)

definition mobile_Start ::
    "mobile_env \<Rightarrow> bytes \<Rightarrow> string \<Rightarrow> string \<Rightarrow> string \<Rightarrow> int \<Rightarrow> bool \<Rightarrow> bool \<Rightarrow> mobile \<Rightarrow>
     mobile_error option \<times> mobile" where
  "mobile_Start E ent server spk priv m listener protector s =
     (let server1 = trim_space server; spk1 = trim_space spk; priv1 = trim_space priv;
          m1 = (if m \<le> 0 then 1300 else m)
      in if server1 = [] then (Some ServerEmpty, s)
         else if spk1 = [] then (Some ServerKeyEmpty, s)
         else if \<not> listener then (Some NoListener, s)
         else if \<not> protector then (Some NoProtector, s)
         else (case (if priv1 = [] then mobile_GeneratePrivateKey (me_crypto E) ent else Inr priv1) of
             Inl e \<Rightarrow> (Some (KeyFailed e), s)
           | Inr priv2 \<Rightarrow>
               (case mobile_PublicKeyFromPrivate (me_crypto E) priv2 of
                  Inl e \<Rightarrow> (Some (KeyFailed e), s)
                | Inr pub \<Rightarrow>
                    (case NormalizePublicKeyHex spk1 of
                       Inl e \<Rightarrow> (Some (KeyFailed e), s)
                     | Inr spkHex \<Rightarrow>
                         if mo_started s then (Some AlreadyStarted, s)
                         else
                           let s1 = emitState ''starting'' (start_fields server1 spk1 priv2 pub m1 s)
                           in (case tcpx_NewClient mobile_transport spkHex of
                                 Inl e \<Rightarrow> (Some (KeyFailed e), mobile_Stop s1)
                               | Inr _ \<Rightarrow> (None, s1\<lparr>mo_client := True, mo_link := Down\<rparr>))))))"

text \<open>\<^verbatim>\<open>AttachTun\<close>; the loop that it starts gives the packets of the device.\<close>

definition mobile_AttachTun :: "int \<Rightarrow> int \<Rightarrow> mobile \<Rightarrow> mobile_error option \<times> mobile" where
  "mobile_AttachTun fd m s =
     (if fd < 0 then (Some (BadFd fd), s)
      else
        let m1 = (if m \<le> 0 then if mo_mtu s \<le> 0 then 1300 else mo_mtu s else m)
        in if \<not> mo_started s \<or> \<not> mo_ctx s then (Some NotStarted, s)
           else (None, emitState ''ready''
                   (retire (mo_tun s) (s\<lparr>mo_tun := Some (newAndroidTun m1), mo_mtu := m1\<rparr>))))"

definition mobile_SendIP :: "bytes \<Rightarrow> mobile \<Rightarrow> mobile_error option \<times> mobile" where
  "mobile_SendIP pkt s =
     (if pkt = [] then (None, s)
      else if \<not> mo_ready s then (None, s)
      else if \<not> mo_client s then (Some ClientNil, s)
      else (case link_conn (mo_link s) of
          None \<Rightarrow> (Some WriteFailed, s)
        | Some c \<Rightarrow>
            (case m_write c (mobile_pack M_typeIP pkt) s of
               (False, s1) \<Rightarrow> (Some WriteFailed, s1)
             | (True, s1) \<Rightarrow> (None, s1\<lparr>mo_up := mo_up s1 + of_nat (length pkt)\<rparr>))))"

text \<open>What the loop of the device does with a packet.\<close>

definition mobile_tun_packet :: "bytes \<Rightarrow> mobile \<Rightarrow> mobile" where
  "mobile_tun_packet pkt s =
     (case mobile_SendIP pkt s of
        (Some e, s1) \<Rightarrow> if mo_ready s1 then tell OnSendError s1 else s1
      | (None, s1) \<Rightarrow> s1)"

section \<open>Callbacks of the transport\<close>

definition mobile_onConnect ::
    "mobile_env \<Rightarrow> bytes \<Rightarrow> bytes \<Rightarrow> int \<Rightarrow> nat \<Rightarrow> mobile \<Rightarrow> mobile" where
  "mobile_onConnect E entA entD now c s =
     (let s1 = emitState ''authenticating'' (emitState ''connected'' (s\<lparr>mo_ready := False\<rparr>))
      in case mobile_encodeClientAuth (me_crypto E) (mo_privateKey s1) (mo_serverPublicKey s1) entA of
           Inl e \<Rightarrow> m_close c (tell (OnAuthError e) s1)
         | Inr (auth, _) \<Rightarrow>
             (case m_write c (mobile_pack M_typeAuth auth) s1 of
                (False, s2) \<Rightarrow> m_close c (tell OnSendError s2)
              | (True, s2) \<Rightarrow>
                  (case EncodeDiscover (me_json E) entD now of (discover, reqID) \<Rightarrow>
                     let s3 = (emitState ''requesting_address'' s2)\<lparr>mo_reqID := reqID\<rparr>
                     in case m_write c (mobile_pack M_typeVDHCP discover) s3 of
                          (False, s4) \<Rightarrow> m_close c (tell OnSendError s4)
                        | (True, s4) \<Rightarrow> s4)))"

definition mobile_onDisconnect :: "mobile \<Rightarrow> mobile" where
  "mobile_onDisconnect s =
     emitState ''disconnected'' ((tell OnDisconnected (s\<lparr>mo_ready := False\<rparr>))\<lparr>mo_reqID := []\<rparr>)"

fun join_comma :: "string list \<Rightarrow> string" where
  "join_comma [] = []"
| "join_comma [x] = x"
| "join_comma (x # xs) = x @ '','' @ join_comma xs"

definition mobile_handleVDHCP :: "mobile_env \<Rightarrow> nat \<Rightarrow> bytes \<Rightarrow> mobile \<Rightarrow> mobile" where
  "mobile_handleVDHCP E c payload s =
     (case DecodeMessage (me_json E) payload of
        Inl e \<Rightarrow> m_close c (tell (OnDecodeError e) s)
      | Inr msg \<Rightarrow>
          if msg_type msg = MessageTypeNak then m_close c (tell (OnNak (msg_reason msg)) s)
          else (case ValidateOffer msg (mo_reqID s) of
              Some e \<Rightarrow> m_close c (tell (OnOfferError e) s)
            | None \<Rightarrow>
                let s1 = s\<lparr>mo_ip := msg_ip msg, mo_mask := msg_mask msg, mo_gateway := msg_gateway msg,
                           mo_dns := join_comma (msg_dns msg), mo_mtu := msg_mtu msg, mo_reqID := [],
                           mo_ready := True\<rparr>
                in tell (OnAddress (msg_ip msg) (msg_mask msg) (msg_gateway msg) (mo_mtu s1) (mo_dns s1)) s1))"

definition mobile_handleIP :: "bool \<Rightarrow> bytes \<Rightarrow> mobile \<Rightarrow> mobile" where
  "mobile_handleIP ok pkt s =
     (if pkt = [] then s
      else (case mo_tun s of
          None \<Rightarrow> s
        | Some t \<Rightarrow>
            (case at_write ok pkt t of
               (False, t1) \<Rightarrow> tell OnTunWriteError (s\<lparr>mo_tun := Some t1\<rparr>)
             | (True, t1) \<Rightarrow>
                 s\<lparr>mo_tun := Some t1, mo_down := mo_down s + of_nat (length pkt)\<rparr>)))"

definition mobile_onMessage :: "mobile_env \<Rightarrow> bool \<Rightarrow> nat \<Rightarrow> bytes \<Rightarrow> mobile \<Rightarrow> mobile" where
  "mobile_onMessage E ok c raw s =
     (case mobile_unpack raw of
        Inl e \<Rightarrow> m_close c (tell (OnUnpackError e) s)
      | Inr (M_typeVDHCP, payload) \<Rightarrow> mobile_handleVDHCP E c payload s
      | Inr (M_typeIP, payload) \<Rightarrow> mobile_handleIP ok payload s
      | Inr (M_typeAuth, payload) \<Rightarrow> m_close c (tell OnUnexpectedAuth s))"

text \<open>A tick of \<^verbatim>\<open>trafficLoop\<close>, and the end of the goroutine of a run.\<close>

definition traffic_tick :: "mobile \<Rightarrow> mobile" where
  "traffic_tick s = tell (OnTraffic (mo_up s) (mo_down s)) s"

definition run_end :: "bool \<Rightarrow> mobile \<Rightarrow> mobile" where
  "run_end failed s =
     emitState ''stopped'' ((if failed then tell OnRunError s else s)\<lparr>mo_ready := False\<rparr>)"

section \<open>Steps\<close>

datatype mobile_event =
    MStart bytes string string string int bool bool
  | MStop
  | MAttach int int
  | MConnecting
  | MOpened string nat
  | MConnect bytes bytes
  | MMessage bytes bool
  | MLost
  | MDisconnect
  | MTunPacket bytes
  | MTick
  | MOldRunEnds

text \<open>
  \<open>MConnecting\<close> is the first state the goroutine of a run reports; \<open>MOldRunEnds\<close> is the end of a run
  that \<^verbatim>\<open>Stop\<close> has cancelled: \<^verbatim>\<open>Stop\<close> does not wait for it. Callbacks that were already due when \<^verbatim>\<open>Stop\<close>
  was called are left out.
\<close>

fun mobile_step :: "mobile_env \<Rightarrow> int \<Rightarrow> mobile_event \<Rightarrow> mobile \<Rightarrow> mobile option" where
  "mobile_step E now (MStart ent server spk priv m l p) s =
     Some (snd (mobile_Start E ent server spk priv m l p s))"
| "mobile_step E now MStop s = Some (mobile_Stop s)"
| "mobile_step E now (MAttach fd m) s = Some (snd (mobile_AttachTun fd m s))"
| "mobile_step E now MConnecting s = (if mo_client s then Some (emitState ''connecting'' s) else None)"
| "mobile_step E now (MOpened remote room) s =
     (if mo_client s \<and> mo_link s = Down
      then Some (s\<lparr>mo_link := Opened (length (mo_conns s)),
                   mo_conns := mo_conns s @ [\<lparr>cn_remote = remote, cn_closed = False, cn_room = room,
                                              cn_sent = []\<rparr>]\<rparr>)
      else None)"
| "mobile_step E now (MConnect entA entD) s =
     (case mo_link s of
        Opened c \<Rightarrow> Some (mobile_onConnect E entA entD now c (s\<lparr>mo_link := Up c\<rparr>))
      | _ \<Rightarrow> None)"
| "mobile_step E now (MMessage raw ok) s =
     (case mo_link s of Up c \<Rightarrow> Some (mobile_onMessage E ok c raw s) | _ \<Rightarrow> None)"
| "mobile_step E now MLost s =
     (case mo_link s of Up c \<Rightarrow> Some (m_close c (s\<lparr>mo_link := Lost\<rparr>)) | _ \<Rightarrow> None)"
| "mobile_step E now MDisconnect s =
     (if mo_link s = Lost \<or> mo_client s \<and> mo_link s = Down
      then Some (mobile_onDisconnect (s\<lparr>mo_link := Down\<rparr>)) else None)"
| "mobile_step E now (MTunPacket pkt) s = Some (mobile_tun_packet pkt s)"
| "mobile_step E now MTick s = (if mo_ctx s then Some (traffic_tick s) else None)"
| "mobile_step E now MOldRunEnds s =
     (if 0 < mo_old s then Some (run_end False (s\<lparr>mo_old := mo_old s - 1\<rparr>)) else None)"

inductive mobile_run :: "mobile_env \<Rightarrow> mobile \<Rightarrow> mobile \<Rightarrow> bool" for E s where
  start: "mobile_run E s s"
| step: "\<lbrakk>mobile_run E s s1; mobile_step E now ev s1 = Some s2\<rbrakk> \<Longrightarrow> mobile_run E s s2"

end
