(* ===== verification/Mobile_Safety.thy ===== *)
theory Mobile_Safety
  imports Mobile_Client
begin

text \<open>
  What holds in every state that the mobile client can reach: what it has sent on its connections,
  when it is ready, and what became of its devices.
\<close>

section \<open>The invariant\<close>

text \<open>
  What a connection carries: nothing, the proof of identity, or the proof, the request for an
  address and then packets.
\<close>

definition sent_form :: "bytes list \<Rightarrow> bool" where
  "sent_form l \<longleftrightarrow>
     l = [] \<or> (\<exists>a. l = [Pack TypeAuth a]) \<or>
     (\<exists>a d pkts. l = [Pack TypeAuth a, Pack TypeVDHCP d] @ map (Pack TypeIP) pkts)"

definition joined :: "bytes list \<Rightarrow> bool" where
  "joined l \<longleftrightarrow> (\<exists>a d pkts. l = [Pack TypeAuth a, Pack TypeVDHCP d] @ map (Pack TypeIP) pkts)"

lemma joined_sent_form: "joined l \<Longrightarrow> sent_form l"
  by (simp add: joined_def sent_form_def)

lemma joined_packet: "joined l \<Longrightarrow> joined (l @ [Pack TypeIP p])"
proof -
  assume "joined l"
  then obtain a d pkts where "l = [Pack TypeAuth a, Pack TypeVDHCP d] @ map (Pack TypeIP) pkts"
    by (auto simp: joined_def)
  then have "l @ [Pack TypeIP p] = [Pack TypeAuth a, Pack TypeVDHCP d] @ map (Pack TypeIP) (pkts @ [p])"
    by simp
  then show ?thesis unfolding joined_def by blast
qed

definition link_ok :: "mobile \<Rightarrow> bool" where
  "link_ok s \<longleftrightarrow>
     (case mo_link s of
        Opened c \<Rightarrow> c < length (mo_conns s) \<and> cn_sent (mo_conns s ! c) = []
      | Up c \<Rightarrow> c < length (mo_conns s) \<and> (cn_closed (mo_conns s ! c) \<or> joined (cn_sent (mo_conns s ! c)))
      | _ \<Rightarrow> True) \<and>
     (\<forall>cn\<in>set (mo_conns s). sent_form (cn_sent cn))"

definition ready_ok :: "mobile \<Rightarrow> bool" where
  "ready_ok s \<longleftrightarrow>
     (mo_client s \<longrightarrow> mo_started s) \<and> (mo_link s \<noteq> Down \<longrightarrow> mo_client s) \<and>
     (mo_ready s \<longrightarrow> ((\<exists>c. mo_link s = Up c) \<or> mo_link s = Lost) \<and>
        (\<exists>msg req. ValidateOffer msg req = None \<and> mo_ip s = msg_ip msg \<and> mo_mask s = msg_mask msg \<and>
           mo_gateway s = msg_gateway msg))"

definition tuns_ok :: "mobile \<Rightarrow> bool" where
  "tuns_ok s \<longleftrightarrow>
     (mo_started s \<longleftrightarrow> mo_ctx s) \<and> (mo_tun s \<noteq> None \<longrightarrow> mo_started s) \<and>
     (case mo_tun s of Some t \<Rightarrow> \<not> at_closed t \<and> at_closes t = 0 | None \<Rightarrow> True) \<and>
     (\<forall>t\<in>set (mo_retired s). at_closed t \<and> at_closes t = 1)"

text \<open>What the helpers leave alone.\<close>

lemma tell_simps [simp]:
  "mo_conns (tell x s) = mo_conns s" "mo_link (tell x s) = mo_link s" "mo_ready (tell x s) = mo_ready s"
  "mo_client (tell x s) = mo_client s" "mo_started (tell x s) = mo_started s" "mo_ctx (tell x s) = mo_ctx s"
  "mo_tun (tell x s) = mo_tun s" "mo_retired (tell x s) = mo_retired s" "mo_ip (tell x s) = mo_ip s"
  "mo_mask (tell x s) = mo_mask s" "mo_gateway (tell x s) = mo_gateway s" "mo_reqID (tell x s) = mo_reqID s"
  "mo_privateKey (tell x s) = mo_privateKey s" "mo_serverPublicKey (tell x s) = mo_serverPublicKey s"
  "mo_old (tell x s) = mo_old s" "mo_mtu (tell x s) = mo_mtu s" "mo_dns (tell x s) = mo_dns s"
  by (simp_all add: tell_def)

lemma emitState_simps [simp]:
  "mo_conns (emitState x s) = mo_conns s" "mo_link (emitState x s) = mo_link s"
  "mo_ready (emitState x s) = mo_ready s" "mo_client (emitState x s) = mo_client s"
  "mo_started (emitState x s) = mo_started s" "mo_ctx (emitState x s) = mo_ctx s"
  "mo_tun (emitState x s) = mo_tun s" "mo_retired (emitState x s) = mo_retired s"
  "mo_ip (emitState x s) = mo_ip s" "mo_mask (emitState x s) = mo_mask s"
  "mo_gateway (emitState x s) = mo_gateway s" "mo_reqID (emitState x s) = mo_reqID s"
  "mo_privateKey (emitState x s) = mo_privateKey s"
  "mo_serverPublicKey (emitState x s) = mo_serverPublicKey s" "mo_old (emitState x s) = mo_old s"
  by (simp_all add: emitState_def)

lemma m_conn_simps [simp]:
  "mo_link (m_conn c f s) = mo_link s" "mo_ready (m_conn c f s) = mo_ready s"
  "mo_client (m_conn c f s) = mo_client s" "mo_started (m_conn c f s) = mo_started s"
  "mo_ctx (m_conn c f s) = mo_ctx s" "mo_tun (m_conn c f s) = mo_tun s"
  "mo_retired (m_conn c f s) = mo_retired s" "mo_ip (m_conn c f s) = mo_ip s"
  "mo_mask (m_conn c f s) = mo_mask s" "mo_gateway (m_conn c f s) = mo_gateway s"
  "mo_reqID (m_conn c f s) = mo_reqID s" "mo_old (m_conn c f s) = mo_old s"
  "mo_conns (m_conn c f s) = (mo_conns s)[c := f (mo_conns s ! c)]"
  "mo_privateKey (m_conn c f s) = mo_privateKey s"
  "mo_serverPublicKey (m_conn c f s) = mo_serverPublicKey s"
  by (simp_all add: m_conn_def)

lemma retire_simps [simp]:
  "mo_conns (retire t s) = mo_conns s" "mo_link (retire t s) = mo_link s" "mo_ready (retire t s) = mo_ready s"
  "mo_client (retire t s) = mo_client s" "mo_started (retire t s) = mo_started s"
  "mo_ctx (retire t s) = mo_ctx s" "mo_tun (retire t s) = mo_tun s" "mo_ip (retire t s) = mo_ip s"
  "mo_mask (retire t s) = mo_mask s" "mo_gateway (retire t s) = mo_gateway s" "mo_old (retire t s) = mo_old s"
  "mo_retired (retire t s) = mo_retired s @ (case t of None \<Rightarrow> [] | Some u \<Rightarrow> [at_close u])"
  by (simp_all add: retire_def split: option.split)

lemma conn_close_simps [simp]: "cn_sent (conn_close cn) = cn_sent cn" "cn_closed (conn_close cn)"
  by (simp_all add: conn_close_def)

lemma m_write_cases:
  "m_write c p s = (b, s') \<Longrightarrow>
   s' = m_conn c (\<lambda>cn. snd (conn_write p cn)) s \<and>
   b = (\<not> cn_closed (mo_conns s ! c) \<and> cn_room (mo_conns s ! c) \<noteq> 0)"
  by (auto simp: m_write_def conn_write_def split: if_splits)

lemma conn_write_simps [simp]:
  "cn_closed (snd (conn_write p cn)) = cn_closed cn"
  "cn_sent (snd (conn_write p cn)) =
     (if cn_closed cn \<or> cn_room cn = 0 then cn_sent cn else cn_sent cn @ [p])"
  by (simp_all add: conn_write_def)

section \<open>Connections\<close>

lemma link_ok_cong:
  "link_ok s \<Longrightarrow> mo_conns s' = mo_conns s \<Longrightarrow> mo_link s' = mo_link s \<Longrightarrow> link_ok s'"
  by (cases "mo_link s") (simp_all add: link_ok_def)

lemma link_ok_down:
  "link_ok s \<Longrightarrow> mo_conns s' = mo_conns s \<Longrightarrow> mo_link s' = Down \<or> mo_link s' = Lost \<Longrightarrow> link_ok s'"
  by (auto simp: link_ok_def)

lemma forms_update:
  assumes "\<forall>cn\<in>set cs. sent_form (cn_sent cn)" and "sent_form (cn_sent cn')"
  shows "\<forall>cn\<in>set (cs[c := cn']). sent_form (cn_sent cn)"
  using assms set_update_subset_insert [of cs c cn'] by blast

lemma link_ok_forms: "link_ok s \<Longrightarrow> \<forall>cn\<in>set (mo_conns s). sent_form (cn_sent cn)"
  by (simp add: link_ok_def)

lemma link_ok_close: "link_ok s \<Longrightarrow> link_ok (m_close c s)"
proof (cases "c < length (mo_conns s)")
  case True
  assume ok: "link_ok s"
  with True have "sent_form (cn_sent (mo_conns s ! c))" by (auto simp: link_ok_def)
  then have "\<forall>cn\<in>set ((mo_conns s)[c := conn_close (mo_conns s ! c)]). sent_form (cn_sent cn)"
    using ok by (intro forms_update) (simp_all add: link_ok_def)
  with ok True show ?thesis
    by (auto simp: link_ok_def m_close_def nth_list_update split: link.splits)
next
  case False
  assume "link_ok s"
  with False show ?thesis by (simp add: m_close_def m_conn_def list_update_beyond link_ok_def)
qed

text \<open>The two messages of \<^verbatim>\<open>OnConnect\<close>, on a connection that is the last one opened.\<close>

lemma onConnect_sent:
  assumes "c < length (mo_conns s)" and "cn_sent (mo_conns s ! c) = []"
  shows "\<exists>cn. mo_conns (mobile_onConnect E ea ed now c s) = (mo_conns s)[c := cn] \<and>
    sent_form (cn_sent cn) \<and> (cn_closed cn \<or> joined (cn_sent cn))"
proof (cases "mobile_encodeClientAuth (me_crypto E) (mo_privateKey s) (mo_serverPublicKey s) ea")
  case (Inl e)
  with assms show ?thesis
    by (intro exI [of _ "conn_close (mo_conns s ! c)"])
      (simp add: mobile_onConnect_def Let_def m_close_def sent_form_def)
next
  case (Inr r)
  obtain auth d where r: "r = (auth, d)" by fastforce
  obtain ask req where q: "EncodeDiscover (me_json E) ed now = (ask, req)" by fastforce
  let ?cn = "mo_conns s ! c"
  let ?w1 = "snd (conn_write (mobile_pack M_typeAuth auth) ?cn)"
  let ?w2 = "snd (conn_write (mobile_pack M_typeVDHCP ask) ?w1)"
  have j: "joined [Pack TypeAuth auth, Pack TypeVDHCP ask]" by (auto simp: joined_def)
  have f: "sent_form [Pack TypeAuth auth]" "sent_form []" by (auto simp: sent_form_def)
  consider "cn_closed ?cn \<or> cn_room ?cn = 0" | "\<not> cn_closed ?cn" "cn_room ?cn = 1" |
    "\<not> cn_closed ?cn" "1 < cn_room ?cn" by linarith
  then show ?thesis
  proof cases
    case 1
    with Inr r assms f show ?thesis
      by (intro exI [of _ "conn_close ?w1"])
        (auto simp: mobile_onConnect_def Let_def m_write_def m_close_def conn_write_def)
  next
    case 2
    with Inr r q assms f show ?thesis
      by (intro exI [of _ "conn_close ?w1"])
        (simp add: mobile_onConnect_def Let_def m_write_def m_close_def conn_write_def mobile_pack_eq)
  next
    case 3
    with Inr r q assms j joined_sent_form [OF j] show ?thesis
      by (intro exI [of _ ?w2])
        (simp add: mobile_onConnect_def Let_def m_write_def conn_write_def mobile_pack_eq)
  qed
qed

lemma onConnect_simps [simp]:
  "mo_link (mobile_onConnect E ea ed now c s) = mo_link s"
  "mo_client (mobile_onConnect E ea ed now c s) = mo_client s"
  "mo_started (mobile_onConnect E ea ed now c s) = mo_started s"
  "mo_ctx (mobile_onConnect E ea ed now c s) = mo_ctx s"
  "mo_tun (mobile_onConnect E ea ed now c s) = mo_tun s"
  "mo_retired (mobile_onConnect E ea ed now c s) = mo_retired s"
  "mo_old (mobile_onConnect E ea ed now c s) = mo_old s"
  "\<not> mo_ready (mobile_onConnect E ea ed now c s)"
  by (auto simp: mobile_onConnect_def Let_def m_close_def m_write_def
      split: sum.split prod.split bool.split)

lemma link_ok_connect:
  assumes "link_ok s" and "mo_link s = Opened c"
  shows "link_ok (mobile_onConnect E ea ed now c (s\<lparr>mo_link := Up c\<rparr>))"
proof -
  from assms have c: "c < length (mo_conns s)" "cn_sent (mo_conns s ! c) = []"
    by (simp_all add: link_ok_def)
  from onConnect_sent [of c "s\<lparr>mo_link := Up c\<rparr>"] c obtain cn where
    cn: "mo_conns (mobile_onConnect E ea ed now c (s\<lparr>mo_link := Up c\<rparr>)) = (mo_conns s)[c := cn]"
      "sent_form (cn_sent cn)" "cn_closed cn \<or> joined (cn_sent cn)" by fastforce
  with c forms_update [of "mo_conns s" cn c] assms(1) show ?thesis by (simp add: link_ok_def)
qed

lemma SendIP_state:
  assumes "mobile_SendIP pkt s = (e, s')"
  shows "mo_conns s' = mo_conns s \<and> mo_link s' = mo_link s \<or>
    (\<exists>c. mo_ready s \<and> link_conn (mo_link s) = Some c \<and> mo_link s' = mo_link s \<and>
       mo_conns s' = (mo_conns s)[c := snd (conn_write (Pack TypeIP pkt) (mo_conns s ! c))])"
  using assms
  by (auto simp: mobile_SendIP_def m_write_def mobile_pack_eq split: if_splits option.splits bool.splits prod.splits)

lemma SendIP_simps:
  assumes "mobile_SendIP pkt s = (e, s')"
  shows "mo_client s' = mo_client s" "mo_started s' = mo_started s" "mo_ctx s' = mo_ctx s"
    "mo_tun s' = mo_tun s" "mo_retired s' = mo_retired s" "mo_ready s' = mo_ready s" "mo_ip s' = mo_ip s"
    "mo_mask s' = mo_mask s" "mo_gateway s' = mo_gateway s" "mo_link s' = mo_link s"
  using assms
  by (auto simp: mobile_SendIP_def m_write_def split: if_splits option.splits bool.splits prod.splits)

lemma tun_packet_simps [simp]:
  "mo_client (mobile_tun_packet pkt s) = mo_client s" "mo_started (mobile_tun_packet pkt s) = mo_started s"
  "mo_ctx (mobile_tun_packet pkt s) = mo_ctx s" "mo_tun (mobile_tun_packet pkt s) = mo_tun s"
  "mo_retired (mobile_tun_packet pkt s) = mo_retired s" "mo_ready (mobile_tun_packet pkt s) = mo_ready s"
  "mo_ip (mobile_tun_packet pkt s) = mo_ip s" "mo_mask (mobile_tun_packet pkt s) = mo_mask s"
  "mo_gateway (mobile_tun_packet pkt s) = mo_gateway s" "mo_link (mobile_tun_packet pkt s) = mo_link s"
  "mo_conns (mobile_tun_packet pkt s) = mo_conns (snd (mobile_SendIP pkt s))"
proof -
  obtain e s1 where s1: "mobile_SendIP pkt s = (e, s1)" by fastforce
  then have t: "mobile_tun_packet pkt s = s1 \<or> mobile_tun_packet pkt s = tell OnSendError s1"
    by (simp add: mobile_tun_packet_def split: option.split)
  note SendIP_simps [OF s1]
  with t s1 show "mo_client (mobile_tun_packet pkt s) = mo_client s"
    "mo_started (mobile_tun_packet pkt s) = mo_started s"
    "mo_ctx (mobile_tun_packet pkt s) = mo_ctx s" "mo_tun (mobile_tun_packet pkt s) = mo_tun s"
    "mo_retired (mobile_tun_packet pkt s) = mo_retired s" "mo_ready (mobile_tun_packet pkt s) = mo_ready s"
    "mo_ip (mobile_tun_packet pkt s) = mo_ip s" "mo_mask (mobile_tun_packet pkt s) = mo_mask s"
    "mo_gateway (mobile_tun_packet pkt s) = mo_gateway s" "mo_link (mobile_tun_packet pkt s) = mo_link s"
    "mo_conns (mobile_tun_packet pkt s) = mo_conns (snd (mobile_SendIP pkt s))"
    by auto
qed

lemma link_ok_sent:
  assumes "link_ok s" and "ready_ok s" and "mobile_SendIP pkt s = (e, s')"
  shows "link_ok s'"
  using SendIP_state [OF assms(3)]
proof (elim disjE exE conjE)
  assume "mo_conns s' = mo_conns s" "mo_link s' = mo_link s"
  then show ?thesis by (rule link_ok_cong [OF assms(1)])
next
  fix c
  assume c: "mo_ready s" "link_conn (mo_link s) = Some c" "mo_link s' = mo_link s"
    "mo_conns s' = (mo_conns s)[c := snd (conn_write (Pack TypeIP pkt) (mo_conns s ! c))]"
  from assms(2) c(1,2) have up: "mo_link s = Up c"
    by (auto simp: ready_ok_def link_conn_def)
  with assms(1) have l: "c < length (mo_conns s)"
    "cn_closed (mo_conns s ! c) \<or> joined (cn_sent (mo_conns s ! c))" by (simp_all add: link_ok_def)
  let ?cn = "snd (conn_write (Pack TypeIP pkt) (mo_conns s ! c))"
  have all: "\<forall>cn\<in>set (mo_conns s). sent_form (cn_sent cn)" using assms(1) by (simp add: link_ok_def)
  then have "sent_form (cn_sent (mo_conns s ! c))" using l(1) by simp
  with l(2) have sf: "sent_form (cn_sent ?cn)" and cl: "cn_closed ?cn \<or> joined (cn_sent ?cn)"
    using joined_packet joined_sent_form by auto
  have "\<forall>cn\<in>set ((mo_conns s)[c := ?cn]). sent_form (cn_sent cn)" by (rule forms_update [OF all sf])
  then show ?thesis using l(1) cl by (simp add: link_ok_def c(3,4) up)
qed

lemma link_ok_packet:
  assumes "link_ok s" and "ready_ok s"
  shows "link_ok (mobile_tun_packet pkt s)"
proof -
  obtain e s1 where s1: "mobile_SendIP pkt s = (e, s1)" by fastforce
  have "link_ok s1" by (rule link_ok_sent [OF assms s1])
  then show ?thesis by (rule link_ok_cong) (simp_all add: s1 SendIP_simps [OF s1])
qed

section \<open>Starting and stopping\<close>

lemma Stop_simps:
  assumes "mo_started s"
  shows "\<not> mo_started (mobile_Stop s)" "\<not> mo_ready (mobile_Stop s)" "\<not> mo_ctx (mobile_Stop s)"
    "\<not> mo_client (mobile_Stop s)" "mo_tun (mobile_Stop s) = None" "mo_link (mobile_Stop s) = Down"
    "mo_retired (mobile_Stop s) =
       mo_retired s @ (case mo_tun s of None \<Rightarrow> [] | Some t \<Rightarrow> [at_close t])"
    "mo_conns (mobile_Stop s) =
       (if mo_client s then (case link_conn (mo_link s) of
            Some c \<Rightarrow> mo_conns (m_close c s) | None \<Rightarrow> mo_conns s) else mo_conns s)"
    "mo_old (mobile_Stop s) = (if mo_client s then mo_old s + 1 else mo_old s)"
  using assms by (simp_all add: mobile_Stop_def m_close_def Let_def split: option.split)

lemma Stop_unstarted: "\<not> mo_started s \<Longrightarrow> mobile_Stop s = s"
  by (simp add: mobile_Stop_def)

lemma retired_closed:
  assumes "case t of Some u \<Rightarrow> \<not> at_closed u \<and> at_closes u = 0 | None \<Rightarrow> True"
    and "\<forall>u\<in>set us. at_closed u \<and> at_closes u = 1"
  shows "\<forall>u\<in>set (us @ (case t of None \<Rightarrow> [] | Some u \<Rightarrow> [at_close u])). at_closed u \<and> at_closes u = 1"
  using assms by (cases t) (auto simp: at_close_def)

lemma Stop_ok:
  assumes "link_ok s" "ready_ok s" "tuns_ok s"
  shows "link_ok (mobile_Stop s)" "ready_ok (mobile_Stop s)" "tuns_ok (mobile_Stop s)"
proof -
  show "ready_ok (mobile_Stop s)"
  proof (cases "mo_started s")
    case True
    then show ?thesis by (simp add: ready_ok_def Stop_simps)
  qed (use assms(2) in \<open>simp add: Stop_unstarted\<close>)
  show "tuns_ok (mobile_Stop s)"
  proof (cases "mo_started s")
    case True
    from assms(3) have "case mo_tun s of Some u \<Rightarrow> \<not> at_closed u \<and> at_closes u = 0 | None \<Rightarrow> True"
      "\<forall>u\<in>set (mo_retired s). at_closed u \<and> at_closes u = 1" by (simp_all add: tuns_ok_def)
    from retired_closed [OF this] True show ?thesis by (simp add: tuns_ok_def Stop_simps)
  qed (use assms(3) in \<open>simp add: Stop_unstarted\<close>)
  show "link_ok (mobile_Stop s)"
  proof (cases "mo_started s")
    case True
    have closed: "\<forall>cn\<in>set (mo_conns (m_close c s)). sent_form (cn_sent cn)" for c
      by (rule link_ok_forms [OF link_ok_close [OF assms(1)]])
    then have "\<forall>cn\<in>set (mo_conns (mobile_Stop s)). sent_form (cn_sent cn)"
      using link_ok_forms [OF assms(1)] by (simp only: Stop_simps [OF True] split: option.split if_split) simp
    then show ?thesis by (simp add: link_ok_def Stop_simps [OF True])
  qed (use assms(1) in \<open>simp add: Stop_unstarted\<close>)
qed

text \<open>
  A call of \<^verbatim>\<open>Start\<close> is refused, or starts the client, or starts it and stops it again.
\<close>

definition start_pre :: "mobile_env \<Rightarrow> bytes \<Rightarrow> string \<Rightarrow> tcp_error + string" where
  "start_pre E ent priv = (if priv = [] then mobile_GeneratePrivateKey (me_crypto E) ent else Inr priv)"

lemma Start_cases:
  assumes "mobile_Start E ent server spk priv m l p s = (e, s')"
  obtains "s' = s"
  | srv k1 k2 pub m' where "\<not> mo_started s" "e = None"
      "s' = (emitState ''starting'' (start_fields srv k1 k2 pub m' s))\<lparr>mo_client := True, mo_link := Down\<rparr>"
  | srv k1 k2 pub m' where "\<not> mo_started s"
      "s' = mobile_Stop (emitState ''starting'' (start_fields srv k1 k2 pub m' s))"
proof -
  note a = assms [unfolded mobile_Start_def Let_def, folded start_pre_def]
  show thesis
  proof (cases "trim_space server = [] \<or> trim_space spk = [] \<or> \<not> l \<or> \<not> p \<or> mo_started s")
    case True
    with a have "s' = s" by (auto split: if_splits sum.splits)
    then show thesis by (rule that(1))
  next
    case False
    then have f: "trim_space server \<noteq> []" "trim_space spk \<noteq> []" "l" "p" "\<not> mo_started s" by simp_all
    note b = a [simplified f if_False not_True_eq_False if_True]
    show thesis
    proof (cases "\<exists>k2 pub hex. start_pre E ent (trim_space priv) = Inr k2 \<and>
        mobile_PublicKeyFromPrivate (me_crypto E) k2 = Inr pub \<and>
        NormalizePublicKeyHex (trim_space spk) = Inr hex")
      case True
      then obtain k2 pub hex where k: "start_pre E ent (trim_space priv) = Inr k2"
        "mobile_PublicKeyFromPrivate (me_crypto E) k2 = Inr pub"
        "NormalizePublicKeyHex (trim_space spk) = Inr hex" by blast
      note c = b [simplified k sum.case]
      show thesis
      proof (cases "tcpx_NewClient mobile_transport hex")
        case (Inl x)
        from c have "s' = mobile_Stop (emitState ''starting''
            (start_fields (trim_space server) (trim_space spk) k2 pub (if m \<le> 0 then 1300 else m) s))"
          by (simp only: Inl sum.case prod.inject)
        with f(5) show thesis by (rule that(3))
      next
        case (Inr y)
        from c have "e = None \<and> s' = (emitState ''starting''
            (start_fields (trim_space server) (trim_space spk) k2 pub (if m \<le> 0 then 1300 else m) s))
              \<lparr>mo_client := True, mo_link := Down\<rparr>"
          by (simp only: Inr sum.case prod.inject)
        then show thesis by (intro that(2) [OF f(5)]) blast+
      qed
    next
      case False
      then have "s' = s" using b by (auto split: sum.splits)
      then show thesis by (rule that(1))
    qed
  qed
qed

lemma start_ok:
  assumes "link_ok s" "ready_ok s" "tuns_ok s" "\<not> mo_started s"
    and s1: "s1 = emitState ''starting'' (start_fields srv k1 k2 pub m' s)"
  shows "link_ok s1" "ready_ok s1" "tuns_ok s1"
proof -
  have d: "mo_link s = Down" using assms(2,4) by (auto simp: ready_ok_def)
  show "link_ok s1" by (rule link_ok_cong [OF assms(1)]) (simp_all add: s1 start_fields_def)
  show "ready_ok s1" using d by (simp add: ready_ok_def s1 start_fields_def)
  show "tuns_ok s1" using assms(3) by (simp add: tuns_ok_def s1 start_fields_def)
qed

lemma Start_ok:
  assumes "link_ok s" "ready_ok s" "tuns_ok s" "mobile_Start E ent server spk priv m l p s = (e, s')"
  shows "link_ok s' \<and> ready_ok s' \<and> tuns_ok s'"
  using assms(4)
proof (cases rule: Start_cases)
  case 1
  with assms show ?thesis by simp
next
  case (2 srv k1 k2 pub m')
  from start_ok [OF assms(1-3) 2(1) refl, of srv k1 k2 pub m'] show ?thesis
    by (simp add: 2(3) link_ok_def ready_ok_def tuns_ok_def start_fields_def)
next
  case (3 srv k1 k2 pub m')
  from Stop_ok [OF start_ok [OF assms(1-3) 3(1) refl, of srv k1 k2 pub m']] show ?thesis
    by (simp add: 3(2))
qed

lemma AttachTun_ok:
  assumes "link_ok s" "ready_ok s" "tuns_ok s" "mobile_AttachTun fd m s = (e, s')"
  shows "link_ok s' \<and> ready_ok s' \<and> tuns_ok s'"
proof (cases "fd < 0 \<or> \<not> mo_started s \<or> \<not> mo_ctx s")
  case True
  with assms(4) have "s' = s" by (auto simp: mobile_AttachTun_def Let_def split: if_splits)
  with assms show ?thesis by simp
next
  case False
  define m1 where "m1 = (if m \<le> 0 then if mo_mtu s \<le> 0 then 1300 else mo_mtu s else m)"
  define s1 where "s1 = s\<lparr>mo_tun := Some (newAndroidTun m1), mo_mtu := m1\<rparr>"
  have s': "s' = emitState ''ready'' (retire (mo_tun s) s1)"
    using False assms(4) by (auto simp: mobile_AttachTun_def Let_def m1_def s1_def)
  have "link_ok s'" by (rule link_ok_cong [OF assms(1)]) (simp_all add: s' s1_def)
  moreover have "ready_ok s'" using assms(2) by (simp add: s' s1_def ready_ok_def)
  moreover from assms(3) have "case mo_tun s of Some u \<Rightarrow> \<not> at_closed u \<and> at_closes u = 0 | None \<Rightarrow> True"
    "\<forall>u\<in>set (mo_retired s). at_closed u \<and> at_closes u = 1" by (simp_all add: tuns_ok_def)
  from retired_closed [OF this] have "tuns_ok s'"
    using False by (simp add: s' s1_def tuns_ok_def newAndroidTun_def)
  ultimately show ?thesis by blast
qed

section \<open>Messages\<close>

text \<open>What a message can do: close its connection, hand an address over, or reach the device.\<close>

lemma onMessage_cases:
  obtains "mobile_onMessage E ok c raw s = s"
  | x where "mobile_onMessage E ok c raw s = m_close c (tell x s)"
  | msg a where "ValidateOffer msg (mo_reqID s) = None"
      "mobile_onMessage E ok c raw s =
         tell a (s\<lparr>mo_ip := msg_ip msg, mo_mask := msg_mask msg, mo_gateway := msg_gateway msg,
                   mo_dns := join_comma (msg_dns msg), mo_mtu := msg_mtu msg, mo_reqID := [],
                   mo_ready := True\<rparr>)"
  | t t1 b pkt where "mo_tun s = Some t" "at_write ok pkt t = (b, t1)"
      "mobile_onMessage E ok c raw s = tell OnTunWriteError (s\<lparr>mo_tun := Some t1\<rparr>)"
  | t t1 b pkt where "mo_tun s = Some t" "at_write ok pkt t = (b, t1)"
      "mobile_onMessage E ok c raw s = s\<lparr>mo_tun := Some t1, mo_down := mo_down s + of_nat (length pkt)\<rparr>"
proof (cases "mobile_unpack raw")
  case (Inl e)
  then have "mobile_onMessage E ok c raw s = m_close c (tell (OnUnpackError e) s)"
    by (simp add: mobile_onMessage_def)
  then show thesis by (rule that(2))
next
  case (Inr r)
  obtain t payload where r: "r = (t, payload)" by fastforce
  show thesis
  proof (cases t)
    case M_typeAuth
    with Inr r have "mobile_onMessage E ok c raw s = m_close c (tell OnUnexpectedAuth s)"
      by (simp add: mobile_onMessage_def)
    then show thesis by (rule that(2))
  next
    case M_typeVDHCP
    with Inr r have m: "mobile_onMessage E ok c raw s = mobile_handleVDHCP E c payload s"
      by (simp add: mobile_onMessage_def)
    show thesis
    proof (cases "DecodeMessage (me_json E) payload")
      case (Inl e)
      with m have "mobile_onMessage E ok c raw s = m_close c (tell (OnDecodeError e) s)"
        by (simp add: mobile_handleVDHCP_def)
      then show thesis by (rule that(2))
    next
      case (Inr msg)
      show thesis
      proof (cases "msg_type msg = MessageTypeNak")
        case True
        with m Inr have "mobile_onMessage E ok c raw s = m_close c (tell (OnNak (msg_reason msg)) s)"
          by (simp add: mobile_handleVDHCP_def)
        then show thesis by (rule that(2))
      next
        case nak: False
        show thesis
        proof (cases "ValidateOffer msg (mo_reqID s)")
          case None
          with m Inr nak show thesis
            by (intro that(3) [of msg]) (simp_all add: mobile_handleVDHCP_def Let_def)
        next
          case (Some e)
          with m Inr nak have "mobile_onMessage E ok c raw s = m_close c (tell (OnOfferError e) s)"
            by (simp add: mobile_handleVDHCP_def)
          then show thesis by (rule that(2))
        qed
      qed
    qed
  next
    case M_typeIP
    with Inr r have m: "mobile_onMessage E ok c raw s = mobile_handleIP ok payload s"
      by (simp add: mobile_onMessage_def)
    show thesis
    proof (cases "payload = [] \<or> mo_tun s = None")
      case True
      with m have "mobile_onMessage E ok c raw s = s" by (auto simp: mobile_handleIP_def)
      then show thesis by (rule that(1))
    next
      case False
      then obtain u where u: "payload \<noteq> []" "mo_tun s = Some u" by blast
      obtain b t1 where w: "at_write ok payload u = (b, t1)" by fastforce
      show thesis
      proof (cases b)
        case True
        with m u w have "mobile_onMessage E ok c raw s =
            s\<lparr>mo_tun := Some t1, mo_down := mo_down s + of_nat (length payload)\<rparr>"
          by (simp add: mobile_handleIP_def)
        with u(2) w show thesis by (rule that(5))
      next
        case False
        with m u w have "mobile_onMessage E ok c raw s = tell OnTunWriteError (s\<lparr>mo_tun := Some t1\<rparr>)"
          by (simp add: mobile_handleIP_def)
        with u(2) w show thesis by (rule that(4))
      qed
    qed
  qed
qed

lemma at_write_open:
  "at_write ok pkt t = (b, t1) \<Longrightarrow> at_closed t1 = at_closed t \<and> at_closes t1 = at_closes t"
  by (auto simp: at_write_def split: if_splits)

definition mobile_inv :: "mobile \<Rightarrow> bool" where
  "mobile_inv s \<longleftrightarrow> link_ok s \<and> ready_ok s \<and> tuns_ok s"

lemma mobile_invI [intro]: "link_ok s \<Longrightarrow> ready_ok s \<Longrightarrow> tuns_ok s \<Longrightarrow> mobile_inv s"
  by (simp add: mobile_inv_def)

lemma m_close_simps [simp]:
  "mo_link (m_close c s) = mo_link s" "mo_ready (m_close c s) = mo_ready s"
  "mo_client (m_close c s) = mo_client s" "mo_started (m_close c s) = mo_started s"
  "mo_ctx (m_close c s) = mo_ctx s" "mo_tun (m_close c s) = mo_tun s"
  "mo_retired (m_close c s) = mo_retired s" "mo_ip (m_close c s) = mo_ip s"
  "mo_mask (m_close c s) = mo_mask s" "mo_gateway (m_close c s) = mo_gateway s"
  by (simp_all add: m_close_def)

lemma ready_ok_cong:
  "ready_ok s \<Longrightarrow> mo_client s' = mo_client s \<Longrightarrow> mo_started s' = mo_started s \<Longrightarrow> mo_link s' = mo_link s \<Longrightarrow>
   (mo_ready s' \<longrightarrow> mo_ready s) \<Longrightarrow> mo_ip s' = mo_ip s \<Longrightarrow> mo_mask s' = mo_mask s \<Longrightarrow>
   mo_gateway s' = mo_gateway s \<Longrightarrow> ready_ok s'"
  by (simp add: ready_ok_def)

lemma tuns_ok_cong:
  "tuns_ok s \<Longrightarrow> mo_started s' = mo_started s \<Longrightarrow> mo_ctx s' = mo_ctx s \<Longrightarrow> mo_tun s' = mo_tun s \<Longrightarrow>
   mo_retired s' = mo_retired s \<Longrightarrow> tuns_ok s'"
  by (auto simp: tuns_ok_def)

lemma mobile_inv_cong:
  assumes "mobile_inv s" "mo_conns s' = mo_conns s" "mo_link s' = mo_link s" "mo_client s' = mo_client s"
    "mo_started s' = mo_started s" "mo_ctx s' = mo_ctx s" "mo_tun s' = mo_tun s"
    "mo_retired s' = mo_retired s" "mo_ready s' \<longrightarrow> mo_ready s" "mo_ip s' = mo_ip s"
    "mo_mask s' = mo_mask s" "mo_gateway s' = mo_gateway s"
  shows "mobile_inv s'"
proof
  from assms(1) have i: "link_ok s" "ready_ok s" "tuns_ok s" by (simp_all add: mobile_inv_def)
  show "link_ok s'" by (rule link_ok_cong [OF i(1) assms(2,3)])
  show "ready_ok s'" by (rule ready_ok_cong [OF i(2) assms(4,5,3,9-12)])
  show "tuns_ok s'" by (rule tuns_ok_cong [OF i(3) assms(5-8)])
qed

lemma mobile_inv_close: "mobile_inv s \<Longrightarrow> mobile_inv (m_close c s)"
  unfolding mobile_inv_def
  by (intro conjI; elim conjE)
    (auto elim: link_ok_close ready_ok_cong tuns_ok_cong)

lemma mobile_inv_tell: "mobile_inv s \<Longrightarrow> mobile_inv (tell x s)"
  by (rule mobile_inv_cong) simp_all

lemma mobile_inv_tun:
  assumes "mobile_inv s" "mo_tun s = Some t" "at_write ok pkt t = (b, t1)"
  shows "mobile_inv (s\<lparr>mo_tun := Some t1\<rparr>)"
proof
  from assms(1) have i: "link_ok s" "ready_ok s" "tuns_ok s" by (simp_all add: mobile_inv_def)
  show "link_ok (s\<lparr>mo_tun := Some t1\<rparr>)" by (rule link_ok_cong [OF i(1)]) simp_all
  show "ready_ok (s\<lparr>mo_tun := Some t1\<rparr>)" by (rule ready_ok_cong [OF i(2)]) simp_all
  show "tuns_ok (s\<lparr>mo_tun := Some t1\<rparr>)"
    using i(3) assms(2) at_write_open [OF assms(3)] by (auto simp: tuns_ok_def)
qed

lemma mobile_inv_message:
  assumes "mobile_inv s" "mo_link s = Up c"
  shows "mobile_inv (mobile_onMessage E ok c raw s)"
proof (cases rule: onMessage_cases [of E ok c raw s])
  case 1
  with assms(1) show ?thesis by simp
next
  case (2 x)
  then show ?thesis by (simp add: mobile_inv_close mobile_inv_tell assms(1))
next
  case (3 msg a)
  let ?s = "s\<lparr>mo_ip := msg_ip msg, mo_mask := msg_mask msg, mo_gateway := msg_gateway msg,
    mo_dns := join_comma (msg_dns msg), mo_mtu := msg_mtu msg, mo_reqID := [], mo_ready := True\<rparr>"
  from assms(1) have i: "link_ok s" "ready_ok s" "tuns_ok s" by (simp_all add: mobile_inv_def)
  have "link_ok ?s" by (rule link_ok_cong [OF i(1)]) simp_all
  moreover have "ready_ok ?s" using i(2) assms(2) 3(1) unfolding ready_ok_def by auto
  moreover have "tuns_ok ?s" by (rule tuns_ok_cong [OF i(3)]) simp_all
  ultimately show ?thesis unfolding 3(2) by (intro mobile_inv_tell mobile_invI)
next
  case (4 t t1 b pkt)
  show ?thesis unfolding 4(3) by (rule mobile_inv_tell [OF mobile_inv_tun [OF assms(1) 4(1,2)]])
next
  case (5 t t1 b pkt)
  show ?thesis unfolding 5(3)
    by (rule mobile_inv_cong [OF mobile_inv_tun [OF assms(1) 5(1,2)]]) simp_all
qed

section \<open>Every state reached\<close>

lemma mobile_inv_parts: "mobile_inv s \<Longrightarrow> link_ok s" "mobile_inv s \<Longrightarrow> ready_ok s" "mobile_inv s \<Longrightarrow> tuns_ok s"
  by (simp_all add: mobile_inv_def)

lemma mobile_inv_link:
  assumes "mobile_inv s" and "mo_link s' = Down \<or> mo_link s' = Lost \<and> mo_client s"
    and "mo_conns s' = mo_conns s" "mo_client s' = mo_client s"
    "mo_started s' = mo_started s" "mo_ctx s' = mo_ctx s" "mo_tun s' = mo_tun s"
    "mo_retired s' = mo_retired s" "mo_ready s' \<longrightarrow> mo_ready s \<and> mo_link s' = Lost" "mo_ip s' = mo_ip s"
    "mo_mask s' = mo_mask s" "mo_gateway s' = mo_gateway s"
  shows "mobile_inv s'"
proof
  note i = mobile_inv_parts [OF assms(1)]
  show "link_ok s'" by (rule link_ok_down [OF i(1) assms(3)]) (use assms(2) in blast)
  show "tuns_ok s'" by (rule tuns_ok_cong [OF i(3) assms(5-8)])
  have "mo_client s' \<longrightarrow> mo_started s'" using i(2) by (simp add: ready_ok_def assms(4,5))
  moreover have "mo_link s' \<noteq> Down \<longrightarrow> mo_client s'" using assms(2,4) by auto
  moreover have "mo_ready s' \<longrightarrow> (\<exists>c. mo_link s' = Up c) \<or> mo_link s' = Lost" using assms(9) by blast
  moreover have "mo_ready s' \<longrightarrow> (\<exists>msg req. ValidateOffer msg req = None \<and> mo_ip s' = msg_ip msg \<and>
      mo_mask s' = msg_mask msg \<and> mo_gateway s' = msg_gateway msg)"
    using i(2) assms(9) by (simp add: ready_ok_def assms(10-12))
  ultimately show "ready_ok s'" by (simp add: ready_ok_def)
qed

lemma mobile_inv_open:
  assumes "mobile_inv s" "mo_client s" "mo_link s = Down"
  shows "mobile_inv (s\<lparr>mo_link := Opened (length (mo_conns s)),
    mo_conns := mo_conns s @ [\<lparr>cn_remote = r, cn_closed = False, cn_room = n, cn_sent = []\<rparr>]\<rparr>)" (is "mobile_inv ?s")
proof
  note i = mobile_inv_parts [OF assms(1)]
  show "link_ok ?s" using link_ok_forms [OF i(1)] by (simp add: link_ok_def sent_form_def)
  show "tuns_ok ?s" by (rule tuns_ok_cong [OF i(3)]) simp_all
  show "ready_ok ?s" using i(2) assms(2,3) by (auto simp: ready_ok_def)
qed

lemma mobile_inv_connect:
  assumes "mobile_inv s" "mo_link s = Opened c"
  shows "mobile_inv (mobile_onConnect E ea ed now c (s\<lparr>mo_link := Up c\<rparr>))" (is "mobile_inv ?s")
proof
  note i = mobile_inv_parts [OF assms(1)]
  show "link_ok ?s" by (rule link_ok_connect [OF i(1) assms(2)])
  show "tuns_ok ?s" by (rule tuns_ok_cong [OF i(3)]) simp_all
  show "ready_ok ?s" using i(2) assms(2) by (auto simp: ready_ok_def)
qed

lemma mobile_inv_packet: "mobile_inv s \<Longrightarrow> mobile_inv (mobile_tun_packet pkt s)"
proof
  assume inv: "mobile_inv s"
  note i = mobile_inv_parts [OF inv]
  show "link_ok (mobile_tun_packet pkt s)" by (rule link_ok_packet [OF i(1,2)])
  show "tuns_ok (mobile_tun_packet pkt s)" by (rule tuns_ok_cong [OF i(3)]) simp_all
  show "ready_ok (mobile_tun_packet pkt s)" by (rule ready_ok_cong [OF i(2)]) simp_all
qed

lemma onDisconnect_simps [simp]:
  "mo_conns (mobile_onDisconnect s) = mo_conns s" "mo_link (mobile_onDisconnect s) = mo_link s"
  "mo_client (mobile_onDisconnect s) = mo_client s" "mo_started (mobile_onDisconnect s) = mo_started s"
  "mo_ctx (mobile_onDisconnect s) = mo_ctx s" "mo_tun (mobile_onDisconnect s) = mo_tun s"
  "mo_retired (mobile_onDisconnect s) = mo_retired s" "mo_ip (mobile_onDisconnect s) = mo_ip s"
  "mo_mask (mobile_onDisconnect s) = mo_mask s" "mo_gateway (mobile_onDisconnect s) = mo_gateway s"
  "\<not> mo_ready (mobile_onDisconnect s)"
  by (simp_all add: mobile_onDisconnect_def)

lemma run_end_simps [simp]:
  "mo_conns (run_end b s) = mo_conns s" "mo_link (run_end b s) = mo_link s"
  "mo_client (run_end b s) = mo_client s" "mo_started (run_end b s) = mo_started s"
  "mo_ctx (run_end b s) = mo_ctx s" "mo_tun (run_end b s) = mo_tun s"
  "mo_retired (run_end b s) = mo_retired s" "mo_ip (run_end b s) = mo_ip s"
  "mo_mask (run_end b s) = mo_mask s" "mo_gateway (run_end b s) = mo_gateway s"
  "\<not> mo_ready (run_end b s)"
  by (simp_all add: run_end_def)

lemma mobile_inv_step:
  assumes inv: "mobile_inv s" and st: "mobile_step E now ev s = Some s'"
  shows "mobile_inv s'"
proof (cases ev)
  case (MStart ent server spk priv m l p)
  obtain e s1 where "mobile_Start E ent server spk priv m l p s = (e, s1)" by fastforce
  with Start_ok [OF mobile_inv_parts [OF inv] this] st MStart show ?thesis by (simp add: mobile_inv_def)
next
  case MStop
  with Stop_ok [OF mobile_inv_parts [OF inv]] st show ?thesis by (auto simp: mobile_inv_def)
next
  case (MAttach fd m)
  obtain e s1 where "mobile_AttachTun fd m s = (e, s1)" by fastforce
  with AttachTun_ok [OF mobile_inv_parts [OF inv] this] st MAttach show ?thesis by (simp add: mobile_inv_def)
next
  case MConnecting
  with st have "s' = emitState ''connecting'' s" by (simp split: if_splits)
  then show ?thesis using mobile_inv_tell [OF inv] by (simp add: emitState_def)
next
  case (MOpened r n)
  with st mobile_inv_open [OF inv] show ?thesis by (auto split: if_splits)
next
  case (MConnect ea ed)
  with st mobile_inv_connect [OF inv] show ?thesis by (auto split: link.splits)
next
  case (MMessage raw ok)
  with st mobile_inv_message [OF inv] show ?thesis by (auto split: link.splits)
next
  case MLost
  with st obtain c where c: "mo_link s = Up c" "s' = m_close c (s\<lparr>mo_link := Lost\<rparr>)"
    by (auto split: link.splits)
  with mobile_inv_parts(2) [OF inv] have "mo_client s" by (simp add: ready_ok_def)
  with inv have "mobile_inv (s\<lparr>mo_link := Lost\<rparr>)" by (intro mobile_inv_link [OF inv]) simp_all
  with c(2) show ?thesis by (simp add: mobile_inv_close)
next
  case MDisconnect
  with st have "s' = mobile_onDisconnect (s\<lparr>mo_link := Down\<rparr>)" by (simp split: if_splits)
  then show ?thesis by (intro mobile_inv_link [OF inv]) simp_all
next
  case (MTunPacket pkt)
  with st mobile_inv_packet [OF inv] show ?thesis by auto
next
  case MTick
  with st have "s' = traffic_tick s" by (simp split: if_splits)
  with mobile_inv_tell [OF inv] show ?thesis by (simp add: traffic_tick_def)
next
  case MOldRunEnds
  with st have "s' = run_end False (s\<lparr>mo_old := mo_old s - 1\<rparr>)" by (simp split: if_splits)
  then show ?thesis by (intro mobile_inv_cong [OF inv]) simp_all
qed

lemma mobile_inv_run: "mobile_run E s s' \<Longrightarrow> mobile_inv s \<Longrightarrow> mobile_inv s'"
  by (induction rule: mobile_run.induct) (auto elim: mobile_inv_step)

lemma mobile_inv_new: "mobile_inv mobile_NewClient"
  by (simp add: mobile_inv_def link_ok_def ready_ok_def tuns_ok_def mobile_NewClient_def)

abbreviation mobile_reached :: "mobile_env \<Rightarrow> mobile \<Rightarrow> bool" where
  "mobile_reached E \<equiv> mobile_run E mobile_NewClient"

lemma mobile_reached_inv: "mobile_reached E s \<Longrightarrow> mobile_inv s"
  by (erule mobile_inv_run) (rule mobile_inv_new)

section \<open>A started client\<close>

definition sample_mobile_env :: mobile_env where
  "sample_mobile_env = \<lparr>me_crypto = toy_crypto, me_json = toy_json\<rparr>"

lemma sample_mobile_start:
  assumes "\<not> mo_started s"
  shows "\<exists>s1. mobile_step sample_mobile_env now
       (MStart [] ''h'' sample_server_pub (sample_key_text 5) 1300 True True) s = Some s1 \<and>
     mo_client s1 \<and> mo_link s1 = Down \<and> mo_started s1 \<and> mo_privateKey s1 = sample_key_text 5 \<and>
     mo_serverPublicKey s1 = sample_server_pub \<and> mo_old s1 = mo_old s"
proof -
  have t: "trim_space ''h'' = ''h''" by (rule trim_space_visible) (simp_all add: visible_def)
  have none: "ParsePrivateKeyAny [] = Inl (ErrKeyText ''empty key'')"
    "ParsePublicKeyAny [] = Inl (ErrKeyText ''empty key'')"
    by (simp_all add: ParsePrivateKeyAny_def ParsePublicKeyAny_def DecodeX25519Key_def)
  have ne: "sample_server_pub \<noteq> []" "sample_key_text 5 \<noteq> []"
    using none sample_keys_parse(1) [of 5] sample_keys_parse(2) by (auto simp del: sample_keys_parse)
  have sp: "trim_space sample_server_pub = sample_server_pub" "trim_space (sample_key_text 5) = sample_key_text 5"
    by (simp_all add: sample_server_pub_def sample_key_text_def)
  obtain pub where p: "mobile_PublicKeyFromPrivate toy_crypto (sample_key_text 5) = Inr pub"
    by (simp add: mobile_PublicKeyFromPrivate_def PublicKeyBase64FromPrivate_def)
  have n: "NormalizePublicKeyHex sample_server_pub = Inr (hex_encode (replicate 32 7))"
    by (simp add: NormalizePublicKeyHex_def)
  obtain t where h: "tcpx_NewClient mobile_transport (hex_encode (replicate 32 7)) = Inr t"
    by (simp add: tcpx_NewClient_def Let_def ParsePublicKeyHex_def x25519_new_def)
  from assms t ne sp p n h show ?thesis
    by (auto simp: mobile_Start_def Let_def sample_mobile_env_def start_fields_def)
qed

end
