(* ===== verification/Mobile_Link.thy ===== *)
theory Mobile_Link
  imports Mobile_Safety
begin

text \<open>
  The mobile client on top of the reconnecting client of \<^verbatim>\<open>tcpx/client.go\<close>: it offers what the
  transport needs of the program it calls back, so that it follows every run of the transport.
\<close>

section \<open>The mobile client\<close>

text \<open>What happens to the mobile client besides its transport, without \<^verbatim>\<open>Stop\<close>.\<close>

fun by_itself :: "mobile_event \<Rightarrow> bool" where
  "by_itself (MStart ent server spk priv m l p) \<longleftrightarrow> True"
| "by_itself (MAttach fd m) \<longleftrightarrow> True"
| "by_itself MConnecting \<longleftrightarrow> True"
| "by_itself (MTunPacket pkt) \<longleftrightarrow> True"
| "by_itself MTick \<longleftrightarrow> True"
| "by_itself MOldRunEnds \<longleftrightarrow> True"
| "by_itself ev \<longleftrightarrow> False"

definition mobile_user :: "mobile_env \<Rightarrow> int \<Rightarrow> (mobile, call_data, mobile_event) user_ops" where
  "mobile_user E now =
     \<lparr>u_opened = \<lambda>d. mobile_step E now (MOpened (cd_remote d) (cd_room d)),
      u_connected = \<lambda>d. mobile_step E now (MConnect (cd_auth d) (cd_discover d)),
      u_received = \<lambda>d m. mobile_step E now (MMessage m (cd_write d)),
      u_dropped = mobile_step E now MLost,
      u_ended = mobile_step E now MDisconnect,
      u_app = \<lambda>ev s. if by_itself ev then mobile_step E now ev s else None\<rparr>"

definition mobile_alive :: "mobile \<Rightarrow> bool" where
  "mobile_alive s \<longleftrightarrow> mo_client s \<and> mo_started s"

lemma onMessage_alive:
  "mobile_alive (mobile_onMessage E ok c raw s) = mobile_alive s"
  "mo_link (mobile_onMessage E ok c raw s) = mo_link s"
  by (cases rule: onMessage_cases [of E ok c raw s]; simp add: mobile_alive_def)+

lemma by_itself_keeps:
  assumes "mobile_alive s" "by_itself ev" "mobile_step E now ev s = Some s'"
  shows "mobile_alive s' \<and> mo_link s' = mo_link s"
proof (cases ev)
  case (MStart ent server spk priv m l p)
  with assms(3) obtain e where e: "mobile_Start E ent server spk priv m l p s = (e, s')"
    by (cases "mobile_Start E ent server spk priv m l p s") simp
  show ?thesis by (rule Start_cases [OF e]) (use assms(1) in \<open>auto simp: mobile_alive_def\<close>)
next
  case (MAttach fd m)
  with assms(1,3) show ?thesis
    by (auto simp: mobile_alive_def mobile_AttachTun_def Let_def)
qed (use assms in \<open>auto simp: mobile_alive_def traffic_tick_def split: if_splits\<close>)

interpretation mobile: transport_user "mobile_user E now" mobile_alive mo_link
proof (unfold_locales, goal_cases)
  case (1 s d)
  then show ?case by (simp add: mobile_user_def mobile_alive_def)
next
  case (2 s c d)
  then show ?case by (simp add: mobile_user_def mobile_alive_def)
next
  case (3 s c d m)
  then show ?case by (simp add: mobile_user_def onMessage_alive)
next
  case (4 s c)
  then show ?case by (simp add: mobile_user_def mobile_alive_def)
next
  case (5 s)
  then show ?case by (auto simp: mobile_user_def mobile_alive_def)
next
  case (6 s a s')
  then show ?case by (auto simp: mobile_user_def dest: by_itself_keeps split: if_splits)
qed

lemma feed_runs:
  "feed (mobile_user E now) d ev t s = Some s' \<Longrightarrow> mobile_run E s0 s \<Longrightarrow> mobile_run E s0 s'"
  unfolding feed_def mobile_user_def user_ops.select_convs
  by (auto split: tc_event.splits phase.splits option.splits sum.splits simp del: mobile_step.simps
      intro: mobile_run.step)

lemma joint_runs:
  "joint (mobile_user E now) xs t s = Some (t', s') \<Longrightarrow> mobile_run E s0 s \<Longrightarrow> mobile_run E s0 s'"
proof (induction "mobile_user E now" xs t s rule: joint.induct)
  case (2 ev d xs t s)
  then show ?case by (auto split: option.splits simp del: tc_step.simps dest: feed_runs)
next
  case (3 a xs t s)
  have "mobile_run E s0 (case u_app (mobile_user E now) a s of None \<Rightarrow> s | Some s' \<Rightarrow> s')"
    using 3(3) by (auto simp: mobile_user_def split: option.splits if_splits simp del: mobile_step.simps
        intro: mobile_run.step)
  with 3 show ?case by simp
qed simp



end
