(* ===== verification/Mobile_Sessions.thy ===== *)
theory Mobile_Sessions
  imports Sessions Mobile_Link
begin

text \<open>
  The mobile client together with the server, and the properties of the mobile client, with the
  run in which it becomes ready.
\<close>

section \<open>Joining\<close>

lemma mobile_connects:
  assumes "mo_link s = Opened c" and "c < length (mo_conns s)" and "cn_sent (mo_conns s ! c) = []"
    and "\<not> cn_closed (mo_conns s ! c)" and "2 \<le> cn_room (mo_conns s ! c)"
    and auth: "EncodeClientAuth (me_crypto E) (mo_privateKey s) (mo_serverPublicKey s) entA = Inr (auth, d)"
    and ask: "EncodeDiscover (me_json E) entD now = (ask, req)"
  shows "\<exists>s1. mobile_step E now (MConnect entA entD) s = Some s1 \<and> mo_link s1 = Up c \<and> mo_reqID s1 = req \<and>
     cn_sent (mo_conns s1 ! c) = [Pack TypeAuth auth, Pack TypeVDHCP ask] \<and>
     \<not> cn_closed (mo_conns s1 ! c) \<and> cn_room (mo_conns s1 ! c) = cn_room (mo_conns s ! c) - 2 \<and>
     length (mo_conns s1) = length (mo_conns s) \<and>
     mo_started s1 = mo_started s \<and> mo_client s1 = mo_client s \<and> mo_old s1 = mo_old s \<and>
     mo_tun s1 = mo_tun s"
proof -
  have "mobile_encodeClientAuth (me_crypto E) (mo_privateKey s) (mo_serverPublicKey s) entA = Inr (auth, d)"
    using auth by (simp add: mobile_auth_eq)
  with assms(1-5) ask show ?thesis
    by (simp add: mobile_onConnect_def Let_def m_write_def conn_write_def mobile_pack_eq)
qed

lemma mobile_offered:
  assumes "mo_link s = Up c" and "DecodeMessage (me_json E) pkt = Inr msg"
    and "ValidateOffer msg (mo_reqID s) = None"
  shows "\<exists>s1. mobile_step E now (MMessage (Pack TypeVDHCP pkt) ok) s = Some s1 \<and> mo_ready s1 \<and>
     mo_link s1 = Up c \<and> mo_conns s1 = mo_conns s \<and> mo_ip s1 = msg_ip msg \<and> mo_mask s1 = msg_mask msg \<and>
     mo_gateway s1 = msg_gateway msg \<and> mo_mtu s1 = msg_mtu msg \<and> mo_reqID s1 = [] \<and>
     mo_started s1 = mo_started s \<and> mo_client s1 = mo_client s \<and> mo_old s1 = mo_old s \<and>
     mo_tun s1 = mo_tun s"
proof -
  have nak: "msg_type msg \<noteq> MessageTypeNak"
    using assms(3) by (auto simp: ValidateOffer_def MessageTypeOffer_def MessageTypeNak_def split: if_splits)
  have "mobile_unpack (mobile_pack M_typeVDHCP pkt) = Inr (M_typeVDHCP, pkt)"
    by (simp add: mobile_unpack_def mobile_pack_def)
  then have "mobile_unpack (Pack TypeVDHCP pkt) = Inr (M_typeVDHCP, pkt)"
    by (simp add: mobile_pack_eq)
  with assms nak show ?thesis by (simp add: mobile_onMessage_def mobile_handleVDHCP_def Let_def)
qed

text \<open>
  C37: A mobile client gets its address from the server. Let the two agree on their keys, and let
  the server have an address left. When the transport has given the client a connection, the two
  messages the client sends, handled by the server on a new connection, make the server send
  exactly one message; when the client handles it, it is ready, with the address of its lease,
  for which the server has the connection's peer registered.
\<close>

theorem mobile_gets_address:
  assumes srv: "NewServer sconf = Inr s0" "server_run E s0 s"
    and mob: "mobile_reached K k" "mo_link k = Opened c" "\<not> cn_closed (mo_conns k ! c)"
      "2 \<le> cn_room (mo_conns k ! c)"
    and same: "e_crypto E = me_crypto K" "e_json E = me_json K"
    and laws: "ecdh_ok (me_crypto K)" "hmac_len (me_crypto K)" "json_ok (me_json K)"
    and keys: "ParsePrivateKeyAny (sv_privateKey (s_conf s)) = Inr sp"
      "ParsePublicKeyAny (mo_serverPublicKey k) = Inr (ecdh_pub (me_crypto K) sp)"
      "EncodeClientAuth (me_crypto K) (mo_privateKey k) (mo_serverPublicKey k) entA = Inr (auth, d)"
    and lease: "Acquire now d (s_dhcp s) = (Inr l, m)" "offers_ok (s_conf s)"
    and room: "0 < sroom"
  shows "\<exists>k1 k2 hello ask offer s1 s2 s3.
    mobile_step K now (MConnect entA entD) k = Some k1 \<and> cn_sent (mo_conns k1 ! c) = [hello, ask] \<and>
    server_step E now (Connect sremote sroom) s = Some s1 \<and>
    server_step E now (Message (length (s_conns s)) hello) s1 = Some s2 \<and>
    server_step E now (Message (length (s_conns s)) ask) s2 = Some s3 \<and>
    cn_sent (s_conns s3 ! length (s_conns s)) = [offer] \<and>
    mobile_step K now (MMessage offer ok) k1 = Some k2 \<and> mo_ready k2 \<and> mo_link k2 = Up c \<and>
    mo_ip k2 = l_ip l \<and> mo_mask k2 = v_mask (sv_vdhcp (s_conf s)) \<and>
    byIP (s_reg s3) (l_ip l) = Some (length (s_peers s)) \<and>
    p_id (peer_at s3 (length (s_peers s))) = d \<and> ownsIP (l_ip l) (peer_at s3 (length (s_peers s)))"
proof -
  obtain ask req where ask: "EncodeDiscover (me_json K) entD now = (ask, req)" by fastforce
  from server_answers [OF srv same laws keys ask lease room, of sremote] obtain s1 s2 s3 pkt where
    s: "server_step E now (Connect sremote sroom) s = Some s1"
    "server_step E now (Message (length (s_conns s)) (Pack TypeAuth auth)) s1 = Some s2"
    "server_step E now (Message (length (s_conns s)) (Pack TypeVDHCP ask)) s2 = Some s3"
    "cn_sent (s_conns s3 ! length (s_conns s)) = [Pack TypeVDHCP pkt]"
    and dk: "DecodeMessage (me_json K) pkt = Inr (offer_of (s_conf s) req (l_ip l))"
      "ValidateOffer (offer_of (s_conf s) req (l_ip l)) req = None"
    and reg: "byIP (s_reg s3) (l_ip l) = Some (length (s_peers s))"
      "p_id (peer_at s3 (length (s_peers s))) = d" "ownsIP (l_ip l) (peer_at s3 (length (s_peers s)))"
    by (elim exE conjE) (erule (8) that)
  from mobile_reached_inv [OF mob(1)] mob(2)
  have c: "c < length (mo_conns k)" "cn_sent (mo_conns k ! c) = []"
    by (simp_all add: mobile_inv_def link_ok_def)
  from mobile_connects [OF mob(2) c mob(3,4) keys(3) ask] obtain k1 where
    k1: "mobile_step K now (MConnect entA entD) k = Some k1" "mo_link k1 = Up c" "mo_reqID k1 = req"
      "cn_sent (mo_conns k1 ! c) = [Pack TypeAuth auth, Pack TypeVDHCP ask]" by blast
  from mobile_offered [OF k1(2) dk(1), of now ok] dk(2) k1(3) obtain k2 where
    "mobile_step K now (MMessage (Pack TypeVDHCP pkt) ok) k1 = Some k2" "mo_ready k2" "mo_link k2 = Up c"
    "mo_ip k2 = l_ip l" "mo_mask k2 = v_mask (sv_vdhcp (s_conf s))"
    by (auto simp: offer_of_def offer_message_def simp del: mobile_step.simps)
  with s reg k1 show ?thesis by (intro exI conjI) assumption+
qed

section \<open>What holds in every state reached\<close>



text \<open>
  The run that was stopped silences the run that was started after it. \<^verbatim>\<open>Stop\<close> does not wait for
  the goroutine of its run, and that goroutine clears \<^verbatim>\<open>sessionReady\<close> when it ends. When it ends after
  the client was started again and has its address, the connection stays up and the client stays
  started, but it is not ready any more, and packets of the device are dropped without an error.
\<close>

theorem mobile_restart_race:
  assumes "0 < mo_old s"
  shows "\<exists>s'. mobile_step E now MOldRunEnds s = Some s' \<and> mo_started s' = mo_started s \<and>
    mo_link s' = mo_link s \<and> \<not> mo_ready s' \<and> mobile_step E now (MTunPacket pkt) s' = Some s'"
  using assms by (auto simp: mobile_tun_packet_def mobile_SendIP_def)

text \<open>
  After the first offer any offer without a request id is an answer. Once the mobile client has
  accepted an offer, a repetition of that offer closes the connection, and a complete offer whose
  request id is empty changes the address of the client.
\<close>

theorem mobile_empty_request:
  assumes "mo_link s = Up c"
    and "DecodeMessage (me_json E) p1 = Inr m1" "ValidateOffer m1 (mo_reqID s) = None" "mo_reqID s \<noteq> []"
    and "DecodeMessage (me_json E) p2 = Inr m2" "ValidateOffer m2 [] = None"
    and "c < length (mo_conns s)"
  shows "\<exists>s1 s2 s3. mobile_step E now (MMessage (Pack TypeVDHCP p1) ok) s = Some s1 \<and> mo_ready s1 \<and>
    mobile_step E now (MMessage (Pack TypeVDHCP p1) ok) s1 = Some s2 \<and>
    cn_closed (mo_conns s2 ! c) \<and>
    mobile_step E now (MMessage (Pack TypeVDHCP p2) ok) s1 = Some s3 \<and> mo_ip s3 = msg_ip m2"
proof -
  from mobile_offered [OF assms(1-3), of now ok] obtain s1 where
    s1: "mobile_step E now (MMessage (Pack TypeVDHCP p1) ok) s = Some s1" "mo_ready s1" "mo_link s1 = Up c"
      "mo_conns s1 = mo_conns s" "mo_reqID s1 = []" by blast
  from assms(3,4) have nak: "msg_type m1 \<noteq> MessageTypeNak" "msg_reqID m1 \<noteq> []"
    by (auto simp: ValidateOffer_def MessageTypeOffer_def MessageTypeNak_def split: if_splits)
  have "ValidateOffer m1 [] \<noteq> None"
    using nak(2) by (auto simp: ValidateOffer_def split: if_splits)
  then obtain e where e: "ValidateOffer m1 [] = Some e" by blast
  have "mobile_unpack (mobile_pack M_typeVDHCP p1) = Inr (M_typeVDHCP, p1)"
    by (simp add: mobile_unpack_def mobile_pack_def)
  then have "mobile_unpack (Pack TypeVDHCP p1) = Inr (M_typeVDHCP, p1)" by (simp add: mobile_pack_eq)
  with s1(3-5) assms(2) nak(1) e have
    "mobile_step E now (MMessage (Pack TypeVDHCP p1) ok) s1 = Some (m_close c (tell (OnOfferError e) s1))"
    by (simp add: mobile_onMessage_def mobile_handleVDHCP_def)
  moreover from mobile_offered [OF s1(3) assms(5), of now ok] assms(6) s1(5) obtain s3 where
    "mobile_step E now (MMessage (Pack TypeVDHCP p2) ok) s1 = Some s3" "mo_ip s3 = msg_ip m2" by auto
  moreover have "cn_closed (mo_conns (m_close c (tell (OnOfferError e) s1)) ! c)"
    using assms(7) by (simp add: m_close_def s1(4))
  ultimately show ?thesis using s1(1,2) by blast
qed

section \<open>A run\<close>

lemma sample_mobile_open:
  assumes "mobile_reached sample_mobile_env s" and "\<not> mo_started s"
  shows "\<exists>s1 c. mobile_reached sample_mobile_env s1 \<and> mo_client s1 \<and> mo_started s1 \<and> mo_link s1 = Opened c \<and>
    \<not> cn_closed (mo_conns s1 ! c) \<and> cn_room (mo_conns s1 ! c) = 9 \<and> mo_privateKey s1 = sample_key_text 5 \<and>
    mo_serverPublicKey s1 = sample_server_pub \<and> mo_old s1 = mo_old s"
proof -
  let ?E = sample_mobile_env
  from sample_mobile_start [OF assms(2), of 1] obtain s1 where
    s1: "mobile_step ?E 1 (MStart [] ''h'' sample_server_pub (sample_key_text 5) 1300 True True) s = Some s1"
      "mo_client s1" "mo_link s1 = Down" "mo_started s1" "mo_privateKey s1 = sample_key_text 5"
      "mo_serverPublicKey s1 = sample_server_pub" "mo_old s1 = mo_old s" by blast
  define s2 where "s2 = s1\<lparr>mo_link := Opened (length (mo_conns s1)), mo_conns := mo_conns s1 @
    [\<lparr>cn_remote = ''h'', cn_closed = False, cn_room = 9, cn_sent = []\<rparr>]\<rparr>"
  have "mobile_step ?E 1 (MOpened ''h'' 9) s1 = Some s2" using s1(2,3) by (simp add: s2_def)
  with mobile_run.step [OF assms(1) s1(1)] have r: "mobile_reached ?E s2" by (rule mobile_run.step)
  show ?thesis
    by (rule exI [of _ s2], rule exI [of _ "length (mo_conns s1)"])
      (use r s1(2,4-7) in \<open>simp add: s2_def\<close>)
qed

lemma sample_mobile_joins:
  assumes "mobile_reached sample_mobile_env s" and "mo_link s = Opened c" "\<not> cn_closed (mo_conns s ! c)"
    "cn_room (mo_conns s ! c) = 9" "mo_privateKey s = sample_key_text 5"
    "mo_serverPublicKey s = sample_server_pub"
  shows "\<exists>s1 p1 req. mobile_reached sample_mobile_env s1 \<and> mo_link s1 = Up c \<and> mo_reqID s1 = req \<and>
    req \<noteq> [] \<and> mo_old s1 = mo_old s \<and> c < length (mo_conns s1) \<and>
    DecodeMessage toy_json p1 = Inr (offer_of sample_running_conf req (dotted 0xAC13000A)) \<and>
    ValidateOffer (offer_of sample_running_conf req (dotted 0xAC13000A)) req = None"
proof -
  let ?E = sample_mobile_env
  from mobile_reached_inv [OF assms(1)] assms(2)
  have c: "c < length (mo_conns s)" "cn_sent (mo_conns s ! c) = []"
    by (simp_all add: mobile_inv_def link_ok_def)
  obtain ask req where ask: "EncodeDiscover toy_json (replicate 16 4) 1 = (ask, req)" by fastforce
  obtain p where p: "EncodeClientAuth toy_crypto (sample_key_text 5) sample_server_pub (replicate 16 9) =
     Inr (p, sample_id)" using sample_auth by (auto simp: sample_id_def)
  have room: "2 \<le> cn_room (mo_conns s ! c)" using assms(4) by simp
  have pk: "EncodeClientAuth (me_crypto ?E) (mo_privateKey s) (mo_serverPublicKey s) (replicate 16 9) =
      Inr (p, sample_id)"
    and ask': "EncodeDiscover (me_json ?E) (replicate 16 4) 1 = (ask, req)"
    using p ask by (simp_all only: assms(5,6) sample_mobile_env_def mobile_env.select_convs)
  from mobile_connects [OF assms(2) c assms(3) room pk ask'] obtain s1 where
    s1: "mobile_step ?E 1 (MConnect (replicate 16 9) (replicate 16 4)) s = Some s1" "mo_link s1 = Up c"
      "mo_reqID s1 = req" "mo_old s1 = mo_old s" "length (mo_conns s1) = length (mo_conns s)" by blast
  obtain l :: lease where l: "l_ip l = dotted 0xAC13000A" using sample_fresh by blast
  have req: "ascii req" by (rule ascii_discover [OF ask])
  have "req = hex_encode (replicate 16 4)" using ask by (simp add: EncodeDiscover_def Let_def NewRequestID_def)
  moreover have "hex_encode (replicate (Suc n) 4) \<noteq> []" for n by (simp add: hex_encode_def)
  then have "hex_encode (replicate 16 4) \<noteq> []" by (simp only: eval_nat_numeral not_False_eq_True)
  ultimately have ne: "req \<noteq> []" by simp
  have js: "json_ok (e_json sample_env)" by (simp only: json_env toy_json_ok)
  have asc: "ascii (l_ip l)" "l_ip l \<noteq> []" by (simp_all only: l dotted_plain simp_thms)
  note o = login_offer_decodes [OF js sample_offers asc(1) req asc(2), unfolded l json_env]
  have "mobile_reached ?E s1" by (rule mobile_run.step [OF assms(1) s1(1)])
  with s1(2-5) ne o c(1) show ?thesis by auto
qed

text \<open>A ready client whose earlier run has not ended: it was started, stopped and started again.\<close>

lemma sample_mobile_ready:
  "\<exists>s c. mobile_reached sample_mobile_env s \<and> mo_ready s \<and> mo_link s = Up c \<and> mo_started s \<and> 0 < mo_old s"
proof -
  let ?E = sample_mobile_env
  have "\<not> mo_started mobile_NewClient" by (simp add: mobile_NewClient_def)
  from sample_mobile_open [OF mobile_run.start this] obtain s1 where
    s1: "mobile_reached ?E s1" "mo_client s1" "mo_started s1" by blast
  have "mobile_step ?E 1 MStop s1 = Some (mobile_Stop s1)" by simp
  with s1(1) have "mobile_reached ?E (mobile_Stop s1)" by (rule mobile_run.step)
  from sample_mobile_open [OF this Stop_simps(1) [OF s1(3)]] obtain s3 c where
    s3: "mobile_reached ?E s3" "mo_link s3 = Opened c" "\<not> cn_closed (mo_conns s3 ! c)"
      "cn_room (mo_conns s3 ! c) = 9" "mo_privateKey s3 = sample_key_text 5"
      "mo_serverPublicKey s3 = sample_server_pub" "mo_old s3 = mo_old (mobile_Stop s1)" by blast
  from s3(7) s1(2,3) have old: "0 < mo_old s3" by (simp add: Stop_simps)
  from sample_mobile_joins [OF s3(1-6)] obtain s4 p1 req where
    s4: "mobile_reached ?E s4" "mo_link s4 = Up c" "mo_reqID s4 = req" "mo_old s4 = mo_old s3"
      "DecodeMessage toy_json p1 = Inr (offer_of sample_running_conf req (dotted 0xAC13000A))"
      "ValidateOffer (offer_of sample_running_conf req (dotted 0xAC13000A)) req = None" by blast
  have d: "DecodeMessage (me_json ?E) p1 = Inr (offer_of sample_running_conf req (dotted 0xAC13000A))"
    using s4(5) by (simp only: sample_mobile_env_def mobile_env.select_convs)
  from s4(3,6) have "ValidateOffer (offer_of sample_running_conf req (dotted 0xAC13000A)) (mo_reqID s4) = None"
    by (simp only:)
  from mobile_offered [OF s4(2) d this, of 1 True] obtain s5 where
    s5: "mobile_step ?E 1 (MMessage (Pack TypeVDHCP p1) True) s4 = Some s5" "mo_ready s5"
      "mo_link s5 = Up c" "mo_old s5 = mo_old s4" by blast
  have r5: "mobile_reached ?E s5" by (rule mobile_run.step [OF s4(1) s5(1)])
  with mobile_reached_inv [OF r5] s5(2-4) s4(4) old show ?thesis
    by (intro exI [of _ s5] exI [of _ c]) (simp add: mobile_inv_def ready_ok_def)
qed



theorem mobile_restart_race_witness:
  "\<exists>s s' c. mobile_reached sample_mobile_env s \<and> mo_ready s \<and> mo_link s = Up c \<and>
     mobile_step sample_mobile_env 1 MOldRunEnds s = Some s' \<and> mo_link s' = Up c \<and> mo_started s' \<and>
     \<not> mo_ready s' \<and> mobile_step sample_mobile_env 1 (MTunPacket [1]) s' = Some s'"
proof -
  obtain s c where s: "mobile_reached sample_mobile_env s" "mo_ready s" "mo_link s = Up c" "mo_started s"
    "0 < mo_old s" using sample_mobile_ready by blast
  from mobile_restart_race [OF s(5), of sample_mobile_env 1 "[1]"] s show ?thesis by metis
qed

theorem mobile_empty_request_witness:
  "\<exists>s s1 s2 s3 p1 p2 c. mobile_reached sample_mobile_env s \<and>
     mobile_step sample_mobile_env 1 (MMessage p1 True) s = Some s1 \<and>
     mobile_step sample_mobile_env 1 (MMessage p1 True) s1 = Some s2 \<and> cn_closed (mo_conns s2 ! c) \<and>
     mobile_step sample_mobile_env 1 (MMessage p2 True) s1 = Some s3 \<and> mo_ip s3 = dotted 0x0A000001"
proof -
  let ?E = sample_mobile_env
  have "\<not> mo_started mobile_NewClient" by (simp add: mobile_NewClient_def)
  from sample_mobile_open [OF mobile_run.start this] obtain s0 c where
    s0: "mobile_reached ?E s0" "mo_link s0 = Opened c" "\<not> cn_closed (mo_conns s0 ! c)"
      "cn_room (mo_conns s0 ! c) = 9" "mo_privateKey s0 = sample_key_text 5"
      "mo_serverPublicKey s0 = sample_server_pub" by blast
  from sample_mobile_joins [OF this] obtain s p1 req where
    s: "mobile_reached ?E s" "mo_link s = Up c" "mo_reqID s = req" "req \<noteq> []" "c < length (mo_conns s)"
      "DecodeMessage toy_json p1 = Inr (offer_of sample_running_conf req (dotted 0xAC13000A))"
      "ValidateOffer (offer_of sample_running_conf req (dotted 0xAC13000A)) req = None" by blast
  obtain l :: lease where l: "l_ip l = dotted 0x0A000001" by (rule that [of "undefined\<lparr>l_ip := _\<rparr>"]) simp
  have js: "json_ok (e_json sample_env)" by (simp only: json_env toy_json_ok)
  have asc: "ascii (l_ip l)" "l_ip l \<noteq> []" by (simp_all only: l dotted_plain simp_thms)
  have nil: "ascii []" by (simp add: ascii_def)
  note o = login_offer_decodes [OF js sample_offers asc(1) nil asc(2), unfolded l json_env]
  have d: "DecodeMessage (me_json ?E) p = DecodeMessage toy_json p" for p
    by (simp only: sample_mobile_env_def mobile_env.select_convs)
  have ip: "msg_ip (offer_of sample_running_conf [] (dotted 0x0A000001)) = dotted 0x0A000001"
    by (simp add: offer_of_def offer_message_def)
  from mobile_empty_request [OF s(2) trans [OF d s(6)] _ _ trans [OF d o(1)] o(2) s(5), of 1 True] s(1,3,4,7)
  show ?thesis unfolding ip by (simp only: s(3)) blast
qed

theorem mobile_gets_address_witness:
  "\<exists>k k1 k2 offer (s3 :: server). mobile_reached sample_mobile_env k \<and>
    mobile_step sample_mobile_env 1 (MConnect (replicate 16 9) (replicate 16 4)) k = Some k1 \<and>
    mobile_step sample_mobile_env 1 (MMessage offer True) k1 = Some k2 \<and> mo_ready k2 \<and>
    mo_ip k2 = dotted 0xAC13000A \<and> byIP (s_reg s3) (dotted 0xAC13000A) = Some 0"
proof -
  let ?E = sample_mobile_env
  have "\<not> mo_started mobile_NewClient" by (simp add: mobile_NewClient_def)
  from sample_mobile_open [OF mobile_run.start this] obtain k c where
    k: "mobile_reached ?E k" "mo_link k = Opened c" "\<not> cn_closed (mo_conns k ! c)"
      "cn_room (mo_conns k ! c) = 9" "mo_privateKey k = sample_key_text 5"
      "mo_serverPublicKey k = sample_server_pub" by blast
  obtain l m where l: "Acquire 1 sample_id (s_dhcp sample_start) = (Inr l, m)" "l_ip l = dotted 0xAC13000A"
    using sample_fresh by (auto simp: sample_start_def)
  obtain p where p: "EncodeClientAuth toy_crypto (sample_key_text 5) sample_server_pub (replicate 16 9) =
     Inr (p, sample_id)" using sample_auth by (auto simp: sample_id_def)
  have e: "me_crypto ?E = toy_crypto" "me_json ?E = toy_json"
    "e_crypto sample_env = toy_crypto" "e_json sample_env = toy_json"
    "s_conf sample_start = sample_running_conf" "s_conns sample_start = []" "s_peers sample_start = []"
    by (simp_all add: sample_mobile_env_def sample_env_def sample_start_def)
  have pub: "ecdh_pub toy_crypto (replicate 32 7) = replicate 32 7" by (simp add: toy_crypto_def)
  have room: "2 \<le> cn_room (mo_conns k ! c)" using k(4) by simp
  have "\<exists>k1 k2 hello ask offer s1 s2 s3.
    mobile_step ?E 1 (MConnect (replicate 16 9) (replicate 16 4)) k = Some k1 \<and>
    cn_sent (mo_conns k1 ! c) = [hello, ask] \<and>
    server_step sample_env 1 (Connect ''r'' 5) sample_start = Some s1 \<and>
    server_step sample_env 1 (Message (length (s_conns sample_start)) hello) s1 = Some s2 \<and>
    server_step sample_env 1 (Message (length (s_conns sample_start)) ask) s2 = Some s3 \<and>
    cn_sent (s_conns s3 ! length (s_conns sample_start)) = [offer] \<and>
    mobile_step ?E 1 (MMessage offer True) k1 = Some k2 \<and> mo_ready k2 \<and> mo_link k2 = Up c \<and>
    mo_ip k2 = l_ip l \<and> mo_mask k2 = v_mask (sv_vdhcp (s_conf sample_start)) \<and>
    byIP (s_reg s3) (l_ip l) = Some (length (s_peers sample_start)) \<and>
    p_id (peer_at s3 (length (s_peers sample_start))) = sample_id \<and>
    ownsIP (l_ip l) (peer_at s3 (length (s_peers sample_start)))"
    by (rule mobile_gets_address [OF sample_NewServer server_run.start k(1-3) room
          _ _ _ _ _ _ _ _ l(1), where auth = p])
      (use p k(5,6) pub [symmetric] sample_offers toy_laws(1,4) toy_json_ok in \<open>simp_all add: e\<close>)
  then obtain k1 k2 offer and s3 :: server where
    "mobile_step ?E 1 (MConnect (replicate 16 9) (replicate 16 4)) k = Some k1"
    "mobile_step ?E 1 (MMessage offer True) k1 = Some k2" "mo_ready k2" "mo_ip k2 = l_ip l"
    "byIP (s_reg s3) (l_ip l) = Some 0"
    unfolding e list.size(3) by (elim exE conjE) (erule (4) that)
  with k(1) l(2) show ?thesis by (auto simp del: mobile_step.simps)
qed

end
