(* ===== verification/Server_Admin.thy ===== *)
theory Server_Admin
  imports Server_Safety
begin

text \<open>
  \<^verbatim>\<open>vlan/management.go\<close>, the traffic queries of \<^verbatim>\<open>vlan/server.go\<close>, and the start and the end of a
  server's life. Requests are what the HTTP server hands to the handler, with the path as the
  router cleans it; the JSON text of an answer is not modelled, its content is. A Go map is read
  in the order of the model's list. A sum of floating-point rates is the list of its summands.
\<close>

section \<open>Traffic queries\<close>

definition peer_snapshot :: "int \<Rightarrow> nat \<Rightarrow> server \<Rightarrow> traffic_stats \<times> server" where
  "peer_snapshot now i s =
     (let (st, t) = tcSnapshot now (p_stats (peer_at s i))
      in (st, upd_peer i (\<lambda>p. p\<lparr>p_stats := t\<rparr>) s))"

definition GetTrafficStatsByIP :: "int \<Rightarrow> string \<Rightarrow> server \<Rightarrow> traffic_stats option \<times> server" where
  "GetTrafficStatsByIP now virtualIP s =
     (case byIP (s_reg s) virtualIP of
        None \<Rightarrow> (None, s)
      | Some i \<Rightarrow> apfst Some (peer_snapshot now i s))"

definition GetTrafficStatsByDeviceID :: "int \<Rightarrow> string \<Rightarrow> server \<Rightarrow> traffic_stats option \<times> server" where
  "GetTrafficStatsByDeviceID now deviceID s =
     (case byID (s_reg s) deviceID of
        None \<Rightarrow> (None, s)
      | Some i \<Rightarrow> apfst Some (peer_snapshot now i s))"

record peer_traffic_info =
  pt_device :: string
  pt_ip :: string
  pt_remote :: string
  pt_stats :: traffic_stats

text \<open>The clock is read once for every peer; \<open>clk k\<close> is the \<open>k\<close>-th reading.\<close>

fun traffic_loop :: "(nat \<Rightarrow> int) \<Rightarrow> nat \<Rightarrow> nat list \<Rightarrow> server \<Rightarrow> peer_traffic_info list \<times> server" where
  "traffic_loop clk k [] s = ([], s)"
| "traffic_loop clk k (i # is) s =
     (case peer_snapshot (clk k) i s of (st, s1) \<Rightarrow>
        apfst ((#) \<lparr>pt_device = p_id (peer_at s1 i), pt_ip = p_ip (peer_at s1 i),
                    pt_remote = remoteAddr i s1, pt_stats = st\<rparr>)
          (traffic_loop clk (Suc k) is s1))"

definition ListPeerTraffic :: "(nat \<Rightarrow> int) \<Rightarrow> server \<Rightarrow> peer_traffic_info list \<times> server" where
  "ListPeerTraffic clk s = traffic_loop clk 0 (withIP (s_reg s)) s"

section \<open>Answers of the management interface\<close>

record management_peer_info =
  mp_id :: string
  mp_ip :: string
  mp_remote :: string
  mp_authed :: bool
  mp_assigned :: bool
  mp_stats :: traffic_stats

fun peers_loop :: "(nat \<Rightarrow> int) \<Rightarrow> nat \<Rightarrow> nat list \<Rightarrow> server \<Rightarrow> management_peer_info list \<times> server" where
  "peers_loop clk k [] s = ([], s)"
| "peers_loop clk k (i # is) s =
     (case peer_snapshot (clk k) i s of (st, s1) \<Rightarrow>
        let clientID = p_id (peer_at s1 i); virtualIP = p_ip (peer_at s1 i)
        in apfst ((#) \<lparr>mp_id = clientID, mp_ip = virtualIP, mp_remote = remoteAddr i s1,
                       mp_authed = (clientID \<noteq> []), mp_assigned = (virtualIP \<noteq> []),
                       mp_stats = st\<rparr>)
             (peers_loop clk (Suc k) is s1))"

definition managementPeers :: "(nat \<Rightarrow> int) \<Rightarrow> server \<Rightarrow> management_peer_info list \<times> server" where
  "managementPeers clk s = peers_loop clk 0 (reg_all (s_reg s)) s"

record management_traffic =
  mt_up :: "64 word"
  mt_down :: "64 word"
  mt_upRates :: "(64 word \<times> int) list"
  mt_downRates :: "(64 word \<times> int) list"

definition zero_traffic :: management_traffic where
  "zero_traffic = \<lparr>mt_up = 0, mt_down = 0, mt_upRates = [], mt_downRates = []\<rparr>"

definition add_traffic :: "management_peer_info \<Rightarrow> management_traffic \<Rightarrow> management_traffic" where
  "add_traffic p t =
     \<lparr>mt_up = mt_up t + ts_up (mp_stats p), mt_down = mt_down t + ts_down (mp_stats p),
      mt_upRates = mt_upRates t @ [ts_upRate (mp_stats p)],
      mt_downRates = mt_downRates t @ [ts_downRate (mp_stats p)]\<rparr>"

record management_status =
  ms_started :: int
  ms_uptime :: int
  ms_port :: int
  ms_ifName :: string
  ms_mtu :: int
  ms_proxy :: bool
  ms_peers :: nat
  ms_authed :: nat
  ms_assigned :: nat
  ms_traffic :: management_traffic
  ms_vdhcp :: vdhcp_config

datatype http_body =
    NoBody
  | ErrorBody string
  | IndexBody "string list"
  | StatusBody management_status
  | PeersBody "management_peer_info list"
  | TrafficBody management_traffic
  | LeasesBody "lease list"
  | EventsBody "management_event list"

record http_request =
  rq_method :: string
  rq_path :: string
  rq_token :: string
  rq_authorization :: string

record http_response =
  rs_code :: nat
  rs_body :: http_body

definition managementIndex :: http_response where
  "managementIndex =
     \<lparr>rs_code = 200, rs_body = IndexBody [''/api/status'', ''/api/peers'', ''/api/traffic'',
        ''/api/vdhcp/leases'', ''/api/events'']\<rparr>"

definition count_peers :: "('a \<Rightarrow> bool) \<Rightarrow> 'a list \<Rightarrow> nat" where
  "count_peers P ps = fold (\<lambda>p n. if P p then n + 1 else n) ps 0"

definition handleManagementStatus ::
    "int \<Rightarrow> int \<Rightarrow> (nat \<Rightarrow> int) \<Rightarrow> server \<Rightarrow> http_response \<times> server" where
  "handleManagementStatus startedAt now clk s =
     (case managementPeers clk s of (peers, s1) \<Rightarrow>
        (\<lparr>rs_code = 200, rs_body = StatusBody
            \<lparr>ms_started = startedAt, ms_uptime = (now - startedAt) div second,
             ms_port = sv_port (s_conf s), ms_ifName = sv_ifName (s_conf s),
             ms_mtu = sv_mtu (s_conf s), ms_proxy = sv_proxy (s_conf s),
             ms_peers = length peers, ms_authed = count_peers mp_authed peers,
             ms_assigned = count_peers mp_assigned peers,
             ms_traffic = fold add_traffic peers zero_traffic,
             ms_vdhcp = sv_vdhcp (s_conf s)\<rparr>\<rparr>, s1))"

definition handleManagementPeers :: "(nat \<Rightarrow> int) \<Rightarrow> server \<Rightarrow> http_response \<times> server" where
  "handleManagementPeers clk s =
     (case managementPeers clk s of (peers, s1) \<Rightarrow>
        (\<lparr>rs_code = 200, rs_body = PeersBody peers\<rparr>, s1))"

definition handleManagementTraffic :: "(nat \<Rightarrow> int) \<Rightarrow> server \<Rightarrow> http_response \<times> server" where
  "handleManagementTraffic clk s =
     (case managementPeers clk s of (peers, s1) \<Rightarrow>
        (\<lparr>rs_code = 200, rs_body = TrafficBody (fold add_traffic peers zero_traffic)\<rparr>, s1))"

definition handleManagementLeases :: "server \<Rightarrow> http_response \<times> server" where
  "handleManagementLeases s =
     (\<lparr>rs_code = 200, rs_body = LeasesBody (Snapshot (s_dhcp s))\<rparr>, s)"

definition handleManagementEvents :: "server \<Rightarrow> http_response \<times> server" where
  "handleManagementEvents s =
     (\<lparr>rs_code = 200, rs_body = EventsBody (managementEventsSnapshot (s_log s))\<rparr>, s)"

section \<open>Routing and authorization\<close>

definition managementAddr :: "server_config \<Rightarrow> string option" where
  "managementAddr conf =
     (if \<not> g_enabled (sv_management conf) then None
      else let addr = trim_space (g_addr (sv_management conf))
           in Some (if addr = [] then ''127.0.0.1:18080'' else addr))"

definition management_routes ::
    "int \<Rightarrow> int \<Rightarrow> (nat \<Rightarrow> int) \<Rightarrow> http_request \<Rightarrow> server \<Rightarrow> http_response \<times> server" where
  "management_routes startedAt now clk r s =
     (let p = rq_path r in
      if p = ''/api/status'' then handleManagementStatus startedAt now clk s
      else if p = ''/api/peers'' then handleManagementPeers clk s
      else if p = ''/api/traffic'' then handleManagementTraffic clk s
      else if p = ''/api/vdhcp/leases'' then handleManagementLeases s
      else if p = ''/api/events'' then handleManagementEvents s
      else if p = ''/api'' \<or> take 5 p = ''/api/'' then (managementIndex, s)
      else (\<lparr>rs_code = 404, rs_body = NoBody\<rparr>, s))"

definition managementAuthorized :: "server_config \<Rightarrow> http_request \<Rightarrow> bool" where
  "managementAuthorized conf r =
     (let token = trim_space (g_token (sv_management conf))
      in if token = [] then True
         else if rq_token r = token then True
         else rq_authorization r = ''Bearer '' @ token)"

definition managementMiddleware ::
    "(http_request \<Rightarrow> server \<Rightarrow> http_response \<times> server) \<Rightarrow>
     http_request \<Rightarrow> server \<Rightarrow> http_response \<times> server" where
  "managementMiddleware nxt r s =
     (if rq_method r = ''OPTIONS'' then (\<lparr>rs_code = 204, rs_body = NoBody\<rparr>, s)
      else if rq_method r \<noteq> ''GET''
        then (\<lparr>rs_code = 405, rs_body = ErrorBody ''method not allowed''\<rparr>, s)
      else if \<not> managementAuthorized (s_conf s) r
        then (\<lparr>rs_code = 401, rs_body = ErrorBody ''unauthorized''\<rparr>, s)
      else nxt r s)"

definition management_answer ::
    "int \<Rightarrow> int \<Rightarrow> (nat \<Rightarrow> int) \<Rightarrow> http_request \<Rightarrow> server \<Rightarrow> http_response \<times> server" where
  "management_answer startedAt now clk r s =
     managementMiddleware (management_routes startedAt now clk) r s"

section \<open>Stop\<close>

text \<open>The peers at \<^verbatim>\<open>Stop\<close>.\<close>

definition server_stop :: "server \<Rightarrow> server" where
  "server_stop s = fold peer_close (reg_all (s_reg s)) s"

section \<open>What observers change\<close>

text \<open>A query changes nothing but the marks from which the rates are computed.\<close>

definition unmarked :: "peer \<Rightarrow> peer" where
  "unmarked p = p\<lparr>p_stats := (p_stats p)\<lparr>tc_lastUp := 0, tc_lastDown := 0, tc_lastNano := 0\<rparr>\<rparr>"

definition view :: "server \<Rightarrow> server" where
  "view s = s\<lparr>s_peers := map unmarked (s_peers s)\<rparr>"

lemma unmarked_snapshot: "unmarked (p\<lparr>p_stats := snd (tcSnapshot now (p_stats p))\<rparr>) = unmarked p"
  by (simp add: unmarked_def tcSnapshot_def Let_def)

lemma ts_snapshot:
  "ts_up (fst (tcSnapshot now t)) = tc_up t" "ts_down (fst (tcSnapshot now t)) = tc_down t"
  by (simp_all add: tcSnapshot_def Let_def)

lemma view_peer_snapshot: "view (snd (peer_snapshot now i s)) = view s"
proof (cases "i < length (s_peers s)")
  case True
  have "map unmarked ((s_peers s)[i := (peer_at s i)\<lparr>p_stats := snd (tcSnapshot now (p_stats (peer_at s i)))\<rparr>])
      = map unmarked (s_peers s)"
    by (simp add: map_update unmarked_snapshot True list_update_same_conv)
  then show ?thesis
    by (simp add: peer_snapshot_def view_def upd_peer_def case_prod_beta)
next
  case False
  then show ?thesis
    by (simp add: peer_snapshot_def view_def upd_peer_def list_update_beyond case_prod_beta)
qed

lemma view_peerD:
  assumes "view s = view t" and "i < length (s_peers t)"
  shows "p_id (peer_at s i) = p_id (peer_at t i)" "p_ip (peer_at s i) = p_ip (peer_at t i)"
    "p_conn (peer_at s i) = p_conn (peer_at t i)"
    "tc_up (p_stats (peer_at s i)) = tc_up (p_stats (peer_at t i))"
    "tc_down (p_stats (peer_at s i)) = tc_down (p_stats (peer_at t i))"
proof -
  have m: "map unmarked (s_peers s) = map unmarked (s_peers t)"
    using arg_cong [OF assms(1), of s_peers] by (simp add: view_def)
  then have "length (s_peers s) = length (s_peers t)" by (rule map_eq_imp_length_eq)
  then have u: "unmarked (peer_at s i) = unmarked (peer_at t i)"
    using arg_cong [OF m, of "\<lambda>xs. xs ! i"] assms(2) by simp
  from arg_cong [OF u, of p_id] arg_cong [OF u, of p_ip] arg_cong [OF u, of p_conn]
    arg_cong [OF u, of "\<lambda>p. tc_up (p_stats p)"] arg_cong [OF u, of "\<lambda>p. tc_down (p_stats p)"]
  show "p_id (peer_at s i) = p_id (peer_at t i)" "p_ip (peer_at s i) = p_ip (peer_at t i)"
    "p_conn (peer_at s i) = p_conn (peer_at t i)"
    "tc_up (p_stats (peer_at s i)) = tc_up (p_stats (peer_at t i))"
    "tc_down (p_stats (peer_at s i)) = tc_down (p_stats (peer_at t i))"
    by (simp_all add: unmarked_def)
qed

lemma view_same: "view s = view t \<Longrightarrow> s_reg s = s_reg t \<and> s_conns s = s_conns t \<and> s_conf s = s_conf t \<and>
    s_dhcp s = s_dhcp t \<and> s_tun s = s_tun t \<and> length (s_peers s) = length (s_peers t)"
  by (cases s; cases t) (auto simp: view_def dest: map_eq_imp_length_eq)

text \<open>What the loop reports of one peer.\<close>

definition reports :: "server \<Rightarrow> nat \<Rightarrow> management_peer_info \<Rightarrow> bool" where
  "reports s i p \<longleftrightarrow> mp_id p = p_id (peer_at s i) \<and> mp_ip p = p_ip (peer_at s i) \<and>
     mp_remote p = remoteAddr i s \<and> mp_authed p = authed (peer_at s i) \<and>
     mp_assigned p = (p_ip (peer_at s i) \<noteq> []) \<and>
     ts_up (mp_stats p) = tc_up (p_stats (peer_at s i)) \<and>
     ts_down (mp_stats p) = tc_down (p_stats (peer_at s i))"

lemma reports_view:
  assumes "view s = view t" and "i < length (s_peers t)"
  shows "reports s i p = reports t i p"
  using view_peerD [OF assms] view_same [OF assms(1)]
  by (simp add: reports_def remoteAddr_def authed_def)

lemma peers_loop_ok:
  assumes "\<forall>i\<in>set is. i < length (s_peers s)"
  shows "view (snd (peers_loop clk k is s)) = view s \<and>
    list_all2 (reports s) is (fst (peers_loop clk k is s))"
  using assms
proof (induction "is" arbitrary: k s)
  case Nil
  then show ?case by simp
next
  case (Cons i "is")
  obtain st s1 where ps: "peer_snapshot (clk k) i s = (st, s1)" by fastforce
  have v: "view s1 = view s" using view_peer_snapshot [of "clk k" i s] by (simp add: ps)
  have l: "length (s_peers s1) = length (s_peers s)" using view_same [OF v] by simp
  have st: "st = fst (tcSnapshot (clk k) (p_stats (peer_at s i)))"
    using ps by (simp add: peer_snapshot_def split: prod.splits)
  have i: "i < length (s_peers s)" using Cons.prems by simp
  note IH = Cons.IH [of s1 "Suc k"]
  have 1: "view (snd (peers_loop clk (Suc k) is s1)) = view s"
    "list_all2 (reports s1) is (fst (peers_loop clk (Suc k) is s1))"
    using IH Cons.prems l v by simp_all
  from 1(2) have 2: "list_all2 (reports s) is (fst (peers_loop clk (Suc k) is s1))"
    using reports_view [OF v] Cons.prems by (auto simp: list_all2_conv_all_nth)
  show ?case
    using 1(1) 2 view_peerD [OF v i] view_same [OF v]
    by (simp add: ps Let_def split: prod.split)
      (auto simp: reports_def remoteAddr_def authed_def st ts_snapshot)
qed

lemma reg_all_bound:
  assumes "server_inv E s" and "i \<in> set (reg_all (s_reg s))"
  shows "i < length (s_peers s)"
proof -
  have r: "reg_ok (s_peers s) (s_reg s)" using assms(1) by (simp add: server_inv_def)
  then have k: "reg_keys (s_reg s)" by (rule reg_okD)
  from assms(2) consider c where "(c, i) \<in> set (r_conns (s_reg s))"
    | ip where "(ip, i) \<in> set (r_ips (s_reg s))"
    by (auto simp: reg_all_def)
  then show ?thesis
    using reg_okD(1,2) [OF r] k by cases (auto simp: reg_keys_def dest: map_of_is_SomeI)
qed

lemma count_filter: "count_peers P ps = length (filter P ps)"
proof -
  have "fold (\<lambda>p n. if P p then n + 1 else n) ps k = k + length (filter P ps)" for k
    by (induction ps arbitrary: k) auto
  then show ?thesis by (simp add: count_peers_def)
qed

lemma fold_traffic:
  "mt_up (fold add_traffic ps t) = mt_up t + sum_list (map (\<lambda>p. ts_up (mp_stats p)) ps) \<and>
   mt_down (fold add_traffic ps t) = mt_down t + sum_list (map (\<lambda>p. ts_down (mp_stats p)) ps)"
  by (induction ps arbitrary: t) (simp_all add: add_traffic_def add.assoc)

lemma reports_map:
  assumes "list_all2 (reports s) is ps" and "\<And>i p. reports s i p \<Longrightarrow> f p = g i"
  shows "map f ps = map g is"
  using assms by (auto simp: list_all2_conv_all_nth intro!: nth_equalityI)

lemma reports_filter:
  assumes "list_all2 (reports s) is ps" and "\<And>i p. reports s i p \<Longrightarrow> P p = Q i"
  shows "length (filter P ps) = length (filter Q is)"
  using assms by (induction rule: list_all2_induct) auto

lemma data_answers:
  "rs_code (fst (handleManagementStatus started now clk s)) = 200"
  "rs_code (fst (handleManagementPeers clk s)) = 200"
  "rs_code (fst (handleManagementTraffic clk s)) = 200"
  "rs_code (fst (handleManagementLeases s)) = 200"
  "rs_code (fst (handleManagementEvents s)) = 200"
  by (simp_all add: handleManagementStatus_def handleManagementPeers_def handleManagementTraffic_def
      handleManagementLeases_def handleManagementEvents_def split: prod.split)

section \<open>Properties\<close>

text \<open>
  C20: The management interface is guarded. An answer with data is given exactly to a GET request
  for a path of the interface that is authorized: the trimmed token of the configuration is
  empty, or one of the two headers carries it. Every other request is answered without data and
  leaves the server as it is.
\<close>

theorem management_guarded:
  assumes "management_answer started now clk r s = (resp, s')"
    and "token = trim_space (g_token (sv_management (s_conf s)))"
  shows "(rs_code resp = 200 \<longleftrightarrow>
      rq_method r = ''GET'' \<and> (rq_path r = ''/api'' \<or> take 5 (rq_path r) = ''/api/'') \<and>
      (token = [] \<or> rq_token r = token \<or> rq_authorization r = ''Bearer '' @ token)) \<and>
    (rs_code resp \<noteq> 200 \<longrightarrow> s' = s \<and>
      rs_body resp \<in> {NoBody, ErrorBody ''unauthorized'', ErrorBody ''method not allowed''})"
proof -
  have routes: "rs_code (fst (management_routes started now clk r s)) = 200 \<longleftrightarrow>
      rq_path r = ''/api'' \<or> take 5 (rq_path r) = ''/api/''"
    "rs_code (fst (management_routes started now clk r s)) \<noteq> 200 \<Longrightarrow>
      management_routes started now clk r s = (\<lparr>rs_code = 404, rs_body = NoBody\<rparr>, s)"
    by (auto simp: management_routes_def Let_def data_answers managementIndex_def split: if_splits)
  have "rs_code resp = 200 \<longleftrightarrow>
      rq_method r = ''GET'' \<and> (rq_path r = ''/api'' \<or> take 5 (rq_path r) = ''/api/'') \<and>
      (token = [] \<or> rq_token r = token \<or> rq_authorization r = ''Bearer '' @ token)"
    using assms routes(1)
    by (auto simp: management_answer_def managementMiddleware_def managementAuthorized_def Let_def
        split: if_splits)
  moreover have "s' = s \<and>
      rs_body resp \<in> {NoBody, ErrorBody ''unauthorized'', ErrorBody ''method not allowed''}"
    if "rs_code resp \<noteq> 200"
    using assms(1) that routes(2)
    by (auto simp: management_answer_def managementMiddleware_def split: if_splits)
  ultimately show ?thesis by blast
qed

theorem management_guarded_witness:
  "rs_code (fst (management_answer 0 5 (\<lambda>k. 5)
     \<lparr>rq_method = ''GET'', rq_path = ''/api/events'', rq_token = [], rq_authorization = ''Bearer x''\<rparr>
     (sample_start\<lparr>s_conf := (s_conf sample_start)
        \<lparr>sv_management := \<lparr>g_enabled = True, g_addr = [], g_token = ''secret''\<rparr>\<rparr>\<rparr>))) \<noteq> 200"
proof -
  have "trim_space ''secret'' = ''secret''" by (rule trim_space_visible) (simp_all add: visible_def)
  then show ?thesis
    using management_guarded [OF surjective_pairing refl, of 0 5 "\<lambda>k. 5"
      "\<lparr>rq_method = ''GET'', rq_path = ''/api/events'', rq_token = [], rq_authorization = ''Bearer x''\<rparr>"
      "sample_start\<lparr>s_conf := (s_conf sample_start)
        \<lparr>sv_management := \<lparr>g_enabled = True, g_addr = [], g_token = ''secret''\<rparr>\<rparr>\<rparr>"]
    by simp
qed

text \<open>
  The status is true. For a server in any reachable state, an authorized request for the
  status is answered with the number of registered peers, how many of them have proved an
  identity and how many have an address, and the sums of their byte counters; it leaves the server
  as it was but for the marks the rates are computed from.
\<close>

theorem status_exact:
  assumes "NewServer conf = Inr s0" and "server_run E s0 s"
    and "rq_method r = ''GET''" and "rq_path r = ''/api/status''" and "managementAuthorized (s_conf s) r"
  shows "\<exists>st s'. management_answer started now clk r s = (\<lparr>rs_code = 200, rs_body = StatusBody st\<rparr>, s') \<and>
    view s' = view s \<and> ms_peers st = length (reg_all (s_reg s)) \<and>
    ms_authed st = length (filter (\<lambda>i. authed (peer_at s i)) (reg_all (s_reg s))) \<and>
    ms_assigned st = length (filter (\<lambda>i. p_ip (peer_at s i) \<noteq> []) (reg_all (s_reg s))) \<and>
    mt_up (ms_traffic st) = sum_list (map (\<lambda>i. tc_up (p_stats (peer_at s i))) (reg_all (s_reg s))) \<and>
    mt_down (ms_traffic st) = sum_list (map (\<lambda>i. tc_down (p_stats (peer_at s i))) (reg_all (s_reg s)))"
proof -
  have "server_inv E s" by (rule run_inv [OF assms(2) NewServer_inv [OF assms(1)]])
  then have "\<forall>i\<in>set (reg_all (s_reg s)). i < length (s_peers s)" using reg_all_bound by blast
  note pl = peers_loop_ok [OF this, of clk 0]
  obtain ps s' where m: "peers_loop clk 0 (reg_all (s_reg s)) s = (ps, s')" by fastforce
  with pl have v: "view s' = view s" and l: "list_all2 (reports s) (reg_all (s_reg s)) ps" by simp_all
  have "length ps = length (reg_all (s_reg s))" using l by (simp add: list_all2_lengthD)
  moreover have "map (\<lambda>p. ts_up (mp_stats p)) ps =
      map (\<lambda>i. tc_up (p_stats (peer_at s i))) (reg_all (s_reg s))"
    "map (\<lambda>p. ts_down (mp_stats p)) ps =
      map (\<lambda>i. tc_down (p_stats (peer_at s i))) (reg_all (s_reg s))"
    by (rule reports_map [OF l]; simp add: reports_def)+
  moreover have "length (filter mp_authed ps) =
      length (filter (\<lambda>i. authed (peer_at s i)) (reg_all (s_reg s)))"
    "length (filter mp_assigned ps) =
      length (filter (\<lambda>i. p_ip (peer_at s i) \<noteq> []) (reg_all (s_reg s)))"
    by (rule reports_filter [OF l]; simp add: reports_def)+
  ultimately show ?thesis
    using assms(3-5) v
    by (simp add: management_answer_def managementMiddleware_def management_routes_def
        handleManagementStatus_def managementPeers_def m count_filter fold_traffic
        zero_traffic_def)
qed

theorem status_exact_witness:
  "\<exists>s st s'. server_run sample_env sample_start s \<and>
     management_answer 0 9 (\<lambda>k. 9)
       \<lparr>rq_method = ''GET'', rq_path = ''/api/status'', rq_token = [], rq_authorization = []\<rparr> s =
       (\<lparr>rs_code = 200, rs_body = StatusBody st\<rparr>, s') \<and>
     ms_peers st = length (reg_all (s_reg s))"
proof -
  obtain s where s: "server_run sample_env sample_start s" "s_conf s = sample_running_conf"
    using reconnected by blast
  have "trim_space [] = []" by (simp add: trim_space_def strip_front.simps space_runes_def starts_with_def)
  then have "managementAuthorized (s_conf s)
      \<lparr>rq_method = ''GET'', rq_path = ''/api/status'', rq_token = [], rq_authorization = []\<rparr>"
    by (simp add: s(2) managementAuthorized_def sample_running_conf_def applyServerDefaults_def
        sample_server_conf_def)
  from status_exact [OF sample_NewServer s(1) _ _ this, of 0 9 "\<lambda>k. 9"] s(1) show ?thesis by auto
qed

end
