(* ===== verification/Tun_NAT.thy ===== *)
theory Tun_NAT
  imports Tun_Commands
begin

text \<open>
  \<^verbatim>\<open>tunSetup/server_gateway.go\<close>: forwarding and address translation on the server. The four calls
  of \<open>ensureIptablesRule\<close> with their early returns are one recursion over the four rules.
\<close>

section \<open>Rules\<close>

record nat_state =
  ns_active :: bool
  ns_ifName :: string
  ns_egressIf :: string
  ns_subnet :: string
  ns_oldForward :: string

definition no_nat :: nat_state where
  "no_nat = \<lparr>ns_active = False, ns_ifName = [], ns_egressIf = [], ns_subnet = [], ns_oldForward = []\<rparr>"

type_synonym rule = "string \<times> string \<times> string list"

definition rule_cmd :: "string \<Rightarrow> rule \<Rightarrow> string list" where
  "rule_cmd act r =
     (case r of (tbl, ch, args) \<Rightarrow> [''iptables'', ''-t'', tbl, act, ch] @ args)"

definition ensureIptablesRule :: "host_env \<Rightarrow> rule \<Rightarrow> cmd_log \<Rightarrow> tun_error option \<times> cmd_log" where
  "ensureIptablesRule E r log =
     (case exec_cmd E (rule_cmd ''-C'' r) log of
        (True, log1) \<Rightarrow> (None, log1)
      | (False, log1) \<Rightarrow>
          (case exec_cmd E (rule_cmd ''-A'' r) log1 of
             (False, log2) \<Rightarrow> (Some (case r of (tbl, ch, args) \<Rightarrow> IptablesFailed tbl ch args), log2)
           | (True, log2) \<Rightarrow> (None, log2)))"

definition deleteIptablesRule :: "host_env \<Rightarrow> rule \<Rightarrow> cmd_log \<Rightarrow> tun_error option \<times> cmd_log" where
  "deleteIptablesRule E r log =
     (case exec_cmd E (rule_cmd ''-C'' r) log of
        (False, log1) \<Rightarrow> (None, log1)
      | (True, log1) \<Rightarrow>
          (case exec_cmd E (rule_cmd ''-D'' r) log1 of
             (False, log2) \<Rightarrow> (Some (case r of (tbl, ch, args) \<Rightarrow> IptablesFailed tbl ch args), log2)
           | (True, log2) \<Rightarrow> (None, log2)))"

definition nat_rules :: "string \<Rightarrow> string \<Rightarrow> string \<Rightarrow> rule list" where
  "nat_rules ifName egressIf subnet =
     [(''filter'', ''FORWARD'', [''-i'', ifName, ''-o'', egressIf, ''-j'', ''ACCEPT'']),
      (''filter'', ''FORWARD'', [''-i'', egressIf, ''-o'', ifName, ''-m'', ''state'', ''--state'',
         ''RELATED,ESTABLISHED'', ''-j'', ''ACCEPT'']),
      (''nat'', ''POSTROUTING'', [''-s'', subnet, ''-o'', egressIf, ''-j'', ''MASQUERADE'']),
      (''mangle'', ''FORWARD'', [''-i'', ifName, ''-p'', ''tcp'', ''--tcp-flags'', ''SYN,RST'', ''SYN'',
         ''-j'', ''TCPMSS'', ''--clamp-mss-to-pmtu''])]"

fun ensure_all :: "host_env \<Rightarrow> rule list \<Rightarrow> cmd_log \<Rightarrow> tun_error option \<times> cmd_log" where
  "ensure_all E [] log = (None, log)"
| "ensure_all E (r # rs) log =
     (case ensureIptablesRule E r log of
        (Some e, log1) \<Rightarrow> (Some e, log1)
      | (None, log1) \<Rightarrow> ensure_all E rs log1)"

fun delete_all :: "host_env \<Rightarrow> rule list \<Rightarrow> cmd_log \<Rightarrow> cmd_log" where
  "delete_all E [] log = log"
| "delete_all E (r # rs) log = delete_all E rs (snd (deleteIptablesRule E r log))"

section \<open>Switching on and off\<close>

definition networkAddr :: "string \<Rightarrow> string \<Rightarrow> string" where
  "networkAddr ip msk =
     (case (parse_v4 ip, parse_v4 msk) of
        (Some a, Some m) \<Rightarrow>
          v4_string [a ! 0 AND m ! 0, a ! 1 AND m ! 1, a ! 2 AND m ! 2, a ! 3 AND m ! 3]
      | _ \<Rightarrow> ip)"

text \<open>The shell pipeline whose output is taken; its text is one argument of \<^verbatim>\<open>sh -c\<close>.\<close>

definition egress_script :: string where
  "egress_script =
     ''ip route get 1.1.1.1 | awk '' @ [CHR 0x27] @
     ''/dev/ {for(i=1;i<=NF;i++) if($i=='' @ [CHR 0x22] @ ''dev'' @ [CHR 0x22] @
     ''){print $(i+1); exit}}'' @ [CHR 0x27]"

definition detectDefaultEgressIf :: "host_env \<Rightarrow> cmd_log \<Rightarrow> (tun_error + string) \<times> cmd_log" where
  "detectDefaultEgressIf E log =
     (case exec_output E [''sh'', ''-c'', egress_script] log of
        (ok, out, log1) \<Rightarrow>
          (if \<not> ok then Inl EgressFailed
           else let iface = trim_space out in if iface = [] then Inl EgressEmpty else Inr iface, log1))"

definition disableServerGatewayNATLocked ::
    "host_env \<Rightarrow> nat_state \<Rightarrow> cmd_log \<Rightarrow> nat_state \<times> cmd_log" where
  "disableServerGatewayNATLocked E st log =
     (if \<not> ns_active st then (st, log)
      else
        let log1 = delete_all E (rev (nat_rules (ns_ifName st) (ns_egressIf st) (ns_subnet st))) log;
            log2 = (if ns_oldForward st \<noteq> []
                    then snd (exec_cmd E [''sysctl'', ''-w'', ''net.ipv4.ip_forward='' @ ns_oldForward st] log1)
                    else log1)
        in (no_nat, log2))"

definition DisableServerGatewayNAT :: "host_env \<Rightarrow> nat_state \<Rightarrow> cmd_log \<Rightarrow> nat_state \<times> cmd_log" where
  "DisableServerGatewayNAT E st log = disableServerGatewayNATLocked E st log"

definition EnableServerGatewayNAT ::
    "host_env \<Rightarrow> string \<Rightarrow> string \<Rightarrow> string \<Rightarrow> nat_state \<Rightarrow> cmd_log \<Rightarrow>
     tun_error option \<times> nat_state \<times> cmd_log" where
  "EnableServerGatewayNAT E ifName gatewayIP msk st0 log0 =
     (let (st, log) = (if ns_active st0 then disableServerGatewayNATLocked E st0 log0 else (st0, log0))
      in case tun_MaskToPrefix msk of
           Inl e \<Rightarrow> (Some e, st, log)
         | Inr prefix \<Rightarrow>
             let subnet = networkAddr gatewayIP msk @ ''/'' @ decimal prefix
             in case detectDefaultEgressIf E log of
                  (Inl e, log1) \<Rightarrow> (Some e, st, log1)
                | (Inr egressIf, log1) \<Rightarrow>
                    (case exec_output E [''sysctl'', ''-n'', ''net.ipv4.ip_forward''] log1 of
                       (_, out, log2) \<Rightarrow>
                         let old = trim_space out;
                             oldForward = (if old = [] then ''0'' else old)
                         in case exec_err E [''sysctl'', ''-w'', ''net.ipv4.ip_forward=1''] log2 of
                              (Some e, log3) \<Rightarrow> (Some e, st, log3)
                            | (None, log3) \<Rightarrow>
                                (case ensure_all E (nat_rules ifName egressIf subnet) log3 of
                                   (Some e, log4) \<Rightarrow> (Some e, st, log4)
                                 | (None, log4) \<Rightarrow>
                                     (None, \<lparr>ns_active = True, ns_ifName = ifName,
                                        ns_egressIf = egressIf, ns_subnet = subnet,
                                        ns_oldForward = oldForward\<rparr>, log4))))"

section \<open>The rules of the system\<close>

text \<open>
  How often each rule is in its chain, from the commands run; \<^verbatim>\<open>iptables -C\<close> succeeds exactly when
  the rule is there, and then \<^verbatim>\<open>-D\<close> deletes it. That is the documented behaviour assumed.
\<close>

fun rule_effect :: "string list \<times> bool \<Rightarrow> (rule \<Rightarrow> nat) \<Rightarrow> rule \<Rightarrow> nat" where
  "rule_effect (p # o1 # tbl # act # ch # args, ok) N =
     (if p = ''iptables'' \<and> ok \<and> act = ''-A'' then N((tbl, ch, args) := N (tbl, ch, args) + 1)
      else if p = ''iptables'' \<and> ok \<and> act = ''-D'' then N((tbl, ch, args) := N (tbl, ch, args) - 1)
      else N)"
| "rule_effect _ N = N"

definition rules :: "(rule \<Rightarrow> nat) \<Rightarrow> cmd_log \<Rightarrow> rule \<Rightarrow> nat" where
  "rules R0 log = fold rule_effect log R0"

definition iptables_ok :: "host_env \<Rightarrow> (rule \<Rightarrow> nat) \<Rightarrow> bool" where
  "iptables_ok E R0 \<longleftrightarrow>
     (\<forall>log r. (he_run E log (rule_cmd ''-C'' r) \<longleftrightarrow> 0 < rules R0 log r) \<and>
              (0 < rules R0 log r \<longrightarrow> he_run E log (rule_cmd ''-D'' r)))"

lemma rules_snoc: "rules R0 (log @ cs) = fold rule_effect cs (rules R0 log)"
  by (simp add: rules_def)

lemma rule_effect_cmd [simp]:
  "rule_effect (rule_cmd ''-C'' r, ok) N = N"
  "rule_effect (rule_cmd ''-A'' r, ok) N = (if ok then N(r := N r + 1) else N)"
  "rule_effect (rule_cmd ''-D'' r, ok) N = (if ok then N(r := N r - 1) else N)"
  by (cases r; simp add: rule_cmd_def)+

lemma rule_effect_other: "p \<noteq> ''iptables'' \<Longrightarrow> rule_effect (p # xs, ok) N = N"
  by (cases "((p # xs, ok), N)" rule: rule_effect.cases) auto

lemma rules_ensure:
  assumes "iptables_ok E R0" and "ensureIptablesRule E r log = (e, log')"
  shows "rules R0 log' = (if e = None then (rules R0 log)(r := max 1 (rules R0 log r)) else rules R0 log)"
    and "e \<noteq> None \<Longrightarrow> e = Some (case r of (tbl, ch, args) \<Rightarrow> IptablesFailed tbl ch args)"
proof -
  have C: "he_run E log (rule_cmd ''-C'' r) \<longleftrightarrow> 0 < rules R0 log r"
    using assms(1) unfolding iptables_ok_def by blast
  show "rules R0 log' = (if e = None then (rules R0 log)(r := max 1 (rules R0 log r)) else rules R0 log)"
    using assms(2) C
    by (auto simp: ensureIptablesRule_def exec_cmd_def Let_def rules_snoc fun_eq_iff
        split: if_splits bool.splits)
  show "e \<noteq> None \<Longrightarrow> e = Some (case r of (tbl, ch, args) \<Rightarrow> IptablesFailed tbl ch args)"
    using assms(2) by (auto simp: ensureIptablesRule_def split: prod.splits bool.splits)
qed

lemma rules_delete:
  assumes "iptables_ok E R0"
  shows "rules R0 (snd (deleteIptablesRule E r log)) = (rules R0 log)(r := rules R0 log r - 1)"
proof -
  have C: "he_run E l (rule_cmd ''-C'' r) \<longleftrightarrow> 0 < rules R0 l r"
    "0 < rules R0 l r \<Longrightarrow> he_run E l (rule_cmd ''-D'' r)" for l
    using assms unfolding iptables_ok_def by blast+
  have "rules R0 (log @ [(rule_cmd ''-C'' r, b)]) = rules R0 log" for b by (simp add: rules_snoc)
  then show ?thesis
    using C by (auto simp: deleteIptablesRule_def exec_cmd_def Let_def rules_snoc fun_eq_iff
        split: bool.split)
qed

lemma rules_delete_all:
  "iptables_ok E R0 \<Longrightarrow> distinct rs \<Longrightarrow>
     rules R0 (delete_all E rs log) r = (if r \<in> set rs then rules R0 log r - 1 else rules R0 log r)"
  by (induction rs arbitrary: log) (auto simp: rules_delete)

lemma rules_ensure_all:
  "iptables_ok E R0 \<Longrightarrow> ensure_all E rs log = (e, log') \<Longrightarrow>
     (e = None \<longrightarrow> rules R0 log' = (\<lambda>r. if r \<in> set rs then max 1 (rules R0 log r) else rules R0 log r)) \<and>
     (e \<noteq> None \<longrightarrow> (\<exists>n<length rs.
        e = Some (case rs ! n of (tbl, ch, args) \<Rightarrow> IptablesFailed tbl ch args) \<and>
        rules R0 log' = (\<lambda>r. if r \<in> set (take n rs) then max 1 (rules R0 log r) else rules R0 log r)))"
proof (induction rs arbitrary: log)
  case Nil
  then show ?case by simp
next
  case (Cons r rs)
  obtain e1 log1 where s: "ensureIptablesRule E r log = (e1, log1)" by fastforce
  note ru = rules_ensure [OF Cons.prems(1) s]
  show ?case
  proof (cases e1)
    case None
    with s Cons.prems(2) have "ensure_all E rs log1 = (e, log')" by simp
    note IH = Cons.IH [OF Cons.prems(1) this]
    have r1: "rules R0 log1 = (rules R0 log)(r := max 1 (rules R0 log r))" using ru(1) None by simp
    show ?thesis
    proof (intro conjI impI)
      assume "e = None"
      with IH r1 show "rules R0 log' =
          (\<lambda>x. if x \<in> set (r # rs) then max 1 (rules R0 log x) else rules R0 log x)"
        by (auto simp: fun_eq_iff)
    next
      assume "e \<noteq> None"
      with IH obtain n where n: "n < length rs"
        "e = Some (case rs ! n of (tbl, ch, args) \<Rightarrow> IptablesFailed tbl ch args)"
        "rules R0 log' = (\<lambda>x. if x \<in> set (take n rs) then max 1 (rules R0 log1 x) else rules R0 log1 x)"
        by blast
      then show "\<exists>n<length (r # rs).
          e = Some (case (r # rs) ! n of (tbl, ch, args) \<Rightarrow> IptablesFailed tbl ch args) \<and>
          rules R0 log' = (\<lambda>x. if x \<in> set (take n (r # rs)) then max 1 (rules R0 log x)
            else rules R0 log x)"
        using r1 by (intro exI [of _ "Suc n"]) (auto simp: fun_eq_iff)
    qed
  next
    case (Some x)
    with s ru Cons.prems(2) show ?thesis by (auto intro!: exI [of _ 0])
  qed
qed

lemma nat_rules_distinct: "distinct (nat_rules i e s)"
  by (simp add: nat_rules_def)

lemma ensure_all_prefix: "ensure_all E rs log = (e, log') \<Longrightarrow> \<exists>rest. log' = log @ rest"
proof (induction rs arbitrary: log)
  case (Cons r rs)
  obtain e1 log1 where s: "ensureIptablesRule E r log = (e1, log1)" by fastforce
  then have "\<exists>rest. log1 = log @ rest"
    by (auto simp: ensureIptablesRule_def exec_cmd_def Let_def split: bool.splits if_splits)
  then obtain r1 where r1: "log1 = log @ r1" ..
  show ?case
  proof (cases e1)
    case None
    with s Cons.prems have "ensure_all E rs log1 = (e, log')" by simp
    from Cons.IH [OF this] show ?thesis by (auto simp: r1)
  next
    case (Some x)
    with s Cons.prems r1 show ?thesis by auto
  qed
qed simp

text \<open>The run of \<open>EnableServerGatewayNAT\<close> from the inactive state.\<close>

lemma Enable_inactive:
  assumes "\<not> ns_active st" and "EnableServerGatewayNAT E i gw m st log = (res, st', log')"
  obtains (early) e where "res = Some e" "st' = st" "\<And>R0. rules R0 log' = rules R0 log"
      "\<And>t c a. e \<noteq> IptablesFailed t c a"
  | (tables) eg sub old log3 where "\<And>R0. rules R0 log3 = rules R0 log"
      "([''sysctl'', ''-w'', ''net.ipv4.ip_forward=1''], True) \<in> set log3" "old \<noteq> []"
      "ensure_all E (nat_rules i eg sub) log3 = (res, log')"
      "st' = (if res = None then \<lparr>ns_active = True, ns_ifName = i, ns_egressIf = eg,
         ns_subnet = sub, ns_oldForward = old\<rparr> else st)"
proof -
  have o: "rules R0 (log @ [(p # xs, b)]) = rules R0 log" if "p \<noteq> ''iptables''" for R0 p xs b log
    using that by (simp add: rules_snoc rule_effect_other)
  show thesis
  proof (cases "tun_MaskToPrefix m")
    case (Inl e)
    moreover from Inl have "e \<noteq> IptablesFailed t c a" for t c a
      by (auto simp: tun_MaskToPrefix_def Let_def split: option.splits if_splits prod.splits)
    ultimately show ?thesis
      using assms by (intro early) (auto simp: EnableServerGatewayNAT_def)
  next
    case n: (Inr n)
    obtain d log1 where d: "detectDefaultEgressIf E log = (d, log1)" by fastforce
    have r1: "rules R0 log1 = rules R0 log" for R0
      using d o by (auto simp: detectDefaultEgressIf_def exec_output_def Let_def)
    show ?thesis
    proof (cases d)
      case (Inl e)
      moreover from d Inl have "e \<noteq> IptablesFailed t c a" for t c a
        by (auto simp: detectDefaultEgressIf_def exec_output_def Let_def split: if_splits)
      ultimately show ?thesis
        using assms n d r1 by (intro early) (auto simp: EnableServerGatewayNAT_def Let_def)
    next
      case eg: (Inr eg)
      let ?n = "[''sysctl'', ''-n'', ''net.ipv4.ip_forward'']"
      let ?w = "[''sysctl'', ''-w'', ''net.ipv4.ip_forward=1'']"
      let ?log2 = "log1 @ [(?n, he_run E log1 ?n)]"
      let ?sub = "networkAddr gw m @ ''/'' @ decimal n"
      have r2: "rules R0 (?log2 @ [(?w, b)]) = rules R0 log" for R0 b
        using r1 by (simp add: rules_snoc rule_effect_other)
      show ?thesis
      proof (cases "he_run E ?log2 ?w")
        case False
        then have w: "exec_err E ?w ?log2 = (Some CommandFailed, ?log2 @ [(?w, False)])"
          by (simp add: exec_err_def exec_cmd_def)
        then have "res = Some CommandFailed" "st' = st" "log' = ?log2 @ [(?w, False)]"
          using assms n d eg by (simp_all add: EnableServerGatewayNAT_def Let_def exec_output_def)
        with r2 show ?thesis by (intro early [of CommandFailed]) simp_all
      next
        case True
        then have w: "exec_err E ?w ?log2 = (None, ?log2 @ [(?w, True)])"
          by (simp add: exec_err_def exec_cmd_def)
        obtain r log4 where a: "ensure_all E (nat_rules i eg ?sub) (?log2 @ [(?w, True)]) = (r, log4)"
          by fastforce
        define old where "old = (if trim_space (he_out E log1 ?n) = [] then ''0''
          else trim_space (he_out E log1 ?n))"
        define new where "new = \<lparr>ns_active = True, ns_ifName = i, ns_egressIf = eg,
          ns_subnet = ?sub, ns_oldForward = old\<rparr>"
        have "EnableServerGatewayNAT E i gw m st log = (r, if r = None then new else st, log4)"
          unfolding EnableServerGatewayNAT_def exec_output_def Let_def
          using assms(1) n d eg w a
          by (cases r) (simp_all add: old_def new_def)
        then have "(res, st', log') = (r, if r = None then new else st, log4)"
          using assms(2) by (rule trans [OF sym, rotated])
        then have "res = r" "log' = log4" "st' = (if r = None then new else st)"
          unfolding prod.inject by blast+
        moreover have "old \<noteq> []" by (simp add: old_def)
        ultimately show ?thesis
          using a r2 by (intro tables [of "?log2 @ [(?w, True)]" old eg ?sub]) (simp_all add: new_def)
      qed
    qed
  qed
qed

lemma nat_on:
  assumes "iptables_ok E R0" and "\<not> ns_active st"
    and "EnableServerGatewayNAT E i gw m st log = (None, st1, log1)"
  obtains eg sub old where "st1 = \<lparr>ns_active = True, ns_ifName = i, ns_egressIf = eg,
      ns_subnet = sub, ns_oldForward = old\<rparr>" "old \<noteq> []"
    "([''sysctl'', ''-w'', ''net.ipv4.ip_forward=1''], True) \<in> set log1"
    "rules R0 log1 = (\<lambda>r. if r \<in> set (nat_rules i eg sub) then max 1 (rules R0 log r) else rules R0 log r)"
  using assms(2,3)
proof (cases rule: Enable_inactive)
  case (tables eg sub old log3)
  have "rules R0 log1 = (\<lambda>r. if r \<in> set (nat_rules i eg sub) then max 1 (rules R0 log r) else rules R0 log r)"
    using rules_ensure_all [OF assms(1) tables(4)] unfolding tables(1) by blast
  with tables(2,3,5) ensure_all_prefix [OF tables(4)] show ?thesis by (intro that [of eg sub old]) auto
qed simp_all

lemma nat_off:
  assumes "iptables_ok E R0"
    and "st = \<lparr>ns_active = True, ns_ifName = i, ns_egressIf = eg, ns_subnet = sub, ns_oldForward = old\<rparr>"
    and "old \<noteq> []" and "DisableServerGatewayNAT E st log1 = (st2, log2)"
  shows "st2 = no_nat"
    and "rules R0 log2 = (\<lambda>r. if r \<in> set (nat_rules i eg sub) then rules R0 log1 r - 1 else rules R0 log1 r)"
    and "fst (last log2) = [''sysctl'', ''-w'', ''net.ipv4.ip_forward='' @ old]"
proof -
  let ?rs = "nat_rules i eg sub"
  let ?w = "[''sysctl'', ''-w'', ''net.ipv4.ip_forward='' @ old]"
  have d: "log2 = delete_all E (rev ?rs) log1 @ [(?w, he_run E (delete_all E (rev ?rs) log1) ?w)]"
    and n: "st2 = no_nat"
    using assms(2-4) by (simp_all add: DisableServerGatewayNAT_def
        disableServerGatewayNATLocked_def exec_cmd_def Let_def)
  have "rules R0 log2 r = (if r \<in> set ?rs then rules R0 log1 r - 1 else rules R0 log1 r)" for r
    using rules_delete_all [OF assms(1), of "rev ?rs" log1 r] nat_rules_distinct [of i eg sub]
    by (simp add: d(1) rules_snoc rule_effect_other)
  then show "rules R0 log2 = (\<lambda>r. if r \<in> set ?rs then rules R0 log1 r - 1 else rules R0 log1 r)"
    by (auto simp: fun_eq_iff)
  show "st2 = no_nat" by (rule n)
  show "fst (last log2) = ?w" by (simp add: d)
qed

section \<open>Properties\<close>

text \<open>
  Switching address translation on and off. When \<open>EnableServerGatewayNAT\<close> succeeds, each of its
  four rules is in its chain, and no other rule has changed; when it is switched off again, every
  rule that was not there before is gone, and forwarding is set to the value that was read. But a
  rule of this form that was there before, which switching on left as it was, is deleted too.
\<close>

theorem nat_on_off:
  assumes "iptables_ok E R0" and "\<not> ns_active st"
    and "EnableServerGatewayNAT E i gw m st log = (None, st1, log1)"
    and "DisableServerGatewayNAT E st1 log1 = (st2, log2)"
  shows "\<exists>eg sub. st2 = no_nat \<and>
    rules R0 log1 = (\<lambda>r. if r \<in> set (nat_rules i eg sub) then max 1 (rules R0 log r) else rules R0 log r) \<and>
    rules R0 log2 = (\<lambda>r. if r \<in> set (nat_rules i eg sub) then rules R0 log r - 1 else rules R0 log r) \<and>
    fst (last log2) = [''sysctl'', ''-w'', ''net.ipv4.ip_forward='' @ ns_oldForward st1]"
proof -
  from assms(1-3) obtain eg sub old where on: "st1 = \<lparr>ns_active = True, ns_ifName = i, ns_egressIf = eg,
      ns_subnet = sub, ns_oldForward = old\<rparr>" "old \<noteq> []"
    "rules R0 log1 = (\<lambda>r. if r \<in> set (nat_rules i eg sub) then max 1 (rules R0 log r) else rules R0 log r)"
    by (rule nat_on) blast
  from nat_off [OF assms(1) on(1,2) assms(4)] on show ?thesis
    by (intro exI [of _ eg] exI [of _ sub]) (auto simp: fun_eq_iff)
qed

text \<open>
  A failed switch-on stays. When \<open>EnableServerGatewayNAT\<close> fails at one of its rules, forwarding
  has been enabled and the rules before it have been added; the state says inactive, so switching
  off runs no command and leaves all of it in place.
\<close>

theorem nat_failure_stays:
  assumes "iptables_ok E R0" and "\<not> ns_active st"
    and "EnableServerGatewayNAT E i gw m st log = (Some (IptablesFailed tbl ch args), st', log')"
  shows "DisableServerGatewayNAT E st' log' = (st', log') \<and>
    ([''sysctl'', ''-w'', ''net.ipv4.ip_forward=1''], True) \<in> set log' \<and>
    (\<exists>eg sub n. n < 4 \<and> (tbl, ch, args) = nat_rules i eg sub ! n \<and>
       (\<forall>k<n. 0 < rules R0 log' (nat_rules i eg sub ! k)))"
  using assms(2,3)
proof (cases rule: Enable_inactive)
  case (tables eg sub old log3)
  let ?rs = "nat_rules i eg sub"
  have len: "length ?rs = 4" by (simp add: nat_rules_def)
  from rules_ensure_all [OF assms(1) tables(4)] obtain n where n: "n < length ?rs"
    "IptablesFailed tbl ch args = (case ?rs ! n of (tbl, ch, args) \<Rightarrow> IptablesFailed tbl ch args)"
    "rules R0 log' = (\<lambda>r. if r \<in> set (take n ?rs) then max 1 (rules R0 log3 r) else rules R0 log3 r)"
    by auto
  have "?rs ! k \<in> set (take n ?rs)" if "k < n" for k
    using that n(1) by (simp add: in_set_conv_nth) (metis nth_take)
  then have "\<forall>k<n. 0 < rules R0 log' (?rs ! k)" unfolding n(3) by (simp add: less_max_iff_disj)
  moreover have "(tbl, ch, args) = ?rs ! n" using n(2) by (auto split: prod.splits)
  moreover have "\<exists>rest. log' = log3 @ rest" using ensure_all_prefix [OF tables(4)] .
  ultimately show ?thesis
    using n(1) assms(2) tables(2,5) len
    by (auto simp: DisableServerGatewayNAT_def disableServerGatewayNATLocked_def)
qed blast

section \<open>A host\<close>

definition sample_nat_host :: "(rule \<Rightarrow> bool) \<Rightarrow> host_env" where
  "sample_nat_host bad =
     \<lparr>he_run = (\<lambda>log argv.
        (case argv of
           p # o1 # tbl # act # ch # args \<Rightarrow>
             if p = ''iptables'' \<and> act = ''-C'' then 0 < rules (\<lambda>r. 0) log (tbl, ch, args)
             else if p = ''iptables'' \<and> act = ''-A'' then \<not> bad (tbl, ch, args) else True
         | _ \<Rightarrow> True)),
      he_out = (\<lambda>log argv. if hd argv = ''sh'' then ''eth0'' else ''1''),
      he_lookpath = (\<lambda>p. False), he_lookup = (\<lambda>h. None)\<rparr>"

lemma sample_nat_run:
  "he_run (sample_nat_host bad) log (rule_cmd ''-C'' r) \<longleftrightarrow> 0 < rules (\<lambda>r. 0) log r"
  "he_run (sample_nat_host bad) log (rule_cmd ''-A'' r) \<longleftrightarrow> \<not> bad r"
  "he_run (sample_nat_host bad) log (rule_cmd ''-D'' r)"
  by (cases r; simp add: sample_nat_host_def rule_cmd_def)+

lemma sample_nat_other: "p \<noteq> ''iptables'' \<Longrightarrow> he_run (sample_nat_host bad) log (p # xs)"
  by (auto simp: sample_nat_host_def split: list.split)

lemma sample_nat_out:
  "he_out (sample_nat_host bad) log (p # xs) = (if p = ''sh'' then ''eth0'' else ''1'')"
  by (simp add: sample_nat_host_def)

lemma sample_nat_ok: "iptables_ok (sample_nat_host bad) (\<lambda>r. 0)"
  unfolding iptables_ok_def using sample_nat_run by blast

lemma sample_ensure: "\<not> bad r \<Longrightarrow> \<exists>log'. ensureIptablesRule (sample_nat_host bad) r log = (None, log')"
  by (cases "0 < rules (\<lambda>r. 0) log r")
    (simp_all add: ensureIptablesRule_def exec_cmd_def sample_nat_run Let_def)

lemma sample_enable:
  "\<exists>sub log3. rules (\<lambda>r. 0) log3 = rules (\<lambda>r. 0) log \<and>
     EnableServerGatewayNAT (sample_nat_host bad) i ''172.19.0.254'' ''255.255.255.0'' no_nat log =
       (case ensure_all (sample_nat_host bad) (nat_rules i ''eth0'' sub) log3 of
          (Some e, log4) \<Rightarrow> (Some e, no_nat, log4)
        | (None, log4) \<Rightarrow>
            (None, \<lparr>ns_active = True, ns_ifName = i, ns_egressIf = ''eth0'', ns_subnet = sub,
               ns_oldForward = ''1''\<rparr>, log4))"
proof -
  let ?log3 = "log @ [([''sh'', ''-c'', egress_script], True),
      ([''sysctl'', ''-n'', ''net.ipv4.ip_forward''], True),
      ([''sysctl'', ''-w'', ''net.ipv4.ip_forward=1''], True)]"
  note prefix_of_sample_mask
  moreover have "\<not> ns_active no_nat" by (simp add: no_nat_def)
  moreover have "trim_space ''eth0'' = ''eth0''" "trim_space ''1'' = ''1''"
    by (rule trim_space_visible; simp add: visible_def)+
  moreover have "rules (\<lambda>r. 0) ?log3 = rules (\<lambda>r. 0) log"
    by (simp add: rules_snoc rule_effect_other)
  ultimately show ?thesis
    by (intro exI [of _ "networkAddr ''172.19.0.254'' ''255.255.255.0'' @ ''/'' @ decimal 24"]
        exI [of _ ?log3])
      (simp add: EnableServerGatewayNAT_def Let_def detectDefaultEgressIf_def
        exec_output_def exec_err_def exec_cmd_def sample_nat_other sample_nat_out
        split: prod.split option.split)
qed

lemma sample_enabled:
  "\<exists>st log'. EnableServerGatewayNAT (sample_nat_host (\<lambda>r. False)) i ''172.19.0.254'' ''255.255.255.0''
     no_nat log = (None, st, log')"
proof -
  let ?E = "sample_nat_host (\<lambda>r. False)"
  have "\<exists>log'. ensure_all ?E rs log = (None, log')" for rs log
  proof (induction rs arbitrary: log)
    case (Cons r rs)
    from sample_ensure [of "\<lambda>r. False" r log] Cons show ?case by auto
  qed simp
  moreover obtain sub log3 where "EnableServerGatewayNAT ?E i ''172.19.0.254'' ''255.255.255.0'' no_nat log =
      (case ensure_all ?E (nat_rules i ''eth0'' sub) log3 of
          (Some e, log4) \<Rightarrow> (Some e, no_nat, log4)
        | (None, log4) \<Rightarrow>
            (None, \<lparr>ns_active = True, ns_ifName = i, ns_egressIf = ''eth0'', ns_subnet = sub,
               ns_oldForward = ''1''\<rparr>, log4))"
    using sample_enable [of log "\<lambda>r. False" i] by blast
  ultimately show ?thesis by (metis (no_types, lifting) case_prod_conv option.case(1))
qed

theorem nat_on_off_witness:
  "\<exists>E st1 log1 st2 log2. EnableServerGatewayNAT E ''tun0'' ''172.19.0.254'' ''255.255.255.0'' no_nat [] =
       (None, st1, log1) \<and> DisableServerGatewayNAT E st1 log1 = (st2, log2) \<and>
     rules (\<lambda>r. 0) log2 = (\<lambda>r. 0)"
proof -
  let ?E = "sample_nat_host (\<lambda>r. False)"
  obtain st1 log1 where
    e: "EnableServerGatewayNAT ?E ''tun0'' ''172.19.0.254'' ''255.255.255.0'' no_nat [] = (None, st1, log1)"
    using sample_enabled by blast
  obtain st2 log2 where d: "DisableServerGatewayNAT ?E st1 log1 = (st2, log2)" by fastforce
  have "\<not> ns_active no_nat" by (simp add: no_nat_def)
  from nat_on_off [OF sample_nat_ok this e d] have "rules (\<lambda>r. 0) log2 = (\<lambda>r. 0)"
    by (auto simp: rules_def)
  with e d show ?thesis by blast
qed

theorem nat_failure_stays_witness:
  "\<exists>E st' log' args. EnableServerGatewayNAT E ''tun0'' ''172.19.0.254'' ''255.255.255.0'' no_nat [] =
       (Some (IptablesFailed ''nat'' ''POSTROUTING'' args), st', log') \<and>
     DisableServerGatewayNAT E st' log' = (st', log') \<and>
     ([''sysctl'', ''-w'', ''net.ipv4.ip_forward=1''], True) \<in> set log'"
proof -
  let ?bad = "\<lambda>r :: rule. fst r = ''nat''"
  let ?E = "sample_nat_host ?bad"
  from sample_enable [of "[]" ?bad "''tun0''"] obtain sub log3 where z: "rules (\<lambda>r. 0) log3 = (\<lambda>r. 0)"
    and e: "EnableServerGatewayNAT ?E ''tun0'' ''172.19.0.254'' ''255.255.255.0'' no_nat [] =
       (case ensure_all ?E (nat_rules ''tun0'' ''eth0'' sub) log3 of
          (Some e, log4) \<Rightarrow> (Some e, no_nat, log4)
        | (None, log4) \<Rightarrow>
            (None, \<lparr>ns_active = True, ns_ifName = ''tun0'', ns_egressIf = ''eth0'', ns_subnet = sub,
               ns_oldForward = ''1''\<rparr>, log4))"
    by (auto simp: rules_def)
  obtain r1 r2 r3 r4 where rs: "nat_rules ''tun0'' ''eth0'' sub = [r1, r2, r3, r4]"
    "fst r1 = ''filter''" "fst r2 = ''filter''" "fst r3 = ''nat''" "fst (snd r3) = ''POSTROUTING''"
    by (simp add: nat_rules_def)
  obtain l1 where l1: "ensureIptablesRule ?E r1 log3 = (None, l1)"
    using sample_ensure [of ?bad r1] rs(2) by auto
  obtain l2 where l2: "ensureIptablesRule ?E r2 l1 = (None, l2)"
    using sample_ensure [of ?bad r2] rs(3) by auto
  have "r1 \<noteq> r3" "r2 \<noteq> r3" using rs(2-4) by auto
  then have "rules (\<lambda>r. 0) l2 r3 = 0"
    using rules_ensure(1) [OF sample_nat_ok l1] rules_ensure(1) [OF sample_nat_ok l2] z by simp
  then have "\<exists>l3. ensureIptablesRule ?E r3 l2 =
      (Some (case r3 of (tbl, ch, args) \<Rightarrow> IptablesFailed tbl ch args), l3)"
    using rs(4) by (simp add: ensureIptablesRule_def exec_cmd_def sample_nat_run)
  with rs(4,5) obtain l3 args where
    "ensureIptablesRule ?E r3 l2 = (Some (IptablesFailed ''nat'' ''POSTROUTING'' args), l3)"
    by (cases r3) auto
  with e l1 l2 have f: "EnableServerGatewayNAT ?E ''tun0'' ''172.19.0.254'' ''255.255.255.0'' no_nat [] =
      (Some (IptablesFailed ''nat'' ''POSTROUTING'' args), no_nat, l3)"
    by (simp add: rs(1))
  have "\<not> ns_active no_nat" by (simp add: no_nat_def)
  from nat_failure_stays [OF sample_nat_ok this f] f show ?thesis by blast
qed

end
