(* ===== verification/Server_Start.thy ===== *)
theory Server_Start
  imports Server_Admin Tun_NAT Tun_Tunnel Transport
begin

text \<open>
  \<^verbatim>\<open>Server.Start\<close> and \<^verbatim>\<open>Server.Stop\<close> of \<^verbatim>\<open>vlan/server.go\<close>: the order in which the server's parts come
  up and go down, each by its own model, with the commands run on the host. A failure of \<^verbatim>\<open>Start\<close>
  ends the process at once (\<^verbatim>\<open>log.Fatalf\<close>), which is the error here.
\<close>

section \<open>Starting\<close>

text \<open>
  \<open>bo_tun\<close>: the device of this name and MTU, by its batch size; \<open>bo_listen\<close>: can the address be
  listened on.
\<close>

record boot_env =
  bo_host :: host_env
  bo_tun :: "string \<Rightarrow> int \<Rightarrow> int option"
  bo_listen :: "string \<Rightarrow> bool"

record running =
  ru_server :: server
  ru_tun :: "tunnel option"
  ru_transport :: "base_config \<times> bytes"
  ru_management :: bool
  ru_stopped :: bool

datatype start_error =
    StartDHCP dhcp_error | StartTun | StartAddress tun_error | StartNAT tun_error
  | StartTCP tcp_error | StartManagement

definition initGatewayTun ::
    "boot_env \<Rightarrow> server_config \<Rightarrow> nat_state \<Rightarrow> cmd_log \<Rightarrow> (start_error + tunnel) \<times> nat_state \<times> cmd_log" where
  "initGatewayTun B conf st log =
     (case bo_tun B (sv_ifName conf) (sv_mtu conf) of
        None \<Rightarrow> (Inl StartTun, st, log)
      | Some batch \<Rightarrow>
          (case ConfigureTunAddress (bo_host B) (sv_ifName conf) (v_gateway (sv_vdhcp conf))
                  (v_mask (sv_vdhcp conf)) log of
             (Some e, log1) \<Rightarrow> (Inl (StartAddress e), st, log1)
           | (None, log1) \<Rightarrow>
               (case EnableServerGatewayNAT (bo_host B) (sv_ifName conf) (v_gateway (sv_vdhcp conf))
                       (v_mask (sv_vdhcp conf)) st log1 of
                  (Some e, st2, log2) \<Rightarrow> (Inl (StartNAT e), st2, log2)
                | (None, st2, log2) \<Rightarrow> (Inr (NewTUNTunnel batch), st2, log2))))"

definition server_transport :: "transport_config \<Rightarrow> base_config" where
  "server_transport c =
     \<lparr>magic = 0, version = 0, readTimeout = ServerReadTimeout c, writeTimeout = ServerWriteTimeout c,
      maxPayload = 0, heartbeatBase = ServerHeartbeatBase c, heartbeatJitter = ServerHeartbeatJitter c,
      keyRotateInterval = KeyRotateInterval c, oldKeyGrace = OldKeyGrace c, replaySize = 0\<rparr>"

definition initTCP :: "server_config \<Rightarrow> tcp_error + base_config \<times> bytes" where
  "initTCP conf =
     (case NormalizePrivateKeyHex (sv_privateKey conf) of
        Inl e \<Rightarrow> Inl e
      | Inr hex \<Rightarrow> tcpx_NewServer (server_transport (sv_tcp conf)) hex)"

text \<open>\<^verbatim>\<open>initManagement\<close>: is the interface served; the error is that of \<^verbatim>\<open>net.Listen\<close>.\<close>

definition initManagement :: "boot_env \<Rightarrow> server_config \<Rightarrow> start_error + bool" where
  "initManagement B conf =
     (case managementAddr conf of
        None \<Rightarrow> Inr False
      | Some addr \<Rightarrow> if bo_listen B addr then Inr True else Inl StartManagement)"

definition server_Start ::
    "boot_env \<Rightarrow> int \<Rightarrow> server_config \<Rightarrow> nat_state \<Rightarrow> cmd_log \<Rightarrow> (start_error + running) \<times> nat_state \<times> cmd_log" where
  "server_Start B now conf st log =
     (case NewServer conf of
        Inl e \<Rightarrow> (Inl (StartDHCP e), st, log)
      | Inr s \<Rightarrow>
          (case (if sv_proxy conf
                 then (case initGatewayTun B conf st log of (r, st1, log1) \<Rightarrow> (map_sum id Some r, st1, log1))
                 else (Inr None, st, log)) of
             (Inl e, st1, log1) \<Rightarrow> (Inl e, st1, log1)
           | (Inr t, st1, log1) \<Rightarrow>
               (case initTCP conf of
                  Inl e \<Rightarrow> (Inl (StartTCP e), st1, log1)
                | Inr srv \<Rightarrow>
                    let s1 = record_event now (ServerStarted (sv_port conf) (sv_proxy conf)) s
                    in (case initManagement B conf of
                          Inl e \<Rightarrow> (Inl e, st1, log1)
                        | Inr served \<Rightarrow>
                            (Inr \<lparr>ru_server = s1, ru_tun = t, ru_transport = srv, ru_management = served,
                                  ru_stopped = False\<rparr>, st1, log1)))))"

section \<open>Stopping\<close>

definition server_Stop ::
    "boot_env \<Rightarrow> running \<Rightarrow> nat_state \<Rightarrow> cmd_log \<Rightarrow> running \<times> nat_state \<times> cmd_log" where
  "server_Stop B r st log =
     (if ru_stopped r then (r, st, log)
      else
        let s1 = server_stop (ru_server r);
            (st1, log1) = (if sv_proxy (s_conf (ru_server r)) then DisableServerGatewayNAT (bo_host B) st log
                           else (st, log))
        in (r\<lparr>ru_server := s1, ru_tun := map_option tt_close (ru_tun r), ru_management := False,
             ru_stopped := True\<rparr>, st1, log1))"

section \<open>The server between start and stop\<close>

text \<open>No handler changes the configuration.\<close>

lemma conf_small [simp]:
  "s_conf (upd_peer i f s) = s_conf s" "s_conf (upd_conn c g s) = s_conf s"
  "s_conf (close_conn c s) = s_conf s" "s_conf (peer_close i s) = s_conf s"
  "s_conf (snd (peer_write i p s)) = s_conf s" "s_conf (record_event now k s) = s_conf s"
  "s_conf (emitVDHCPAssigned now info s) = s_conf s" "s_conf (bind_peer now i ip s) = s_conf s"
  "s_conf (cleanupPeer now i s) = s_conf s"
  by (simp_all add: upd_peer_def upd_conn_def close_conn_def peer_close_def peer_write_state
      record_event_def emitVDHCPAssigned_def bind_peer_def cleanupPeer_def Let_def
      split: prod.split option.split)

lemma conf_write: "peer_write i p s = (b, s') \<Longrightarrow> s_conf s' = s_conf s"
  using conf_small(5) [of i p s] by simp

lemma conf_message:
  assumes "onTCPMessage E now c raw s = Some s'" shows "s_conf s' = s_conf s"
proof -
  have "s_conf (handleClientAuth E now i pl s) = s_conf s" for i pl
    by (auto simp: handleClientAuth_def split: sum.split prod.split bool.split)
  moreover have "s_conf (handleDHCPDiscover E now i m s) = s_conf s" for i m
    by (auto simp: handleDHCPDiscover_def Let_def dest!: conf_write
        split: prod.split sum.split bool.split)
  then have "s_conf (handleVDHCP E now i pl s) = s_conf s" for i pl
    by (simp add: handleVDHCP_def split: sum.split)
  moreover have "s_conf s2 = s_conf s" if "handleIP E i pl s = Some s2" for i pl s2
    using that by (auto simp: handleIP_def forward_def Let_def
        split: option.splits if_splits prod.splits)
  ultimately show ?thesis
    using assms by (auto simp: onTCPMessage_def
        split: option.splits sum.splits prod.splits payload_type.splits if_splits)
qed

lemma conf_run: "server_run E s s' \<Longrightarrow> s_conf s' = s_conf s"
proof (induction rule: server_run.induct)
  case (step s1 now ev s2)
  have "s_conf s2 = s_conf s1"
  proof (cases ev)
    case (SendTurn i)
    with step show ?thesis
      by (auto simp: send_turn_def Let_def dest!: conf_write
          split: if_splits list.splits prod.splits bool.splits)
  qed (use step in \<open>auto simp: onTCPConnect_def onTCPDisconnect_def tun_packet_def sweep_tick_def Let_def
      split: option.splits if_splits prod.splits dest: conf_message\<close>)
  with step.IH show ?case by simp
qed simp

text \<open>Every peer of the registry is closed.\<close>

lemma close_all:
  assumes "\<forall>i\<in>set is. i < length (s_peers s)" and "j \<in> set is \<or> p_done (peer_at s j)"
    and "j < length (s_peers s)"
  shows "p_done (peer_at (fold peer_close is s) j)"
  using assms
proof (induction "is" arbitrary: s)
  case (Cons i "is")
  have "p_done (peer_at (peer_close i s) j)" if "j = i \<or> p_done (peer_at s j)"
    using that Cons.prems(3)
    by (cases "j = i") (auto simp: peer_close_def close_conn_def upd_conn_def upd_peer_def)
  with Cons show ?case by (auto simp: peer_close_same(1))
qed simp

section \<open>What starting leaves on the host\<close>

lemma rules_configure: "rules R0 (snd (ConfigureTunAddress E i ip m log)) = rules R0 log"
  by (simp add: ConfigureTunAddress_def exec_err_def exec_cmd_def Let_def rules_snoc rule_effect_other
      split: sum.split)

lemma initGatewayTun_ok:
  assumes "iptables_ok (bo_host B) R0" and "\<not> ns_active st"
    and "initGatewayTun B conf st log = (Inr t, st1, log1)"
  shows "\<exists>eg sub old. st1 = \<lparr>ns_active = True, ns_ifName = sv_ifName conf, ns_egressIf = eg,
      ns_subnet = sub, ns_oldForward = old\<rparr> \<and> old \<noteq> [] \<and>
    ([''sysctl'', ''-w'', ''net.ipv4.ip_forward=1''], True) \<in> set log1 \<and>
    rules R0 log1 = (\<lambda>r. if r \<in> set (nat_rules (sv_ifName conf) eg sub) then max 1 (rules R0 log r) else rules R0 log r)"
proof -
  let ?v = "sv_vdhcp conf"
  obtain e l where c: "ConfigureTunAddress (bo_host B) (sv_ifName conf) (v_gateway ?v) (v_mask ?v) log = (e, l)"
    by fastforce
  have r: "rules R0 l = rules R0 log"
    using rules_configure [of R0 "bo_host B" "sv_ifName conf" "v_gateway ?v" "v_mask ?v" log] c by simp
  from assms(3) c have "EnableServerGatewayNAT (bo_host B) (sv_ifName conf) (v_gateway ?v) (v_mask ?v) st l
      = (None, st1, log1)"
    by (auto simp: initGatewayTun_def split: option.splits prod.splits)
  from assms(1,2) this show ?thesis by (rule nat_on) (simp add: r cong: if_cong)
qed

text \<open>What a successful \<open>server_Start\<close> went through.\<close>

lemma server_Start_ok:
  assumes "server_Start B now conf st log = (Inr r, st1, log1)"
  obtains (gateway) t where "sv_proxy conf" "initGatewayTun B conf st log = (Inr t, st1, log1)"
      "ru_tun r = Some t" "\<not> ru_stopped r" "s_conf (ru_server r) = conf"
  | (plain) "\<not> sv_proxy conf" "st1 = st" "log1 = log" "ru_tun r = None" "\<not> ru_stopped r"
      "s_conf (ru_server r) = conf"
proof -
  from assms obtain s where s: "NewServer conf = Inr s"
    by (cases "NewServer conf") (simp_all add: server_Start_def)
  then have c: "s_conf s = conf" by (auto simp: NewServer_def split: sum.splits)
  show thesis
  proof (cases "sv_proxy conf")
    case True
    obtain g st' log' where g: "initGatewayTun B conf st log = (g, st', log')" by (metis prod_cases3)
    with assms s True obtain t where t: "g = Inr t" by (cases g) (simp_all add: server_Start_def)
    from assms s True g t have "st1 = st'" "log1 = log'" "ru_tun r = Some t" "\<not> ru_stopped r"
      "s_conf (ru_server r) = conf"
      by (auto simp: server_Start_def Let_def c split: sum.splits)
    with True g t show ?thesis by (intro gateway) simp_all
  next
    case False
    with assms s have "st1 = st" "log1 = log" "ru_tun r = None" "\<not> ru_stopped r"
      "s_conf (ru_server r) = conf"
      by (auto simp: server_Start_def Let_def c split: sum.splits)
    with False show ?thesis by (intro plain)
  qed
qed

lemma server_Start_inv:
  assumes "server_Start B now conf st log = (Inr r, st1, log1)"
  shows "server_inv E (ru_server r)"
proof -
  from assms obtain s k where s: "NewServer conf = Inr s" "ru_server r = record_event now k s"
    by (cases "NewServer conf") (auto simp: server_Start_def Let_def split: prod.splits sum.splits)
  from NewServer_inv [OF s(1)] s(2) show ?thesis by (simp add: server_inv_def record_event_def)
qed


text \<open>
  C40: A start that fails late leaves the gateway behind. When the address of the management
  interface cannot be listened on, \<^verbatim>\<open>Start\<close> ends the process after the gateway has been set up: the
  four rules stay in their chains and forwarding stays switched on, with no \<^verbatim>\<open>Stop\<close> to come.
\<close>

theorem failed_start_leaves_gateway:
  assumes "iptables_ok (bo_host B) R0" and "\<not> ns_active st" and "sv_proxy conf"
    and "server_Start B now conf st log = (Inl StartManagement, st1, log1)"
  shows "\<exists>eg sub. ([''sysctl'', ''-w'', ''net.ipv4.ip_forward=1''], True) \<in> set log1 \<and>
    (\<forall>x. rules R0 log1 x = (if x \<in> set (nat_rules (sv_ifName conf) eg sub) then max 1 (rules R0 log x)
           else rules R0 log x))"
proof -
  obtain g st' log' where g: "initGatewayTun B conf st log = (g, st', log')" by (metis prod_cases3)
  with assms(3,4) have e: "log' = log1" "st' = st1"
    by (cases "NewServer conf"; cases g; simp add: server_Start_def Let_def split: sum.splits)+
  from g have "g \<noteq> Inl StartManagement"
    by (auto simp: initGatewayTun_def split: option.splits prod.splits)
  with g assms(3,4) obtain t where "g = Inr t"
    by (cases g) (auto simp: server_Start_def split: sum.splits)
  with g e have "initGatewayTun B conf st log = (Inr t, st1, log1)" by simp
  from initGatewayTun_ok [OF assms(1,2) this] obtain eg sub where
    "([''sysctl'', ''-w'', ''net.ipv4.ip_forward=1''], True) \<in> set log1"
    "rules R0 log1 = (\<lambda>r. if r \<in> set (nat_rules (sv_ifName conf) eg sub) then max 1 (rules R0 log r) else rules R0 log r)"
    by blast
  then show ?thesis by (intro exI [of _ eg] exI [of _ sub]) simp
qed

section \<open>A server that starts\<close>

definition sample_boot :: "bool \<Rightarrow> boot_env" where
  "sample_boot ok =
     \<lparr>bo_host = sample_nat_host (\<lambda>r. False), bo_tun = (\<lambda>i mtu. Some 1), bo_listen = (\<lambda>a. ok)\<rparr>"

definition sample_managed :: "bool \<Rightarrow> server_config" where
  "sample_managed on =
     sample_running_conf\<lparr>sv_management := \<lparr>g_enabled = on, g_addr = [], g_token = []\<rparr>\<rparr>"

lemma sample_gateway_up:
  "\<exists>t st log. initGatewayTun (sample_boot ok) (sample_managed on) no_nat [] = (Inr t, st, log)"
proof -
  let ?E = "sample_nat_host (\<lambda>r. False)"
  let ?i = "sv_ifName sample_running_conf"
  obtain log1 where c: "ConfigureTunAddress ?E ?i ''172.19.0.254'' ''255.255.255.0'' [] = (None, log1)"
    by (simp add: ConfigureTunAddress_def exec_err_def exec_cmd_def Let_def sample_nat_other
        prefix_of_sample_mask)
  obtain st log where "EnableServerGatewayNAT ?E ?i ''172.19.0.254'' ''255.255.255.0'' no_nat log1 =
      (None, st, log)" using sample_enabled by blast
  with c show ?thesis by (simp add: initGatewayTun_def sample_boot_def sample_managed_def)
qed

lemma sample_tcp_up: "\<exists>srv. initTCP (sample_managed on) = Inr srv"
proof -
  have "ParsePrivateKeyAny (sample_key_text 7) = Inr (replicate 32 7)" by simp
  then have "ParsePrivateKeyHex (hex_encode (replicate 32 7)) = Inr (replicate 32 7)"
    by (simp add: ParsePrivateKeyHex_def x25519_new_def)
  then show ?thesis
    by (simp add: initTCP_def sample_managed_def NormalizePrivateKeyHex_def tcpx_NewServer_def)
qed

lemma sample_managed_start:
  "NewServer (sample_managed on) = Inr (sample_start\<lparr>s_conf := sample_managed on\<rparr>)"
proof -
  have "initDHCP (sample_managed on) = initDHCP sample_running_conf"
    by (simp add: initDHCP_def dhcp_config_of_def sample_managed_def)
  then show ?thesis by (simp add: NewServer_def sample_initDHCP sample_start_def sample_managed_def)
qed

lemma no_nat_inactive: "\<not> ns_active no_nat" by (simp add: no_nat_def)


theorem failed_start_leaves_gateway_witness:
  "\<exists>st1 log1. server_Start (sample_boot False) 5 (sample_managed True) no_nat [] =
       (Inl StartManagement, st1, log1) \<and> (\<exists>r. rules (\<lambda>r. 0) log1 r = 1)"
proof -
  obtain t st log srv where
    g: "initGatewayTun (sample_boot False) (sample_managed True) no_nat [] = (Inr t, st, log)"
      "initTCP (sample_managed True) = Inr srv"
    using sample_gateway_up sample_tcp_up by blast
  have m: "initManagement (sample_boot False) (sample_managed True) = Inl StartManagement"
    by (simp add: initManagement_def managementAddr_def sample_boot_def sample_managed_def Let_def)
  have p: "sv_proxy (sample_managed True)" by (simp add: sample_managed_def)
  have s: "server_Start (sample_boot False) 5 (sample_managed True) no_nat [] =
      (Inl StartManagement, st, log)"
    by (simp add: server_Start_def sample_managed_start g m p)
  have ok: "iptables_ok (bo_host (sample_boot False)) (\<lambda>r. 0)" by (simp add: sample_boot_def sample_nat_ok)
  obtain eg sub where l: "\<forall>x. rules (\<lambda>r. 0) log x =
      (if x \<in> set (nat_rules (sv_ifName (sample_managed True)) eg sub) then max 1 (rules (\<lambda>r. 0) [] x)
       else rules (\<lambda>r. 0) [] x)"
    using failed_start_leaves_gateway [OF ok no_nat_inactive p s] by blast
  have "nat_rules (sv_ifName (sample_managed True)) eg sub \<noteq> []" by (simp add: nat_rules_def)
  then obtain r where "r \<in> set (nat_rules (sv_ifName (sample_managed True)) eg sub)"
    using last_in_set by blast
  moreover have "rules (\<lambda>r. 0) [] r = 0" by (simp add: rules_def)
  ultimately have "rules (\<lambda>r. 0) log r = 1" using spec [OF l, of r] by simp
  with s show ?thesis by blast
qed

end
