(* ===== verification/Config_File.thy ===== *)
theory Config_File
  imports Config
begin

text \<open>
  The files of \<^verbatim>\<open>config/config.go\<close>: loading \<^verbatim>\<open>server.json\<close> and \<^verbatim>\<open>client.json\<close>, and the private key that is
  written back into them. \<^verbatim>\<open>encoding/json\<close> is a parameter, with the decoding of a file into the two
  structs, into a map, and the printing of a map; so is what the file system answers.
\<close>

section \<open>Files\<close>

text \<open>Content and permissions of the files.\<close>

type_synonym files = "string \<rightharpoonup> bytes \<times> nat"

datatype write_answer = Written | NotOpened | Stopped nat

record file_env =
  fe_readable :: "string \<Rightarrow> bool"
  fe_stat :: "string \<Rightarrow> bool"
  fe_write :: "string \<Rightarrow> bytes \<Rightarrow> write_answer"

definition os_ReadFile :: "file_env \<Rightarrow> string \<Rightarrow> files \<Rightarrow> bytes option" where
  "os_ReadFile W path F = (if fe_readable W path then map_option fst (F path) else None)"

text \<open>
  \<^verbatim>\<open>os.WriteFile\<close> empties the file when it opens it; \<open>Stopped n\<close>: writing fails after \<open>n\<close> bytes. An
  existing file keeps its permissions.
\<close>

definition os_WriteFile :: "file_env \<Rightarrow> string \<Rightarrow> bytes \<Rightarrow> nat \<Rightarrow> files \<Rightarrow> bool \<times> files" where
  "os_WriteFile W path out perm F =
     (let mode = (case F path of Some (_, p) \<Rightarrow> p | None \<Rightarrow> perm)
      in case fe_write W path out of
           NotOpened \<Rightarrow> (False, F)
         | Stopped n \<Rightarrow> (False, F(path \<mapsto> (take n out, mode)))
         | Written \<Rightarrow> (True, F(path \<mapsto> (out, mode))))"

text \<open>\<open>cj_map\<close>: the map is nil when the file holds \<^verbatim>\<open>null\<close>.\<close>

record 'v config_json =
  cj_server :: "bytes \<Rightarrow> server_config option"
  cj_client :: "bytes \<Rightarrow> client_config option"
  cj_map :: "bytes \<Rightarrow> (string \<rightharpoonup> 'v) option option"
  cj_text :: "string \<Rightarrow> 'v"
  cj_print :: "(string \<rightharpoonup> 'v) \<Rightarrow> bytes option"

section \<open>Loading\<close>

definition loadJSON :: "file_env \<Rightarrow> (bytes \<Rightarrow> 'c option) \<Rightarrow> string \<Rightarrow> files \<Rightarrow> 'c option" where
  "loadJSON W decode path F =
     (case os_ReadFile W path F of
        None \<Rightarrow> None
      | Some data \<Rightarrow> decode data)"

text \<open>\<open>PatchNilMap\<close>: assigning to the nil map ends the process.\<close>

datatype patch_error = PatchRead | PatchParse | PatchNilMap | PatchPrint | PatchWrite

definition patchPrivateKey ::
    "'v config_json \<Rightarrow> file_env \<Rightarrow> string \<Rightarrow> string \<Rightarrow> files \<Rightarrow> patch_error option \<times> files" where
  "patchPrivateKey J W path privateKey F =
     (case os_ReadFile W path F of
        None \<Rightarrow> (Some PatchRead, F)
      | Some data \<Rightarrow>
          (case cj_map J data of
             None \<Rightarrow> (Some PatchParse, F)
           | Some None \<Rightarrow> (Some PatchNilMap, F)
           | Some (Some m) \<Rightarrow>
               (case cj_print J (m(''privateKey'' \<mapsto> cj_text J privateKey)) of
                  None \<Rightarrow> (Some PatchPrint, F)
                | Some out \<Rightarrow>
                    let perm = (if fe_stat W path then (case F path of Some (_, p) \<Rightarrow> p | None \<Rightarrow> 420) else 420)
                    in (case os_WriteFile W path out perm F of
                          (False, F1) \<Rightarrow> (Some PatchWrite, F1)
                        | (True, F1) \<Rightarrow> (None, F1)))))"

text \<open>Loading with the file: the files are those that the attempt to write the key has left.\<close>

definition patched :: "'v config_json \<Rightarrow> file_env \<Rightarrow> string \<Rightarrow> files \<Rightarrow> string option \<Rightarrow> files" where
  "patched J W path F w = (case w of None \<Rightarrow> F | Some key \<Rightarrow> snd (patchPrivateKey J W path key F))"

definition load_server_file ::
    "crypto \<Rightarrow> 'v config_json \<Rightarrow> file_env \<Rightarrow> bytes \<Rightarrow> string \<Rightarrow> files \<Rightarrow>
     (config_error + server_config) \<times> files" where
  "load_server_file C J W ent path F =
     (case LoadServerConfigFrom C (loadJSON W (cj_server J) path F)
             (\<lambda>key. fst (patchPrivateKey J W path key F) = None) ent of
        (r, w) \<Rightarrow> (r, patched J W path F w))"

definition load_client_file ::
    "crypto \<Rightarrow> 'v config_json \<Rightarrow> file_env \<Rightarrow> bytes \<Rightarrow> string \<Rightarrow> files \<Rightarrow>
     (config_error + client_config) \<times> files" where
  "load_client_file C J W ent path F =
     (case LoadClientConfigFrom C (loadJSON W (cj_client J) path F)
             (\<lambda>key. fst (patchPrivateKey J W path key F) = None) ent of
        (r, w) \<Rightarrow> (r, patched J W path F w))"

definition LoadServerConfig ::
    "crypto \<Rightarrow> 'v config_json \<Rightarrow> file_env \<Rightarrow> bytes \<Rightarrow> files \<Rightarrow> (config_error + server_config) \<times> files" where
  "LoadServerConfig C J W ent = load_server_file C J W ent ''server.json''"

definition LoadClientConfig ::
    "crypto \<Rightarrow> 'v config_json \<Rightarrow> file_env \<Rightarrow> bytes \<Rightarrow> files \<Rightarrow> (config_error + client_config) \<times> files" where
  "LoadClientConfig C J W ent = load_client_file C J W ent ''client.json''"

section \<open>What is assumed of the JSON package\<close>

text \<open>
  For a file that holds an object whose keys are spelled like the fields: it decodes into the map of
  its keys, and printing the map with another private key, a text of visible characters, gives a
  file that decodes into the same structs with that private key.
\<close>

definition patchable :: "'v config_json \<Rightarrow> bytes \<Rightarrow> bool" where
  "patchable J data \<longleftrightarrow>
     (\<exists>m. cj_map J data = Some (Some m) \<and>
        (\<forall>key. list_all visible key \<longrightarrow>
           (\<exists>out. cj_print J (m(''privateKey'' \<mapsto> cj_text J key)) = Some out \<and>
              cj_server J out = map_option (\<lambda>c. c\<lparr>sv_privateKey := key\<rparr>) (cj_server J data) \<and>
              cj_client J out = map_option (\<lambda>c. c\<lparr>cc_privateKey := key\<rparr>) (cj_client J data))))"

section \<open>Well-formed configurations\<close>

definition key_ok :: "string \<Rightarrow> bool" where
  "key_ok key \<longleftrightarrow> (case ParsePrivateKeyAny key of Inl e \<Rightarrow> False | Inr k \<Rightarrow> length k = 32)"

definition server_conf_ok :: "server_config \<Rightarrow> bool" where
  "server_conf_ok c \<longleftrightarrow>
     key_ok (sv_privateKey c) \<and> 0 < sv_port c \<and> 0 < sv_mtu c \<and> sv_ifName c \<noteq> [] \<and>
     validateVDHCP (sv_vdhcp c) = None \<and> config_normalizeDNSServers (v_dns (sv_vdhcp c)) = v_dns (sv_vdhcp c) \<and>
     g_addr (sv_management c) \<noteq> []"

definition client_conf_ok :: "client_config \<Rightarrow> bool" where
  "client_conf_ok c \<longleftrightarrow>
     key_ok (cc_privateKey c) \<and> trim_space (cc_server c) \<noteq> [] \<and> trim_space (cc_serverPublicKey c) \<noteq> [] \<and>
     (case ParsePublicKeyAny (cc_serverPublicKey c) of Inl e \<Rightarrow> False | Inr k \<Rightarrow> True) \<and> cc_ifName c \<noteq> []"

section \<open>Lemmas\<close>

lemma ensure_cases:
  assumes "ensurePrivateKey C patch ent key = (Inr key', w)"
  obtains (kept) "trim_space key \<noteq> []" "key' = key" "w = None"
  | (made) "trim_space key = []" "w = Some key'" "patch key'" "list_all visible key'" "trim_space key' \<noteq> []"
proof (cases "trim_space key = []")
  case True
  with assms have k: "key' = b64_encode False True (take 32 ent)" "w = Some key'" "patch key'" "32 \<le> length ent"
    by (auto simp: ensurePrivateKey_def GenerateStaticKeyBase64_def Let_def split: sum.splits if_splits)
  have v: "list_all visible key'" using b64_encode_visible by (auto simp: k(1) list_all_iff)
  have len: "length (take 32 ent) = 32" using k(4) by simp
  have n: "key' \<noteq> []" using length_b64_encode [of False True "take 32 ent"] len unfolding k(1) by auto
  with v have "trim_space key' = key'" by (intro trim_space_visible) (auto simp: list_all_iff)
  then have "trim_space key' \<noteq> []" using n by (rule ssubst)
  with True k(2,3) v show ?thesis by (rule made)
next
  case False
  with assms have "key' = key" "w = None" by (auto simp: ensurePrivateKey_def)
  with False show ?thesis by (rule kept)
qed

text \<open>A private key put into a file that can be patched.\<close>

lemma patch_done:
  assumes "fst (patchPrivateKey J W path key F) = None"
  obtains data perm m out where "F path = Some (data, perm)" "fe_readable W path"
    "cj_map J data = Some (Some m)" "cj_print J (m(''privateKey'' \<mapsto> cj_text J key)) = Some out"
    "snd (patchPrivateKey J W path key F) = F(path \<mapsto> (out, perm))"
  using assms
  by (auto simp: patchPrivateKey_def os_ReadFile_def os_WriteFile_def Let_def
      split: option.splits if_splits write_answer.splits bool.splits prod.splits)

lemma patched_file:
  assumes "F path = Some (data, perm)" and "patchable J data" and "list_all visible key"
    and "fst (patchPrivateKey J W path key F) = None"
  shows "\<exists>out. snd (patchPrivateKey J W path key F) = F(path \<mapsto> (out, perm)) \<and> fe_readable W path \<and>
    cj_server J out = map_option (\<lambda>c. c\<lparr>sv_privateKey := key\<rparr>) (cj_server J data) \<and>
    cj_client J out = map_option (\<lambda>c. c\<lparr>cc_privateKey := key\<rparr>) (cj_client J data)"
proof -
  obtain data' perm' m out where o: "F path = Some (data', perm')" "fe_readable W path"
    "cj_map J data' = Some (Some m)" "cj_print J (m(''privateKey'' \<mapsto> cj_text J key)) = Some out"
    "snd (patchPrivateKey J W path key F) = F(path \<mapsto> (out, perm'))"
    by (rule patch_done [OF assms(4)])
  from o(1) assms(1) have "data' = data" "perm' = perm" by simp_all
  with o assms(2,3) show ?thesis unfolding patchable_def by fastforce
qed

lemma defaults_commute [simp]:
  "applyServerDefaults (c\<lparr>sv_privateKey := k\<rparr>) = (applyServerDefaults c)\<lparr>sv_privateKey := k\<rparr>"
  "applyClientDefaults (c'\<lparr>cc_privateKey := k\<rparr>) = (applyClientDefaults c')\<lparr>cc_privateKey := k\<rparr>"
  "sv_privateKey (applyServerDefaults c) = sv_privateKey c"
  "cc_privateKey (applyClientDefaults c') = cc_privateKey c'"
  "cc_server (applyClientDefaults c') = cc_server c'"
  "cc_serverPublicKey (applyClientDefaults c') = cc_serverPublicKey c'"
  by (simp_all add: applyServerDefaults_def applyClientDefaults_def)

lemma load_server_cases:
  assumes "LoadServerConfigFrom C loaded patch ent = (Inr conf, w)"
  obtains conf0 where "loaded = Some conf0" "validateVDHCP (sv_vdhcp (applyServerDefaults conf0)) = None"
    "ensurePrivateKey C patch ent (sv_privateKey conf0) = (Inr (sv_privateKey conf), w)"
    "conf = (applyServerDefaults conf0)\<lparr>sv_privateKey := sv_privateKey conf\<rparr>"
    "\<exists>k. ParsePrivateKeyAny (sv_privateKey conf) = Inr k"
  using assms by (auto simp: LoadServerConfigFrom_def Let_def split: option.splits prod.splits sum.splits)

lemma load_client_cases:
  assumes "LoadClientConfigFrom C loaded patch ent = (Inr conf, w)"
  obtains conf0 where "loaded = Some conf0" "trim_space (cc_server conf0) \<noteq> []"
    "trim_space (cc_serverPublicKey conf0) \<noteq> []"
    "ensurePrivateKey C patch ent (cc_privateKey conf0) = (Inr (cc_privateKey conf), w)"
    "conf = (applyClientDefaults conf0)\<lparr>cc_privateKey := cc_privateKey conf\<rparr>"
    "\<exists>k. ParsePrivateKeyAny (cc_privateKey conf) = Inr k"
    "\<exists>k. ParsePublicKeyAny (cc_serverPublicKey conf0) = Inr k"
  using assms
  by (auto simp: LoadClientConfigFrom_def Let_def split: option.splits prod.splits sum.splits if_splits)

lemma key_ok_iff: "key_ok key \<longleftrightarrow> (\<exists>k. ParsePrivateKeyAny key = Inr k)"
  using DecodeX25519Key_length
  by (auto simp: key_ok_def ParsePrivateKeyAny_def x25519_new_def split: sum.splits if_splits)

text \<open>The configurations that loading gives, whatever the file and the patch.\<close>

lemma loaded_server_ok: "LoadServerConfigFrom C loaded patch ent = (Inr conf, w) \<Longrightarrow> server_conf_ok conf"
proof (elim load_server_cases)
  fix conf0
  assume v: "validateVDHCP (sv_vdhcp (applyServerDefaults conf0)) = None"
    and c: "conf = (applyServerDefaults conf0)\<lparr>sv_privateKey := sv_privateKey conf\<rparr>"
    and k: "\<exists>k. ParsePrivateKeyAny (sv_privateKey conf) = Inr k"
  have "server_conf_ok ((applyServerDefaults conf0)\<lparr>sv_privateKey := sv_privateKey conf\<rparr>)"
    using v k defaults_dns_normal [of "sv_vdhcp conf0"]
    by (simp add: server_conf_ok_def key_ok_iff)
      (simp add: applyServerDefaults_def config_normalizeDNSServers_def normalizeDNSServers_def)
  then show ?thesis using c by simp
qed

lemma loaded_client_ok: "LoadClientConfigFrom C loaded patch ent = (Inr conf, w) \<Longrightarrow> client_conf_ok conf"
proof (elim load_client_cases)
  fix conf0
  assume v: "trim_space (cc_server conf0) \<noteq> []" "trim_space (cc_serverPublicKey conf0) \<noteq> []"
    and c: "conf = (applyClientDefaults conf0)\<lparr>cc_privateKey := cc_privateKey conf\<rparr>"
    and k: "\<exists>k. ParsePrivateKeyAny (cc_privateKey conf) = Inr k"
      "\<exists>k. ParsePublicKeyAny (cc_serverPublicKey conf0) = Inr k"
  have "client_conf_ok ((applyClientDefaults conf0)\<lparr>cc_privateKey := cc_privateKey conf\<rparr>)"
    using v k
    by (auto simp: client_conf_ok_def key_ok_iff applyClientDefaults_def)
  then show ?thesis using c by simp
qed

text \<open>A configuration with a key is loaded without the random source or the file system.\<close>

lemma ensure_kept: "trim_space key \<noteq> [] \<Longrightarrow> ensurePrivateKey C patch ent key = (Inr key, None)"
  by (simp add: ensurePrivateKey_def)

lemma load_server_kept:
  assumes "validateVDHCP (sv_vdhcp (applyServerDefaults conf0)) = None" "trim_space (sv_privateKey conf0) \<noteq> []"
    and "ParsePrivateKeyAny (sv_privateKey conf0) = Inr k"
  shows "LoadServerConfigFrom C (Some conf0) patch ent = (Inr (applyServerDefaults conf0), None)"
  using assms by (simp add: LoadServerConfigFrom_def Let_def ensure_kept)

lemma load_client_kept:
  assumes "trim_space (cc_server conf0) \<noteq> []" "trim_space (cc_serverPublicKey conf0) \<noteq> []"
    "trim_space (cc_privateKey conf0) \<noteq> []" "ParsePrivateKeyAny (cc_privateKey conf0) = Inr k"
    "ParsePublicKeyAny (cc_serverPublicKey conf0) = Inr k'"
  shows "LoadClientConfigFrom C (Some conf0) patch ent = (Inr (applyClientDefaults conf0), None)"
  using assms by (simp add: LoadClientConfigFrom_def Let_def ensure_kept)

text \<open>What the file decodes to when it is loaded again.\<close>

lemma reloaded:
  assumes "F path = Some (data, perm)" and "patchable J data" and "fe_readable W path"
    and "ensurePrivateKey C (\<lambda>key. fst (patchPrivateKey J W path key F) = None) ent key = (Inr key', w)"
  shows "\<exists>data'. patched J W path F w path = Some (data', perm) \<and> trim_space key' \<noteq> [] \<and>
    cj_server J data' = (if w = None then cj_server J data
       else map_option (\<lambda>c. c\<lparr>sv_privateKey := key'\<rparr>) (cj_server J data)) \<and>
    cj_client J data' = (if w = None then cj_client J data
       else map_option (\<lambda>c. c\<lparr>cc_privateKey := key'\<rparr>) (cj_client J data)) \<and>
    (w = None \<longrightarrow> key' = key)"
  using assms(4)
proof (cases rule: ensure_cases)
  case kept
  with assms(1) show ?thesis by (simp add: patched_def)
next
  case made
  from patched_file [OF assms(1,2) made(4,3)] made show ?thesis by (auto simp: patched_def)
qed

lemma server_reloads:
  assumes "F path = Some (data, perm)" and "patchable J data"
    and "load_server_file C J W ent path F = (Inr conf, F1)"
  shows "load_server_file C J W ent' path F1 = (Inr conf, F1) \<and> map_option snd (F1 path) = Some perm"
proof -
  from assms(3) obtain w where
    l: "LoadServerConfigFrom C (loadJSON W (cj_server J) path F)
      (\<lambda>key. fst (patchPrivateKey J W path key F) = None) ent = (Inr conf, w)" and F1: "F1 = patched J W path F w"
    by (auto simp: load_server_file_def split: prod.splits)
  obtain conf0 where c: "loadJSON W (cj_server J) path F = Some conf0"
    "validateVDHCP (sv_vdhcp (applyServerDefaults conf0)) = None"
    "ensurePrivateKey C (\<lambda>key. fst (patchPrivateKey J W path key F) = None) ent (sv_privateKey conf0) =
       (Inr (sv_privateKey conf), w)"
    "conf = (applyServerDefaults conf0)\<lparr>sv_privateKey := sv_privateKey conf\<rparr>"
    "\<exists>k. ParsePrivateKeyAny (sv_privateKey conf) = Inr k"
    by (rule load_server_cases [OF l])
  from c(1) assms(1) have rd: "fe_readable W path" "cj_server J data = Some conf0"
    by (auto simp: loadJSON_def os_ReadFile_def split: if_splits option.splits)
  obtain data' where d: "F1 path = Some (data', perm)" "trim_space (sv_privateKey conf) \<noteq> []"
    "cj_server J data' = Some (conf0\<lparr>sv_privateKey := sv_privateKey conf\<rparr>)"
    using reloaded [OF assms(1,2) rd(1) c(3)] by (auto simp: F1 rd(2) split: if_splits)
  let ?c = "conf0\<lparr>sv_privateKey := sv_privateKey conf\<rparr>"
  have "loadJSON W (cj_server J) path F1 = Some ?c" using d rd(1) by (simp add: loadJSON_def os_ReadFile_def)
  moreover have "applyServerDefaults ?c = conf" using c(4) by simp
  moreover obtain k where "ParsePrivateKeyAny (sv_privateKey conf) = Inr k" using c(5) by blast
  then have "LoadServerConfigFrom C (Some ?c) patch ent' = (Inr (applyServerDefaults ?c), None)" for patch
    using c(2) d(2) by (intro load_server_kept) (auto simp: applyServerDefaults_def)
  ultimately show ?thesis using d(1) by (simp add: load_server_file_def patched_def)
qed

lemma client_reloads:
  assumes "F path = Some (data, perm)" and "patchable J data"
    and "load_client_file C J W ent path F = (Inr conf, F1)"
  shows "load_client_file C J W ent' path F1 = (Inr conf, F1) \<and> map_option snd (F1 path) = Some perm"
proof -
  from assms(3) obtain w where
    l: "LoadClientConfigFrom C (loadJSON W (cj_client J) path F)
      (\<lambda>key. fst (patchPrivateKey J W path key F) = None) ent = (Inr conf, w)" and F1: "F1 = patched J W path F w"
    by (auto simp: load_client_file_def split: prod.splits)
  obtain conf0 where c: "loadJSON W (cj_client J) path F = Some conf0"
    "trim_space (cc_server conf0) \<noteq> []" "trim_space (cc_serverPublicKey conf0) \<noteq> []"
    "ensurePrivateKey C (\<lambda>key. fst (patchPrivateKey J W path key F) = None) ent (cc_privateKey conf0) =
       (Inr (cc_privateKey conf), w)"
    "conf = (applyClientDefaults conf0)\<lparr>cc_privateKey := cc_privateKey conf\<rparr>"
    "\<exists>k. ParsePrivateKeyAny (cc_privateKey conf) = Inr k"
    "\<exists>k. ParsePublicKeyAny (cc_serverPublicKey conf0) = Inr k"
    by (rule load_client_cases [OF l])
  from c(1) assms(1) have rd: "fe_readable W path" "cj_client J data = Some conf0"
    by (auto simp: loadJSON_def os_ReadFile_def split: if_splits option.splits)
  obtain data' where d: "F1 path = Some (data', perm)" "trim_space (cc_privateKey conf) \<noteq> []"
    "cj_client J data' = Some (conf0\<lparr>cc_privateKey := cc_privateKey conf\<rparr>)"
    using reloaded [OF assms(1,2) rd(1) c(4)] by (auto simp: F1 rd(2) split: if_splits)
  let ?c = "conf0\<lparr>cc_privateKey := cc_privateKey conf\<rparr>"
  have "loadJSON W (cj_client J) path F1 = Some ?c" using d rd(1) by (simp add: loadJSON_def os_ReadFile_def)
  moreover have "applyClientDefaults ?c = conf" using c(5) by simp
  moreover obtain k k' where "ParsePrivateKeyAny (cc_privateKey conf) = Inr k"
    "ParsePublicKeyAny (cc_serverPublicKey conf0) = Inr k'" using c(6,7) by blast
  then have "LoadClientConfigFrom C (Some ?c) patch ent' = (Inr (applyClientDefaults ?c), None)" for patch
    using c(2,3) d(2) by (intro load_client_kept) auto
  ultimately show ?thesis using d(1) by (simp add: load_client_file_def patched_def)
qed

section \<open>Properties\<close>

text \<open>A configuration that loads is well formed, and of the files at most the one loaded has changed.\<close>

lemma patched_other: "(patched J W p F w)(p := None) = F(p := None)"
  by (auto simp: patched_def patchPrivateKey_def os_WriteFile_def Let_def
      split: option.split write_answer.split bool.split prod.split)

lemma LoadServerConfig_ok:
  "LoadServerConfig C J W ent F = (Inr conf, F') \<Longrightarrow>
   server_conf_ok conf \<and> F'(''server.json'' := None) = F(''server.json'' := None)"
  by (auto simp: LoadServerConfig_def load_server_file_def patched_other split: prod.splits
      dest: loaded_server_ok)

lemma LoadClientConfig_ok:
  "LoadClientConfig C J W ent F = (Inr conf, F') \<Longrightarrow>
   client_conf_ok conf \<and> F'(''client.json'' := None) = F(''client.json'' := None)"
  by (auto simp: LoadClientConfig_def load_client_file_def patched_other split: prod.splits
      dest: loaded_client_ok)

text \<open>
  C21: Loading again gives the same. When the file of a server can be patched (its keys are spelled
  like the fields) and loads, with or without a private key in it, then it loads again to the same
  configuration whatever the random source gives then, the file is not written again, and it has
  kept its permissions. A client likewise.
\<close>

theorem config_reloads:
  assumes "F path = Some (data, perm)" and "patchable J data"
  shows "(case load_server_file C J W ent path F of (Inr conf, F1) \<Rightarrow>
      load_server_file C J W ent' path F1 = (Inr conf, F1) \<and> map_option snd (F1 path) = Some perm | _ \<Rightarrow> True) \<and>
    (case load_client_file C J W ent path F of (Inr conf, F1) \<Rightarrow>
      load_client_file C J W ent' path F1 = (Inr conf, F1) \<and> map_option snd (F1 path) = Some perm | _ \<Rightarrow> True)"
proof (rule conjI)
  show "case load_server_file C J W ent path F of (Inr conf, F1) \<Rightarrow>
      load_server_file C J W ent' path F1 = (Inr conf, F1) \<and> map_option snd (F1 path) = Some perm | _ \<Rightarrow> True"
    using server_reloads [where F = F and path = path, OF assms, of C W ent _ _ ent']
    by (cases "load_server_file C J W ent path F") (simp split: sum.split)
  show "case load_client_file C J W ent path F of (Inr conf, F1) \<Rightarrow>
      load_client_file C J W ent' path F1 = (Inr conf, F1) \<and> map_option snd (F1 path) = Some perm | _ \<Rightarrow> True"
    using client_reloads [where F = F and path = path, OF assms, of C W ent _ _ ent']
    by (cases "load_client_file C J W ent path F") (simp split: sum.split)
qed

text \<open>
  A failed write loses the configuration. When a file without a private key is loaded and the
  new contents cannot be written after the file has been opened, as on a full disk, then loading
  fails, and what the file held before is gone: it is left with the first bytes of the new contents,
  here none, which nothing can be loaded from.
\<close>

theorem failed_patch_empties:
  assumes "F path = Some (data, perm)" and "patchable J data" and "fe_readable W path"
    and "cj_server J data = Some conf0" "trim_space (sv_privateKey conf0) = []"
    and "validateVDHCP (sv_vdhcp (applyServerDefaults conf0)) = None"
    and "32 \<le> length ent" and "fe_write W path = (\<lambda>out. Stopped 0)" and "cj_server J [] = None"
  shows "\<exists>F1. load_server_file C J W ent path F = (Inl PatchFailed, F1) \<and> F1 path = Some ([], perm) \<and>
    fst (load_server_file C J W ent' path F1) = Inl LoadJSON"
proof -
  let ?key = "b64_encode False True (take 32 ent)"
  have "list_all visible ?key" using b64_encode_visible by (auto simp: list_all_iff)
  with assms(2) obtain m out where "cj_map J data = Some (Some m)"
    "cj_print J (m(''privateKey'' \<mapsto> cj_text J ?key)) = Some out"
    unfolding patchable_def by blast
  with assms(1,3,8) have p: "patchPrivateKey J W path ?key F = (Some PatchWrite, F(path \<mapsto> ([], perm)))"
    by (simp add: patchPrivateKey_def os_ReadFile_def os_WriteFile_def Let_def)
  have l: "loadJSON W (cj_server J) path F = Some conf0"
    using assms(1,3,4) by (simp add: loadJSON_def os_ReadFile_def)
  have "load_server_file C J W ent path F = (Inl PatchFailed, F(path \<mapsto> ([], perm)))"
    using assms(5,6,7) p
    by (simp add: load_server_file_def LoadServerConfigFrom_def l ensurePrivateKey_def
        GenerateStaticKeyBase64_def patched_def Let_def)
  moreover have "fst (load_server_file C J W ent' path (F(path \<mapsto> ([], perm)))) = Inl LoadJSON"
    using assms(3,9) by (simp add: load_server_file_def LoadServerConfigFrom_def loadJSON_def os_ReadFile_def)
  ultimately show ?thesis by simp
qed

section \<open>A file\<close>

text \<open>A codec for the examples: the file is an x and the private key.\<close>

definition key_in :: "bytes \<Rightarrow> string option" where
  "key_in data = (case data of [] \<Rightarrow> None | b # bs \<Rightarrow> Some (map (\<lambda>x. char_of (unat x)) bs))"

definition toy_config :: "string config_json" where
  "toy_config =
     \<lparr>cj_server = \<lambda>data. map_option (\<lambda>k. sample_server_conf\<lparr>sv_privateKey := k\<rparr>) (key_in data),
      cj_client = \<lambda>data. None,
      cj_map = \<lambda>data. map_option (\<lambda>k. Some [''privateKey'' \<mapsto> k]) (key_in data),
      cj_text = \<lambda>k. k,
      cj_print = \<lambda>m. map_option (\<lambda>k. 120 # str_bytes k) (m ''privateKey'')\<rparr>"

definition sample_files :: "write_answer \<Rightarrow> file_env" where
  "sample_files w = \<lparr>fe_readable = \<lambda>p. True, fe_stat = \<lambda>p. True, fe_write = \<lambda>p out. w\<rparr>"

lemma key_in_text: "key_in (120 # str_bytes k) = Some k"
proof -
  have "char_of (unat (byte_of_char c)) = c" for c
  proof -
    have "(of_char c :: nat) < 256" by simp
    moreover have "(of_char c :: byte) = of_nat (of_char c)" by (rule of_nat_of_char [symmetric])
    ultimately show ?thesis unfolding byte_of_char_def by (simp add: unat_of_nat take_bit_eq_mod)
  qed
  then show ?thesis by (simp add: key_in_def str_bytes_def comp_def)
qed

lemma key_in_no_text [simp]: "key_in [] = None" "data \<noteq> [] \<Longrightarrow> \<exists>k. key_in data = Some k"
  by (simp_all add: key_in_def split: list.split)

lemma toy_patchable: "data \<noteq> [] \<Longrightarrow> patchable toy_config data"
proof -
  assume "data \<noteq> []"
  then obtain k where "key_in data = Some k" using key_in_no_text(2) by blast
  then show ?thesis by (simp add: patchable_def toy_config_def key_in_text)
qed

text \<open>A file without a private key, when it can be written and when it cannot.\<close>

definition sample_file :: files where
  "sample_file = [''server.json'' \<mapsto> ([120], 384)]"

lemma sample_first_load:
  "load_server_file toy_crypto toy_config (sample_files Written) (replicate 32 7) ''server.json'' sample_file =
     (Inr ((applyServerDefaults sample_server_conf)\<lparr>sv_privateKey := b64_encode False True (replicate 32 7)\<rparr>),
      sample_file(''server.json'' \<mapsto> (120 # str_bytes (b64_encode False True (replicate 32 7)), 384)))"
proof -
  have e: "sample_server_conf\<lparr>sv_privateKey := []\<rparr> = sample_server_conf" by (simp add: sample_server_conf_def)
  have l: "loadJSON (sample_files Written) (cj_server toy_config) ''server.json'' sample_file = Some sample_server_conf"
    by (simp add: loadJSON_def os_ReadFile_def sample_files_def sample_file_def toy_config_def key_in_def e)
  have p: "patchPrivateKey toy_config (sample_files Written) ''server.json'' k sample_file =
      (None, sample_file(''server.json'' \<mapsto> (120 # str_bytes k, 384)))" for k
    by (simp add: patchPrivateKey_def os_ReadFile_def os_WriteFile_def sample_files_def sample_file_def
        toy_config_def key_in_def Let_def)
  show ?thesis
    using sample_load by (simp add: load_server_file_def l p patched_def)
qed

theorem config_reloads_witness:
  "\<exists>conf F1. load_server_file toy_crypto toy_config (sample_files Written) (replicate 32 7) ''server.json'' sample_file =
       (Inr conf, F1) \<and>
     load_server_file toy_crypto toy_config (sample_files Written) [] ''server.json'' F1 = (Inr conf, F1)"
proof -
  have "sample_file ''server.json'' = Some ([120], 384)" by (simp add: sample_file_def)
  moreover have "patchable toy_config [120]" by (rule toy_patchable) simp
  ultimately show ?thesis
    using config_reloads [where path = "''server.json''" and F = sample_file and data = "[120]" and
        perm = 384 and J = toy_config and C = toy_crypto and W = "sample_files Written" and
        ent = "replicate 32 7" and ent' = "[]"] sample_first_load
    by simp
qed

theorem failed_patch_empties_witness:
  "\<exists>F1. load_server_file toy_crypto toy_config (sample_files (Stopped 0)) (replicate 32 7) ''server.json'' sample_file =
       (Inl PatchFailed, F1) \<and> F1 ''server.json'' = Some ([], 384)"
proof -
  have "sample_server_conf\<lparr>sv_privateKey := []\<rparr> = sample_server_conf" by (simp add: sample_server_conf_def)
  then have d: "cj_server toy_config [120] = Some sample_server_conf"
    "cj_server toy_config [] = None" by (simp_all add: toy_config_def key_in_def)
  have v: "validateVDHCP (sv_vdhcp (applyServerDefaults sample_server_conf)) = None"
    using defaults_valid by (simp add: applyServerDefaults_def sample_server_conf_def)
  have k: "trim_space (sv_privateKey sample_server_conf) = []"
    by (simp add: sample_server_conf_def trim_space_def strip_front.simps space_runes_def starts_with_def)
  have f: "sample_file ''server.json'' = Some ([120], 384)" by (simp add: sample_file_def)
  have r: "fe_readable (sample_files (Stopped 0)) ''server.json''"
    "fe_write (sample_files (Stopped 0)) ''server.json'' = (\<lambda>out. Stopped 0)"
    by (simp_all add: sample_files_def)
  have t: "patchable toy_config [120]" by (rule toy_patchable) simp
  have "32 \<le> length (replicate 32 (7 :: byte))" by simp
  from failed_patch_empties [where path = "''server.json''" and F = sample_file, OF f t r(1) d(1) k v this r(2) d(2)] show ?thesis by blast
qed

end
