(* ===== verification/Program.thy ===== *)
theory Program
  imports Server_Start Config_File Sessions
begin

text \<open>
  \<^verbatim>\<open>main.go\<close>: a process that runs a server or a client, from the configuration file to the signal that
  ends it. A fatal error ends the process, and is the left value here; what happens between start and
  signal is an argument.
\<close>

section \<open>The processes\<close>

definition runServer ::
    "crypto \<Rightarrow> 'v config_json \<Rightarrow> file_env \<Rightarrow> bytes \<Rightarrow> boot_env \<Rightarrow> int \<Rightarrow> (server \<Rightarrow> server) \<Rightarrow> files \<Rightarrow>
     nat_state \<Rightarrow> cmd_log \<Rightarrow> ((config_error + start_error) + running) \<times> files \<times> nat_state \<times> cmd_log" where
  "runServer C J W ent B now serve F st log =
     (case LoadServerConfig C J W ent F of
        (Inl e, F1) \<Rightarrow> (Inl (Inl e), F1, st, log)
      | (Inr conf, F1) \<Rightarrow>
          (case server_Start B now conf st log of
             (Inl e, st1, log1) \<Rightarrow> (Inl (Inr e), F1, st1, log1)
           | (Inr r, st1, log1) \<Rightarrow>
               (case server_Stop B (r\<lparr>ru_server := serve (ru_server r)\<rparr>) st1 log1 of
                  (r2, st2, log2) \<Rightarrow> (Inr r2, F1, st2, log2))))"

text \<open>\<open>current\<close>: the connection of the transport when the signal comes.\<close>

definition runClient ::
    "client_env \<Rightarrow> 'v config_json \<Rightarrow> file_env \<Rightarrow> bytes \<Rightarrow> (client \<Rightarrow> client) \<Rightarrow> nat option \<Rightarrow> files \<Rightarrow>
     ((config_error + tcp_error) + client) \<times> files" where
  "runClient E J W ent serve current F =
     (case LoadClientConfig (ce_crypto E) J W ent F of
        (Inl e, F1) \<Rightarrow> (Inl (Inl e), F1)
      | (Inr conf, F1) \<Rightarrow>
          (case client_start (ce_crypto E) (NewVlanClient conf) of
             Inl e \<Rightarrow> (Inl (Inr e), F1)
           | Inr s \<Rightarrow> (Inr (client_stop E current (serve s)), F1)))"

section \<open>What a well-formed configuration makes possible\<close>

lemma key_ok_parts:
  assumes "key_ok key"
  obtains h k where "NormalizePrivateKeyHex key = Inr h" "ParsePrivateKeyHex h = Inr k"
    "ParsePrivateKeyAny key = Inr k"
proof -
  from assms obtain k where k: "ParsePrivateKeyAny key = Inr k" "length k = 32"
    by (auto simp: key_ok_def split: sum.splits)
  then have "NormalizePrivateKeyHex key = Inr (hex_encode k)" by (simp add: NormalizePrivateKeyHex_def)
  moreover from k(2) have "ParsePrivateKeyHex (hex_encode k) = Inr k"
    by (simp add: ParsePrivateKeyHex_def x25519_new_def)
  ultimately show ?thesis using k(1) that by blast
qed

lemma server_conf_initDHCP:
  assumes "server_conf_ok conf"
  shows "\<exists>m. initDHCP conf = Inr m"
  unfolding initDHCP_def using assms
  by (intro NewManager_valid [of "sv_vdhcp conf"])
    (simp_all add: server_conf_ok_def dhcp_config_of_def config_normalizeDNSServers_def normalizeDNSServers_def)

lemma server_conf_initTCP:
  assumes "server_conf_ok conf"
  shows "\<exists>srv. initTCP conf = Inr srv"
proof -
  from assms have "key_ok (sv_privateKey conf)" by (simp add: server_conf_ok_def)
  then obtain h k where "NormalizePrivateKeyHex (sv_privateKey conf) = Inr h" "ParsePrivateKeyHex h = Inr k"
    by (rule key_ok_parts)
  then show ?thesis by (simp add: initTCP_def tcpx_NewServer_def)
qed

lemma server_conf_starts:
  assumes "server_conf_ok conf" and "server_Start B now conf st log = (Inl e, st1, log1)"
  shows "(\<forall>d. e \<noteq> StartDHCP d) \<and> (\<forall>t. e \<noteq> StartTCP t)"
proof -
  obtain s where s: "NewServer conf = Inr s"
    using server_conf_initDHCP [OF assms(1)] by (auto simp: NewServer_def)
  obtain srv where t: "initTCP conf = Inr srv" using server_conf_initTCP [OF assms(1)] by blast
  have "(\<forall>d. x \<noteq> StartDHCP d) \<and> (\<forall>t. x \<noteq> StartTCP t)"
    if "initGatewayTun B conf st log = (Inl x, st', log')" for x st' log'
    using that by (auto simp: initGatewayTun_def split: option.splits prod.splits)
  moreover have "initManagement B conf \<noteq> Inl (StartDHCP d)" "initManagement B conf \<noteq> Inl (StartTCP x)" for d x
    by (auto simp: initManagement_def split: option.split)
  moreover have "map_sum id Some a = Inl x \<longleftrightarrow> a = Inl x" for a :: "start_error + tunnel" and x
    by (cases a) auto
  ultimately show ?thesis
    using assms(2) s t
    by (cases "initGatewayTun B conf st log")
      (auto simp: server_Start_def Let_def split: if_splits sum.splits prod.splits)
qed

lemma client_conf_starts:
  assumes "client_conf_ok conf"
  shows "\<exists>s. client_start C (NewVlanClient conf) = Inr s \<and> k_started s"
proof -
  from assms obtain pub where pub: "ParsePublicKeyAny (cc_serverPublicKey conf) = Inr pub"
    by (auto simp: client_conf_ok_def split: sum.splits)
  then have "length pub = 32" using DecodeX25519Key_length
    by (auto simp: ParsePublicKeyAny_def x25519_new_def split: sum.splits if_splits)
  with pub have p: "NormalizePublicKeyHex (cc_serverPublicKey conf) = Inr (hex_encode pub)"
    "ParsePublicKeyHex (hex_encode pub) = Inr pub"
    by (simp_all add: NormalizePublicKeyHex_def ParsePublicKeyHex_def x25519_new_def)
  from assms have "key_ok (cc_privateKey conf)" by (simp add: client_conf_ok_def)
  then obtain k where "ParsePrivateKeyAny (cc_privateKey conf) = Inr k" by (rule key_ok_parts)
  with p show ?thesis
    by (simp add: client_start_def NewVlanClient_def initTransport_def PublicKeyHexFromPrivate_def
        tcpx_NewClient_def Let_def)
qed

section \<open>Properties\<close>

text \<open>
  C22: A configuration that loads does not go wrong. Whatever the files hold and whatever the file
  system and the random source answer: a configuration that loads is well formed, and loading has
  changed no other file; when \<open>runServer\<close> gets past loading, it can fail only for the host (the
  device, its address, the address translation, the management address), and never for the pool of
  addresses or the key; when \<open>runClient\<close> gets past loading, it starts.
\<close>

theorem program_starts:
  "(\<forall>e. fst (runServer C J W ent B now serve F st log) \<noteq> Inl (Inr (StartDHCP e))) \<and>
   (\<forall>e. fst (runServer C J W ent B now serve F st log) \<noteq> Inl (Inr (StartTCP e))) \<and>
   (\<forall>e. fst (runClient E J W ent serve' current F) \<noteq> Inl (Inr e)) \<and>
   (case LoadServerConfig C J W ent F of
      (Inr conf, F') \<Rightarrow> server_conf_ok conf \<and> F'(''server.json'' := None) = F(''server.json'' := None)
    | _ \<Rightarrow> True) \<and>
   (case LoadClientConfig (ce_crypto E) J W ent F of
      (Inr conf, F') \<Rightarrow> client_conf_ok conf \<and> F'(''client.json'' := None) = F(''client.json'' := None)
    | _ \<Rightarrow> True)"
proof (intro conjI)
  obtain r F' where l: "LoadServerConfig C J W ent F = (r, F')" by fastforce
  obtain rk Fk where k: "LoadClientConfig (ce_crypto E) J W ent F = (rk, Fk)" by fastforce
  show "case LoadServerConfig C J W ent F of
      (Inr conf, F') \<Rightarrow> server_conf_ok conf \<and> F'(''server.json'' := None) = F(''server.json'' := None)
    | _ \<Rightarrow> True"
    using LoadServerConfig_ok [of C J W ent F _ F'] l by (simp split: sum.split)
  show "case LoadClientConfig (ce_crypto E) J W ent F of
      (Inr conf, F') \<Rightarrow> client_conf_ok conf \<and> F'(''client.json'' := None) = F(''client.json'' := None)
    | _ \<Rightarrow> True"
    using LoadClientConfig_ok [of "ce_crypto E" J W ent F _ Fk] k by (simp split: sum.split)
  have "(\<forall>d. e \<noteq> StartDHCP d) \<and> (\<forall>t. e \<noteq> StartTCP t)"
    if "fst (runServer C J W ent B now serve F st log) = Inl (Inr e)" for e
  proof (cases r)
    case (Inr conf)
    with LoadServerConfig_ok l have "server_conf_ok conf" by blast
    moreover from that l Inr obtain st1 log1 where "server_Start B now conf st log = (Inl e, st1, log1)"
      by (auto simp: runServer_def split: sum.splits prod.splits)
    ultimately show ?thesis by (rule server_conf_starts)
  qed (use that l in \<open>simp add: runServer_def\<close>)
  then show "\<forall>e. fst (runServer C J W ent B now serve F st log) \<noteq> Inl (Inr (StartDHCP e))"
    "\<forall>e. fst (runServer C J W ent B now serve F st log) \<noteq> Inl (Inr (StartTCP e))" by blast+
  show "\<forall>e. fst (runClient E J W ent serve' current F) \<noteq> Inl (Inr e)"
  proof (cases rk)
    case (Inr conf)
    with LoadClientConfig_ok k have "client_conf_ok conf" by blast
    then obtain s where "client_start (ce_crypto E) (NewVlanClient conf) = Inr s"
      using client_conf_starts by blast
    with k Inr show ?thesis by (simp add: runClient_def)
  qed (use k in \<open>simp add: runClient_def\<close>)
qed

end
