(* ===== verification/Listener.thy ===== *)
theory Listener
  imports Transport
begin

text \<open>
  \<^verbatim>\<open>tcpx/server.go\<close>: the listening socket, the loop of \<^verbatim>\<open>ListenAndServe\<close>, \<^verbatim>\<open>Close\<close>, and the goroutine that
  closes the server when its context ends. Each is a step on one state; what \<^verbatim>\<open>Listen\<close> and \<^verbatim>\<open>Accept\<close>
  answer is given with the step. The connections handed over are handled by \<open>handleConn\<close>.
\<close>

section \<open>State\<close>

datatype loop_phase = NotListening | Accepting | Returned "tcp_error option"

text \<open>
  \<open>li_listener\<close>: is there a listener, and is it open; \<open>li_watch\<close>: the goroutine that waits for the
  context runs.
\<close>

record listener =
  li_listener :: "bool option"
  li_closed :: bool
  li_cancel :: bool
  li_watch :: bool
  li_phase :: loop_phase
  li_conns :: "net_conn list"

definition new_listener :: listener where
  "new_listener = \<lparr>li_listener = None, li_closed = False, li_cancel = False, li_watch = False,
     li_phase = NotListening, li_conns = []\<rparr>"

section \<open>Operations\<close>

definition li_listen :: "tcp_error option \<Rightarrow> listener \<Rightarrow> listener" where
  "li_listen answer s =
     (case answer of
        Some e \<Rightarrow> s\<lparr>li_phase := Returned (Some e)\<rparr>
      | None \<Rightarrow> s\<lparr>li_listener := Some True, li_closed := False, li_watch := True, li_phase := Accepting\<rparr>)"

definition li_Close :: "listener \<Rightarrow> listener" where
  "li_Close s = s\<lparr>li_closed := True, li_listener := map_option (\<lambda>_. False) (li_listener s)\<rparr>"

definition isClosed :: "listener \<Rightarrow> bool" where
  "isClosed s \<longleftrightarrow> li_closed s"

definition li_watcher :: "listener \<Rightarrow> listener option" where
  "li_watcher s = (if li_watch s \<and> li_cancel s then Some ((li_Close s)\<lparr>li_watch := False\<rparr>) else None)"

text \<open>A turn of the loop. A listener that has been closed accepts no connection.\<close>

definition accept_turn :: "tcp_error + net_conn \<Rightarrow> listener \<Rightarrow> listener option" where
  "accept_turn answer s =
     (case answer of
        Inl e \<Rightarrow>
          if isClosed s \<or> li_cancel s then Some (s\<lparr>li_phase := Returned None\<rparr>)
          else Some (s\<lparr>li_phase := Returned (Some e)\<rparr>)
      | Inr raw \<Rightarrow> if li_listener s = Some True then Some (s\<lparr>li_conns := li_conns s @ [raw]\<rparr>) else None)"

datatype listen_event =
    LListen "tcp_error option"
  | LAccept "tcp_error + net_conn"
  | LClose
  | LCancel
  | LWatch

fun li_step :: "listen_event \<Rightarrow> listener \<Rightarrow> listener option" where
  "li_step (LListen answer) s = (if li_phase s = NotListening then Some (li_listen answer s) else None)"
| "li_step (LAccept answer) s = (if li_phase s = Accepting then accept_turn answer s else None)"
| "li_step LClose s = Some (li_Close s)"
| "li_step LCancel s = Some (s\<lparr>li_cancel := True\<rparr>)"
| "li_step LWatch s = li_watcher s"

fun li_steps :: "listen_event list \<Rightarrow> listener \<Rightarrow> listener option" where
  "li_steps [] s = Some s"
| "li_steps (ev # evs) s = (case li_step ev s of None \<Rightarrow> None | Some s' \<Rightarrow> li_steps evs s')"

lemmas li_defs = li_listen_def li_Close_def li_watcher_def accept_turn_def isClosed_def

section \<open>What stays\<close>

text \<open>The loop runs on a listener; and one that has been closed stays so.\<close>

definition li_ok :: "listener \<Rightarrow> bool" where
  "li_ok s \<longleftrightarrow> (li_phase s = Accepting \<longrightarrow> li_listener s \<noteq> None) \<and> (li_phase s = NotListening \<longrightarrow> li_listener s = None)"

lemma li_ok_step: "li_ok s \<Longrightarrow> li_step ev s = Some s' \<Longrightarrow> li_ok s'"
  by (cases ev) (auto simp: li_ok_def li_defs split: if_splits sum.splits option.splits)

lemma li_ok_steps: "li_steps evs s = Some s' \<Longrightarrow> li_ok s \<Longrightarrow> li_ok s'"
  by (induction evs arbitrary: s) (auto split: option.splits dest: li_ok_step)

definition li_shut :: "listener \<Rightarrow> bool" where
  "li_shut s \<longleftrightarrow> li_closed s \<and> li_listener s = Some False \<and> (li_phase s = Accepting \<or> li_phase s = Returned None)"

lemma shut_step: "li_shut s \<Longrightarrow> li_step ev s = Some s' \<Longrightarrow> li_shut s' \<and> li_conns s' = li_conns s"
  by (cases ev) (auto simp: li_shut_def li_defs split: if_splits sum.splits)

lemma shut_steps: "li_steps evs s = Some s' \<Longrightarrow> li_shut s \<Longrightarrow> li_shut s' \<and> li_conns s' = li_conns s"
proof (induction evs arbitrary: s)
  case (Cons ev evs)
  then obtain s1 where "li_step ev s = Some s1" "li_steps evs s1 = Some s'" by (auto split: option.splits)
  with Cons.IH [of s1] shut_step [OF Cons.prems(2), of ev s1] show ?case by simp
qed simp

definition ended :: "tcp_error option \<Rightarrow> listener \<Rightarrow> bool" where
  "ended r s \<longleftrightarrow> li_phase s = Returned r"

lemma ended_steps: "li_steps evs s = Some s' \<Longrightarrow> ended r s \<Longrightarrow> ended r s' \<and> li_conns s' = li_conns s"
proof (induction evs arbitrary: s)
  case (Cons ev evs)
  then obtain s1 where s1: "li_step ev s = Some s1" "li_steps evs s1 = Some s'" by (auto split: option.splits)
  have "ended r s1 \<and> li_conns s1 = li_conns s"
    using s1(1) Cons.prems(2) by (cases ev) (auto simp: ended_def li_defs split: if_splits)
  with Cons.IH [OF s1(2)] show ?case by simp
qed simp

text \<open>The loop of \<open>accept_loop\<close> is what the turns do as long as nothing closes the server.\<close>

lemma accept_loop_turns:
  assumes "li_phase s = Accepting" "li_listener s = Some True" "\<not> li_closed s" "\<not> li_cancel s"
    and "accept_loop (map (\<lambda>a. (a, False)) answers) = (conns, r)" and "li_steps (map LAccept answers) s = Some s'"
  shows "li_conns s' = li_conns s @ conns \<and> li_phase s' = (case r of None \<Rightarrow> Accepting | Some e \<Rightarrow> Returned e)"
  using assms
proof (induction answers arbitrary: s conns r)
  case (Cons a answers)
  show ?case
  proof (cases a)
    case (Inl e)
    with Cons.prems show ?thesis by (cases answers) (auto simp: accept_turn_def isClosed_def)
  next
    case (Inr raw)
    obtain conns' where "accept_loop (map (\<lambda>a. (a, False)) answers) = (conns', r)" "conns = raw # conns'"
      using Cons.prems(5) Inr by (auto split: prod.splits)
    with Cons.IH [of "s\<lparr>li_conns := li_conns s @ [raw]\<rparr>" conns' r] Cons.prems Inr show ?thesis
      by (simp add: accept_turn_def)
  qed
qed simp

section \<open>Properties\<close>

text \<open>
  Closing ends the listening. When a server that listens is closed, by \<^verbatim>\<open>Close\<close> or by the end of its
  context, then whatever happens after, no further connection is handled, the listener stays closed,
  and \<^verbatim>\<open>ListenAndServe\<close> returns without an error as soon as \<^verbatim>\<open>Accept\<close> answers.
\<close>

theorem close_ends_listening:
  assumes "li_steps evs new_listener = Some s" and "li_phase s = Accepting"
    and "li_step ev s = Some s1" "ev = LClose \<or> ev = LWatch"
    and "li_steps evs' s1 = Some s2"
  shows "li_conns s2 = li_conns s \<and> li_listener s2 = Some False \<and>
    (case li_step (LAccept (Inl e)) s2 of
       Some s3 \<Rightarrow> li_phase s2 = Accepting \<and> li_phase s3 = Returned None
     | None \<Rightarrow> li_phase s2 = Returned None)"
proof -
  have "li_ok new_listener" by (simp add: li_ok_def new_listener_def)
  then have "li_ok s" by (rule li_ok_steps [OF assms(1)])
  then have "li_shut s1 \<and> li_conns s1 = li_conns s"
    using assms(2-4) by (auto simp: li_ok_def li_shut_def li_defs split: if_splits)
  with shut_steps [OF assms(5)] show ?thesis
    by (auto simp: li_shut_def accept_turn_def isClosed_def)
qed

text \<open>
  C36: One failed \<^verbatim>\<open>Accept\<close> ends the service. When \<^verbatim>\<open>Accept\<close> fails though nobody has closed the server,
  as when the process has no file descriptor left, \<^verbatim>\<open>ListenAndServe\<close> returns that error and no
  connection is ever handled again, while the listener stays open, so that clients still connect to it,
  until somebody closes the server.
\<close>

theorem accept_failure_ends_service:
  assumes "li_phase s = Accepting" "li_listener s = Some True" "\<not> li_closed s" "\<not> li_cancel s"
    and "li_step (LAccept (Inl e)) s = Some s1" and "li_steps evs s1 = Some s2"
  shows "li_phase s2 = Returned (Some e) \<and> li_conns s2 = li_conns s \<and>
    (list_all (\<lambda>ev. ev \<noteq> LClose \<and> ev \<noteq> LWatch) evs \<longrightarrow> li_listener s2 = Some True)"
proof -
  from assms(1-5) have s1: "ended (Some e) s1" "li_conns s1 = li_conns s" "li_listener s1 = Some True"
    by (auto simp: ended_def accept_turn_def isClosed_def)
  have "li_steps evs s1 = Some s2 \<Longrightarrow> ended (Some e) s1 \<Longrightarrow> li_listener s1 = Some True \<Longrightarrow>
      list_all (\<lambda>ev. ev \<noteq> LClose \<and> ev \<noteq> LWatch) evs \<Longrightarrow> li_listener s2 = Some True" for s1
  proof (induction evs arbitrary: s1)
    case (Cons ev evs)
    then obtain t where t: "li_step ev s1 = Some t" "li_steps evs t = Some s2" by (auto split: option.splits)
    have "ended (Some e) t \<and> li_listener t = Some True"
      using t(1) Cons.prems(2-4) by (cases ev) (auto simp: ended_def li_defs split: if_splits)
    with Cons.IH [OF t(2)] Cons.prems(4) show ?case by simp
  qed simp
  with ended_steps [OF assms(6) s1(1)] s1 assms(6) show ?thesis by (simp add: ended_def)
qed

definition sample_raw :: net_conn where
  "sample_raw = \<lparr>incoming = [], rd_err = ErrEOF, outgoing = [], wr_room = 9, wr_err = ErrReset, shut = False,
     rd_deadline = None, wr_deadline = None\<rparr>"

theorem close_ends_listening_witness:
  "\<exists>s s1 s2. li_steps [LListen None, LAccept (Inr sample_raw), LCancel] new_listener = Some s \<and>
     li_step LWatch s = Some s1 \<and> li_steps [LAccept (Inl ErrNetClosed)] s1 = Some s2 \<and>
     li_conns s2 = [sample_raw] \<and> li_phase s2 = Returned None"
proof -
  let ?s = "\<lparr>li_listener = Some True, li_closed = False, li_cancel = True, li_watch = True,
    li_phase = Accepting, li_conns = [sample_raw]\<rparr>"
  let ?s1 = "\<lparr>li_listener = Some False, li_closed = True, li_cancel = True, li_watch = False,
    li_phase = Accepting, li_conns = [sample_raw]\<rparr>"
  have 1: "li_steps [LListen None, LAccept (Inr sample_raw), LCancel] new_listener = Some ?s"
    and 2: "li_step LWatch ?s = Some ?s1"
    by (simp_all add: li_defs new_listener_def)
  have 3: "li_steps [LAccept (Inl ErrNetClosed)] ?s1 = Some (?s1\<lparr>li_phase := Returned None\<rparr>)"
    by (simp add: li_defs)
  from close_ends_listening [OF 1 _ 2 _ 3, of ErrNetClosed] have
    "li_conns (?s1\<lparr>li_phase := Returned None\<rparr>) = [sample_raw]" by simp
  with 1 2 3 show ?thesis by force
qed

theorem accept_failure_ends_service_witness:
  "\<exists>s s1. li_steps [LListen None] new_listener = Some s \<and> li_step (LAccept (Inl ErrAccept)) s = Some s1 \<and>
     li_phase s1 = Returned (Some ErrAccept) \<and> li_listener s1 = Some True"
proof -
  let ?s = "\<lparr>li_listener = Some True, li_closed = False, li_cancel = False, li_watch = True,
    li_phase = Accepting, li_conns = []\<rparr>"
  have 1: "li_steps [LListen None] new_listener = Some ?s" by (simp add: li_defs new_listener_def)
  have 2: "li_step (LAccept (Inl ErrAccept)) ?s = Some (?s\<lparr>li_phase := Returned (Some ErrAccept)\<rparr>)"
    by (simp add: li_defs)
  from accept_failure_ends_service [OF _ _ _ _ 2, of "[]"] 1 2 show ?thesis by force
qed

end
