(* ===== verification/Desktop_Link.thy ===== *)
theory Desktop_Link
  imports Sessions Transport_User
begin

text \<open>
  The desktop client of \<^verbatim>\<open>vlan/client.go\<close> on top of the reconnecting client of \<^verbatim>\<open>tcpx/client.go\<close>, as
  \<^verbatim>\<open>initTransport\<close> puts them together and \<^verbatim>\<open>runTransport\<close> runs them.
\<close>

section \<open>The client called back\<close>

text \<open>
  The state is the client with the link of its transport. \<^verbatim>\<open>OnMessage\<close> may have to wait for room in
  the queue of the device: then \<^verbatim>\<open>writeLoop\<close> hands a batch to the device, which takes it or fails.
\<close>

type_synonym desktop = "client \<times> link"

fun desktop_received :: "client_env \<Rightarrow> int \<Rightarrow> call_data \<Rightarrow> bytes \<Rightarrow> desktop \<Rightarrow> desktop option" where
  "desktop_received E now d m (s, Up c) =
     (case client_step E now (KMessage c m (cd_write d)) s of
        Some s' \<Rightarrow> Some (s', Up c)
      | None \<Rightarrow>
          (case client_step E now (KTunTurn (WriteTurn (\<lambda>k. False) (cd_write d))) s of
             None \<Rightarrow> None
           | Some s1 \<Rightarrow>
               map_option (\<lambda>s'. (s', Up c)) (client_step E now (KMessage c m (cd_write d)) s1)))"
| "desktop_received E now d m (s, l) = None"

fun desktop_dropped :: "client_env \<Rightarrow> int \<Rightarrow> desktop \<Rightarrow> desktop option" where
  "desktop_dropped E now (s, Up c) = map_option (\<lambda>s'. (s', Lost)) (client_step E now (KLost c) s)"
| "desktop_dropped E now (s, l) = None"

text \<open>What the client does by itself: a repeated \<^verbatim>\<open>Start\<close>, its device and the forwarding of packets.\<close>

fun client_itself :: "client_event \<Rightarrow> bool" where
  "client_itself KStart \<longleftrightarrow> True"
| "client_itself KForward \<longleftrightarrow> True"
| "client_itself (KTunTurn ev) \<longleftrightarrow> True"
| "client_itself ev \<longleftrightarrow> False"

definition desktop_user :: "client_env \<Rightarrow> int \<Rightarrow> (desktop, call_data, client_event) user_ops" where
  "desktop_user E now =
     \<lparr>u_opened = \<lambda>d (s, l). Some (s, Opened (length (k_conns s))),
      u_connected = \<lambda>d (s, l). map_option (\<lambda>s'. (s', Up (length (k_conns s))))
        (client_step E now (KConnect (cd_remote d) (cd_room d) (cd_auth d) (cd_discover d)) s),
      u_received = desktop_received E now,
      u_dropped = desktop_dropped E now,
      u_ended = \<lambda>(s, l). map_option (\<lambda>s'. (s', Down)) (client_step E now KDisconnect s),
      u_app = \<lambda>ev (s, l). if client_itself ev then map_option (\<lambda>s'. (s', l)) (client_step E now ev s)
        else None\<rparr>"

section \<open>What the client keeps\<close>

definition device_ok :: "client \<Rightarrow> bool" where
  "device_ok s \<longleftrightarrow> pred_option (\<lambda>t. (tt_done t \<or> tt_writing t) \<and> [] \<notin> set (tt_wq t) \<and>
     length (tt_wq t) \<le> tunPacketQueueSize) (k_tun s)"

text \<open>
  A session belongs to the last connection, and that is the one that the transport serves, or it has
  been closed.
\<close>

definition session_linked :: "client \<Rightarrow> link \<Rightarrow> bool" where
  "session_linked s l \<longleftrightarrow>
     (case l of
        Down \<Rightarrow> cs_conn (k_session s) = None
      | Opened c \<Rightarrow> cs_conn (k_session s) = None \<and> c = length (k_conns s)
      | Up c \<Rightarrow> length (k_conns s) = Suc c \<and> (cs_conn (k_session s) = None \<or> cs_conn (k_session s) = Some c)
      | Lost \<Rightarrow> (\<exists>c. length (k_conns s) = Suc c \<and> cn_closed (k_conns s ! c) \<and>
          (cs_conn (k_session s) = None \<or> cs_conn (k_session s) = Some c)))"

definition desktop_alive :: "desktop \<Rightarrow> bool" where
  "desktop_alive x \<longleftrightarrow> (case x of (s, l) \<Rightarrow> k_started s \<and> session_ok s \<and> device_ok s \<and>
     session_linked s l)"

text \<open>The two things a handler leaves alone.\<close>

definition same_link :: "client \<Rightarrow> client \<Rightarrow> bool" where
  "same_link s s' \<longleftrightarrow> k_started s' = k_started s \<and> cs_conn (k_session s') = cs_conn (k_session s) \<and>
     length (k_conns s') = length (k_conns s) \<and> (device_ok s \<longrightarrow> device_ok s') \<and>
     (\<forall>c<length (k_conns s). cn_closed (k_conns s ! c) \<longrightarrow> cn_closed (k_conns s' ! c))"

lemma same_link_refl [intro, simp]: "same_link s s"
  by (simp add: same_link_def)

lemma same_link_trans: "same_link s s1 \<Longrightarrow> same_link s1 s2 \<Longrightarrow> same_link s s2"
  by (auto simp: same_link_def)

lemma same_linkD: "same_link s s' \<Longrightarrow> session_linked s l \<Longrightarrow> session_linked s' l"
  by (cases l) (auto simp: same_link_def session_linked_def)

lemma same_link_conn:
  assumes "\<And>x. cn_closed x \<Longrightarrow> cn_closed (f x)"
  shows "same_link s (upd_kconn c f s)"
proof -
  have "cn_closed ((k_conns s)[c := f (k_conns s ! c)] ! d)"
    if "d < length (k_conns s)" "cn_closed (k_conns s ! d)" for d
    using that assms by (cases "d = c") auto
  then show ?thesis by (simp add: same_link_def upd_kconn_def device_ok_def)
qed

lemma same_link_close [simp]: "same_link s (k_close c s)"
  unfolding k_close_def by (rule same_link_conn) (simp add: conn_close_def)

lemma same_link_write: "k_write c p s = (b, s') \<Longrightarrow> same_link s s'"
  by (auto dest!: k_write_state intro!: same_link_conn simp: conn_write_def)

section \<open>The device\<close>

lemma device_new: "pred_option (\<lambda>t. (tt_done t \<or> tt_writing t) \<and> [] \<notin> set (tt_wq t) \<and>
     length (tt_wq t) \<le> tunPacketQueueSize) (Some (NewTUNTunnel b))"
  by (simp add: NewTUNTunnel_def)

lemma device_write:
  assumes "device_ok s" and "k_tun s = Some t" and "tt_write pick pkt t = Some (ok, t')"
  shows "device_ok (s\<lparr>k_stats := x, k_tun := Some t'\<rparr>)"
  using assms by (auto simp: device_ok_def tt_write_def split: if_splits)

lemma write_turn_device:
  assumes "write_turn pick ok t = Some t'" and "tt_done t \<or> tt_writing t" and "[] \<notin> set (tt_wq t)"
  shows "(tt_done t' \<or> tt_writing t') \<and> [] \<notin> set (tt_wq t') \<and> length (tt_wq t') \<le> length (tt_wq t) \<and>
    (\<not> tt_done t \<longrightarrow> tt_done t' \<or> length (tt_wq t') < length (tt_wq t))"
proof (cases "tt_wq t")
  case Nil
  with assms show ?thesis by (auto simp: write_turn_def split: if_splits)
next
  case (Cons pkt q)
  obtain r rest where d: "drain (tt_done t) pick (tt_batch t - 1) [pkt] q = (r, rest)" by fastforce
  from Cons assms(3) have "pkt \<noteq> []" "[] \<notin> set q" by auto
  from drain_parts [OF d this(2)] obtain taken where "q = taken @ rest" "r = None \<longrightarrow> tt_done t"
    by (auto split: option.splits)
  with Cons assms d \<open>pkt \<noteq> []\<close> show ?thesis
    by (auto simp: write_turn_def tt_close_def split: if_splits option.splits)
qed

lemma tunnel_step_device:
  assumes "tunnel_step ev t = Some t'" and "device_ok s" and "k_tun s = Some t"
  shows "device_ok (s\<lparr>k_tun := Some t'\<rparr>)"
proof (cases ev)
  case (WriteTurn pick ok)
  with assms write_turn_device [of pick ok t t'] show ?thesis by (auto simp: device_ok_def)
qed (use assms in \<open>auto simp: device_ok_def read_turn_def put_turn_def tt_close_def
      split: if_splits option.splits list.splits prod.splits\<close>)

section \<open>The handlers\<close>

lemma vdhcp_same:
  assumes "session_ok s" and "client_handleVDHCP E c payload s = (e, s')"
  shows "same_link s s'"
proof -
  note h = handleVDHCP_ok [OF assms] handleVDHCP_started [OF assms(2)]
  have fw: "k_forwarding s \<longrightarrow> k_tun s \<noteq> None" using assms(1) by (simp add: session_ok_def)
  have a: "k_session s1 = k_session s \<and> (k_tun s1 = k_tun s \<or> k_tun s1 = None \<or>
      (\<exists>b. k_tun s1 = Some (NewTUNTunnel b)))"
    if "configureAddress E ip m g dns mtu s = (e1, s1)" for ip m g dns mtu e1 s1
    using configureAddress_ok [OF that fw] by (cases "k_tun s") auto
  have "cs_conn (k_session s') = cs_conn (k_session s) \<and> (k_tun s' = k_tun s \<or> k_tun s' = None \<or>
      (\<exists>b. k_tun s' = Some (NewTUNTunnel b)))"
    using assms(2) by (auto simp: client_handleVDHCP_def Let_def dest!: a
        split: sum.splits if_splits option.splits prod.splits)
  with h device_new show ?thesis by (auto simp: same_link_def device_ok_def)
qed

lemma message_same:
  assumes "client_onTCPMessage E pick c raw s = Some s'" and "session_ok s"
  shows "same_link s s'"
proof -
  have "same_link s (s\<lparr>k_stats := x, k_tun := Some t'\<rparr>)"
    if "k_tun s = Some t" "tt_write pick pkt t = Some (ok, t')" for x t pkt ok t'
    using device_write [OF _ that] by (simp add: same_link_def)
  with assms(1) vdhcp_same [OF assms(2), of E c] same_link_trans [OF vdhcp_same [OF assms(2), of E c] same_link_close]
  show ?thesis
    by (auto simp: client_onTCPMessage_def split: if_splits sum.splits prod.splits
        payload_type.splits option.splits)
qed

lemma message_taken:
  assumes "pred_option (\<lambda>t. tt_done t \<or> length (tt_wq t) < tunPacketQueueSize) (k_tun s)"
  shows "\<exists>s'. client_onTCPMessage E pick c raw s = Some s'"
proof -
  have "tt_write pick pkt t \<noteq> None" if "k_tun s = Some t" for pkt t
    using that assms by (auto simp: tt_write_def)
  then show ?thesis
    by (auto simp: client_onTCPMessage_def split: sum.split prod.split payload_type.split option.split)
qed

lemma same_link_stats [simp]: "same_link s (s\<lparr>k_stats := x\<rparr>)"
  by (simp add: same_link_def device_ok_def)

lemma forward_same: "same_link s (tun_to_tcp pkt s)"
proof (cases "readyConn s")
  case (Some c)
  obtain b s1 where w: "k_write c (Pack TypeIP pkt) s = (b, s1)" by fastforce
  from same_link_write [OF w] same_link_trans [OF _ same_link_close] same_link_trans [OF _ same_link_stats]
  show ?thesis by (cases b) (auto simp: tun_to_tcp_def Some w)
qed (simp add: tun_to_tcp_def)

lemma itself_same:
  assumes "client_itself ev" and "client_step E now ev s = Some s'" and "k_started s"
  shows "same_link s s'"
proof (cases ev)
  case KStart
  with assms show ?thesis by (simp add: client_start_def)
next
  case KForward
  have "same_link s (s\<lparr>k_tun := Some t'\<rparr>)" if "k_tun s = Some t" "tt_receive t = Some (Inr (pkt, t'))" for t t' pkt
    using that by (auto simp: same_link_def device_ok_def tt_receive_def split: list.splits if_splits)
  from same_link_trans [OF this forward_same] KForward assms(2) show ?thesis
    by (auto simp: forward_turn_def same_link_def device_ok_def split: if_splits option.splits sum.splits
        intro: same_link_trans)
next
  case (KTunTurn tev)
  with assms(2) tunnel_step_device [of tev] show ?thesis
    by (auto simp: same_link_def simp del: tunnel_step.simps split: option.splits)
qed (use assms in simp_all)

section \<open>The transport and the client\<close>

lemma alive_same: "\<lbrakk>desktop_alive (s, l); same_link s s'; session_ok s'\<rbrakk> \<Longrightarrow> desktop_alive (s', l)"
  using same_linkD [of s s' l] by (simp add: desktop_alive_def same_link_def)

lemma desktop_message:
  assumes "desktop_alive (s, Up c)"
  shows "\<exists>s'. desktop_received E now d m (s, Up c) = Some (s', Up c) \<and> session_ok s' \<and> same_link s s'"
proof -
  have i: "session_ok s" "device_ok s" "c < length (k_conns s)"
    using assms by (auto simp: desktop_alive_def session_linked_def)
  show ?thesis
  proof (cases "client_onTCPMessage E (cd_write d) c m s")
    case (Some s')
    with i message_same [OF Some i(1)] session_ok_step [OF i(1), of E now "KMessage c m (cd_write d)" s']
    show ?thesis by simp
  next
    case None
    with message_taken [of s E "cd_write d" c m] obtain t where
      t: "k_tun s = Some t" "\<not> tt_done t" "\<not> length (tt_wq t) < tunPacketQueueSize"
      by (cases "k_tun s") auto
    with i(2) have w: "tt_writing t" "[] \<notin> set (tt_wq t)" "length (tt_wq t) = tunPacketQueueSize"
      by (auto simp: device_ok_def)
    have "tt_wq t \<noteq> []" using w(3) by (auto simp: tunPacketQueueSize_def)
    with w(1) have "\<exists>t1. write_turn (\<lambda>k. False) (cd_write d) t = Some t1"
      by (cases "tt_wq t") (simp_all add: write_turn_def split: prod.split option.split)
    then obtain t1 where t1: "write_turn (\<lambda>k. False) (cd_write d) t = Some t1" by blast
    let ?s1 = "s\<lparr>k_tun := Some t1\<rparr>"
    have st: "client_step E now (KTunTurn (WriteTurn (\<lambda>k. False) (cd_write d))) s = Some ?s1"
      using t(1) t1 by simp
    have s1: "same_link s ?s1" "session_ok ?s1"
      using itself_same [OF _ st] session_ok_step [OF i(1) st] assms by (simp_all add: desktop_alive_def)
    have "tt_done t1 \<or> length (tt_wq t1) < tunPacketQueueSize"
      using write_turn_device [OF t1] t w by auto
    then obtain s' where s': "client_onTCPMessage E (cd_write d) c m ?s1 = Some s'"
      using message_taken [of ?s1 E "cd_write d" c m] by auto
    from message_same [OF s' s1(2)] have "same_link s s'" by (rule same_link_trans [OF s1(1)])
    moreover have "session_ok s'"
      using session_ok_step [OF s1(2), of E now "KMessage c m (cd_write d)" s'] s' i(3) by simp
    ultimately show ?thesis using None s' st i(3) by simp
  qed
qed

lemma desktop_connect:
  assumes "desktop_alive (s, Opened c)" and "client_step E now (KConnect r room a e) s = Some s'"
  shows "desktop_alive (s', Up c)"
proof -
  let ?c = "length (k_conns s)"
  let ?n = "s\<lparr>k_conns := k_conns s @ [\<lparr>cn_remote = r, cn_closed = False, cn_room = room, cn_sent = []\<rparr>]\<rparr>"
  from assms(1) have i: "k_started s" "session_ok s" "device_ok s" "cs_conn (k_session s) = None" "c = ?c"
    by (simp_all add: desktop_alive_def session_linked_def)
  from assms(2) have s': "s' = client_onTCPConnect E a e now ?c ?n" by simp
  have "same_link ?n s' \<or> (\<exists>x. cs_conn x = Some ?c \<and> same_link (?n\<lparr>k_session := x\<rparr>) s')"
  proof (cases "EncodeClientAuth (ce_crypto E) (cc_privateKey (k_conf s)) (cc_serverPublicKey (k_conf s)) a")
    case (Inl x)
    then show ?thesis by (simp add: s' client_onTCPConnect_def)
  next
    case (Inr y)
    obtain auth clientID where y: "y = (auth, clientID)" by fastforce
    obtain discover reqID where d: "EncodeDiscover (ce_json E) e now = (discover, reqID)" by fastforce
    define x where "x = no_session\<lparr>cs_conn := Some ?c, cs_clientID := clientID, cs_reqID := reqID,
      cs_remote := r\<rparr>"
    obtain b2 s2 where w2: "k_write ?c (Pack TypeAuth auth) (?n\<lparr>k_session := x\<rparr>) = (b2, s2)" by fastforce
    obtain b3 s3 where w3: "k_write ?c (Pack TypeVDHCP discover) s2 = (b3, s3)" by fastforce
    have "s' = (if b2 then if b3 then s3 else k_close ?c s3 else k_close ?c s2)"
      using Inr y d w2 w3 by (simp add: s' client_onTCPConnect_def x_def)
    moreover note same_link_trans [OF same_link_write [OF w2] same_link_write [OF w3]]
    moreover have "cs_conn x = Some ?c" by (simp add: x_def)
    ultimately show ?thesis using same_link_write [OF w2]
      by (intro disjI2 exI [of _ x]) (auto intro: same_link_trans)
  qed
  then show ?thesis
    using i session_ok_step [OF i(2) assms(2)]
    by (auto simp: desktop_alive_def session_linked_def same_link_def device_ok_def)
qed

interpretation desktop: transport_user "desktop_user E now" desktop_alive snd
proof (unfold_locales, goal_cases)
  case (1 x d)
  then show ?case by (cases x) (simp add: desktop_user_def desktop_alive_def session_linked_def)
next
  case (2 x c d)
  then obtain s where x: "x = (s, Opened c)" by (cases x) simp
  obtain s' where s': "client_step E now (KConnect (cd_remote d) (cd_room d) (cd_auth d) (cd_discover d)) s = Some s'"
    by simp
  moreover have "c = length (k_conns s)" using 2(1) x by (simp add: desktop_alive_def session_linked_def)
  ultimately show ?case
    using desktop_connect [of s c E now _ _ _ _ s'] 2(1) by (simp add: desktop_user_def x)
next
  case (3 x c d m)
  then obtain s where x: "x = (s, Up c)" by (cases x) simp
  from desktop_message [of s c E now d m] 3(1) alive_same [of s "Up c"] show ?case
    by (auto simp: x desktop_user_def simp del: desktop_received.simps)
next
  case (4 x c)
  then obtain s where x: "x = (s, Up c)" by (cases x) simp
  from 4(1) have "c < length (k_conns s)" by (auto simp: x desktop_alive_def session_linked_def)
  moreover from this have "cn_closed (k_conns (k_close c s) ! c)"
    by (simp add: k_close_def upd_kconn_def conn_close_def)
  ultimately show ?case
    using 4(1) same_link_close [of s c]
    by (auto simp: x desktop_user_def desktop_alive_def session_linked_def same_link_def)
next
  case (5 x)
  then obtain s l where x: "x = (s, l)" by (cases x) simp
  from 5(1) session_ok_step [of s E now KDisconnect] show ?case
    by (auto simp: x desktop_user_def desktop_alive_def session_linked_def client_onTCPDisconnect_def
        no_session_def device_ok_def)
next
  case (6 x ev x')
  then obtain s l s' where x: "x = (s, l)" "x' = (s', l)" "client_itself ev" "client_step E now ev s = Some s'"
    by (cases x) (auto simp: desktop_user_def simp del: client_step.simps split: if_splits)
  with 6(1) have i: "k_started s" "session_ok s" by (simp_all add: desktop_alive_def)
  from alive_same [of s l] itself_same [OF x(3,4) i(1)] session_ok_step [OF i(2) x(4)] 6(1) show ?case
    by (simp add: x)
qed

lemma received_runs:
  assumes "desktop_received E now d m x = Some x'" and "client_run E s0 (fst x)"
  shows "client_run E s0 (fst x')"
  using assms by (cases "(E, now, d, m, x)" rule: desktop_received.cases)
    (auto split: option.splits simp del: client_step.simps intro: client_run.step)

lemma dropped_runs:
  assumes "desktop_dropped E now x = Some x'" and "client_run E s0 (fst x)"
  shows "client_run E s0 (fst x')"
  using assms by (cases "(E, now, x)" rule: desktop_dropped.cases)
    (auto simp del: client_step.simps intro: client_run.step)

lemma desktop_feed_runs:
  assumes "feed (desktop_user E now) d ev t x = Some x'" and "client_run E s0 (fst x)"
  shows "client_run E s0 (fst x')"
  using assms unfolding feed_def desktop_user_def user_ops.select_convs
  by (auto split: tc_event.splits phase.splits option.splits sum.splits prod.splits simp del: client_step.simps
      intro: client_run.step received_runs dropped_runs)

lemma desktop_joint_runs:
  "joint (desktop_user E now) xs t x = Some (t', x') \<Longrightarrow> client_run E s0 (fst x) \<Longrightarrow> client_run E s0 (fst x')"
proof (induction "desktop_user E now" xs t x rule: joint.induct)
  case (2 ev d xs t x)
  then show ?case by (auto split: option.splits simp del: tc_step.simps dest: desktop_feed_runs)
next
  case (3 a xs t x)
  have "client_run E s0 (fst (case u_app (desktop_user E now) a x of None \<Rightarrow> x | Some x' \<Rightarrow> x'))"
    using 3(3) by (auto simp: desktop_user_def split: option.splits if_splits prod.splits
        simp del: client_step.simps intro: client_run.step)
  with 3 show ?case by simp
qed simp



end
