(* ===== verification/End_To_End.thy ===== *)
theory End_To_End
  imports Server_Delivery Sessions
begin

text \<open>
  A packet on its whole way: from the TUN device of one client over the server to the TUN device of
  another. The connections are those of the transport, which hands over what was written, in order.
\<close>

section \<open>The two ends\<close>

text \<open>The messages of a connection, one after the other; \<open>None\<close>: the client waits with one of them.\<close>

fun messages_in :: "client_env \<Rightarrow> int \<Rightarrow> nat \<Rightarrow> bytes list \<Rightarrow> client \<Rightarrow> client option" where
  "messages_in E now c [] s = Some s"
| "messages_in E now c (m # ms) s =
     Option.bind (client_step E now (KMessage c m False) s) (messages_in E now c ms)"

text \<open>A client that can take \<open>n\<close> packets from the connection \<open>c\<close> into the queue of its device.\<close>

definition can_take :: "nat \<Rightarrow> nat \<Rightarrow> client \<Rightarrow> bool" where
  "can_take n c s \<longleftrightarrow>
     isReadyConn c s \<and> c < length (k_conns s) \<and>
     pred_option (\<lambda>t. \<not> tt_done t \<and> length (tt_wq t) + n \<le> tunPacketQueueSize) (k_tun s) \<and> k_tun s \<noteq> None"

definition device_queue :: "client \<Rightarrow> bytes list" where
  "device_queue s = (case k_tun s of None \<Rightarrow> [] | Some t \<Rightarrow> tt_wq t)"

lemma packet_taken:
  assumes "can_take (Suc n) c s" and "pkt \<noteq> []"
  shows "\<exists>s'. client_step E now (KMessage c (Pack TypeIP pkt) False) s = Some s' \<and> can_take n c s' \<and>
    device_queue s' = device_queue s @ [pkt]"
proof -
  from assms(1) obtain t where t: "k_tun s = Some t" "\<not> tt_done t" "length (tt_wq t) + Suc n \<le> tunPacketQueueSize"
    "isReadyConn c s" "c < length (k_conns s)" by (auto simp: can_take_def)
  then have "isCurrentConn c s" by (simp add: isReadyConn_def isCurrentConn_def)
  with t assms(2) show ?thesis
    by (simp add: client_onTCPMessage_def tt_write_def can_take_def device_queue_def isReadyConn_def)
qed

lemma packets_taken:
  "can_take (length pkts) c s \<Longrightarrow> list_all (\<lambda>p. p \<noteq> []) pkts \<Longrightarrow>
   \<exists>s'. messages_in E now c (map (Pack TypeIP) pkts) s = Some s' \<and>
     device_queue s' = device_queue s @ pkts"
proof (induction pkts arbitrary: s)
  case (Cons pkt pkts)
  then obtain s1 where s1: "client_step E now (KMessage c (Pack TypeIP pkt) False) s = Some s1"
    "can_take (length pkts) c s1" "device_queue s1 = device_queue s @ [pkt]"
    using packet_taken [of "length pkts" c s pkt E now] by auto
  with Cons.IH [OF s1(2)] Cons.prems(2) show ?case by (auto simp del: client_step.simps)
qed simp

text \<open>A client that forwards the next packet of its device on the connection \<open>c\<close>.\<close>

definition can_forward :: "nat \<Rightarrow> bytes \<Rightarrow> client \<Rightarrow> bool" where
  "can_forward c pkt s \<longleftrightarrow>
     isReadyConn c s \<and> k_forwarding s \<and> c < length (k_conns s) \<and> \<not> cn_closed (k_conns s ! c) \<and>
     0 < cn_room (k_conns s ! c) \<and>
     (case k_tun s of None \<Rightarrow> False | Some t \<Rightarrow> tt_rq t \<noteq> [] \<and> hd (tt_rq t) = pkt)"

lemma packet_forwarded:
  assumes "can_forward c pkt s"
  shows "\<exists>s'. client_step E now KForward s = Some s' \<and>
    cn_sent (k_conns s' ! c) = cn_sent (k_conns s ! c) @ [Pack TypeIP pkt]"
proof -
  from assms obtain t q where t: "k_tun s = Some t" "tt_rq t = pkt # q" "k_forwarding s"
    "cs_conn (k_session s) = Some c" "cs_ready (k_session s)" "c < length (k_conns s)"
    "\<not> cn_closed (k_conns s ! c)" "0 < cn_room (k_conns s ! c)"
    by (auto simp: can_forward_def isReadyConn_def neq_Nil_conv split: option.splits)
  then show ?thesis
    by (simp add: forward_turn_def tt_receive_def tun_to_tcp_def readyConn_def k_write_def
        conn_write_def upd_kconn_def)
qed

section \<open>The way of a packet\<close>

text \<open>
  C9: A packet reaches the device of the other client. A client in a ready session takes a packet from
  its device and sends it; the server takes the message, and the peer of the packet's destination
  address sends everything in its queue; the other client takes these messages in their order. Then
  the packets that waited at the server and after them this packet have been handed to the queue of
  the other client's device, each unchanged, after what was in that queue before.
\<close>

theorem packet_end_to_end:
  assumes "can_forward ca pkt a" and "pkt \<noteq> []"
    and "byConn (s_reg s) c = Some i" "c < length (s_conns s)" "authed (peer_at s i)"
    and "passes E i pkt dst s" and "byIP (s_reg s) (ip_String dst) = Some j"
    and "can_send (Suc (length (p_queue (peer_at s j)))) j s"
    and "length (p_queue (peer_at s j)) < serverPeerSendQueueSize"
    and "list_all (\<lambda>p. p \<noteq> []) (p_queue (peer_at s j))"
    and "can_take (Suc (length (p_queue (peer_at s j)))) cb b"
  shows "\<exists>a' s1 s2 b'.
    client_step Ea now KForward a = Some a' \<and>
    cn_sent (k_conns a' ! ca) = cn_sent (k_conns a ! ca) @ [Pack TypeIP pkt] \<and>
    server_step E now' (Message c (Pack TypeIP pkt)) s = Some s1 \<and>
    send_turns (Suc (length (p_queue (peer_at s j)))) j s1 = Some s2 \<and>
    sent_to j s2 = sent_to j s @ map (Pack TypeIP) (p_queue (peer_at s j) @ [pkt]) \<and>
    messages_in Eb now'' cb (map (Pack TypeIP) (p_queue (peer_at s j) @ [pkt])) b = Some b' \<and>
    device_queue b' = device_queue b @ p_queue (peer_at s j) @ [pkt]"
proof -
  let ?q = "p_queue (peer_at s j)"
  obtain a' where a': "client_step Ea now KForward a = Some a'"
    "cn_sent (k_conns a' ! ca) = cn_sent (k_conns a ! ca) @ [Pack TypeIP pkt]"
    using packet_forwarded [OF assms(1)] by blast
  obtain s1 where s1: "server_step E now' (Message c (Pack TypeIP pkt)) s = Some s1"
    "can_send (Suc (length ?q)) j s1" "p_queue (peer_at s1 j) = ?q @ [pkt]" "sent_to j s1 = sent_to j s"
    using message_enqueued [OF assms(3-9)] by blast
  obtain s2 where s2: "send_turns (Suc (length ?q)) j s1 = Some s2"
    "sent_to j s2 = sent_to j s @ map (Pack TypeIP) (?q @ [pkt])"
    using send_turns_ok [OF s1(2)] s1(3,4) by (auto simp del: send_turns.simps)
  have "can_take (length (?q @ [pkt])) cb b" "list_all (\<lambda>p. p \<noteq> []) (?q @ [pkt])"
    using assms(2,10,11) by simp_all
  from packets_taken [OF this] obtain b' where
    b': "messages_in Eb now'' cb (map (Pack TypeIP) (?q @ [pkt])) b = Some b'"
    "device_queue b' = device_queue b @ ?q @ [pkt]" by auto
  from a' s1(1) s2 b' show ?thesis by blast
qed

theorem packet_end_to_end_witness:
  "\<exists>a s b a' s1 s2 b'. client_run sample_client_env (NewVlanClient sample_client_conf) b \<and>
     server_run sample_env sample_start s \<and> client_step sample_client_env 2 KForward a = Some a' \<and>
     server_step sample_env 9 (Message 1 (Pack TypeIP sample_packet)) s = Some s1 \<and>
     send_turns 1 1 s1 = Some s2 \<and>
     messages_in sample_client_env 3 0 [Pack TypeIP sample_packet] b = Some b' \<and>
     device_queue b' = [sample_packet]"
proof -
  obtain s where s: "server_run sample_env sample_start s" "p_queue (peer_at s 1) = []"
    "byConn (s_reg s) 1 = Some 1" "1 < length (s_conns s)" "authed (peer_at s 1)"
    "passes sample_env 1 sample_packet (net_IPv4 172 19 0 10) s"
    "byIP (s_reg s) (ip_String (net_IPv4 172 19 0 10)) = Some 1"
    "can_send (Suc (length (p_queue (peer_at s 1)))) 1 s"
    "length (p_queue (peer_at s 1)) < serverPeerSendQueueSize"
    by (rule sample_delivery)
  obtain b where b: "client_run sample_client_env (NewVlanClient sample_client_conf) b"
    "isReadyConn 0 b" "k_tun b = Some (NewTUNTunnel 1)" "k_forwarding b" "0 < length (k_conns b)"
    "\<not> cn_closed (k_conns b ! 0)" "cn_room (k_conns b ! 0) = 7" using sample_ready by blast
  let ?a = "b\<lparr>k_tun := Some ((NewTUNTunnel 1)\<lparr>tt_rq := [sample_packet]\<rparr>)\<rparr>"
  have f: "can_forward 0 sample_packet ?a"
    using b by (simp add: can_forward_def isReadyConn_def)
  have n: "sample_packet \<noteq> []" by (simp add: sample_packet_def)
  have e: "list_all (\<lambda>p. p \<noteq> []) (p_queue (peer_at s 1))" unfolding s(2) by simp
  have t: "can_take (Suc (length (p_queue (peer_at s 1)))) 0 b"
    unfolding s(2) using b by (simp add: can_take_def NewTUNTunnel_def tunPacketQueueSize_def)
  have d: "device_queue b = []" by (simp add: device_queue_def b(3) NewTUNTunnel_def)
  from packet_end_to_end [OF f n s(3-9) e t, of sample_client_env 2 9 sample_client_env 3]
  show ?thesis unfolding s(2) d list.size list.map append.left_neutral One_nat_def [symmetric]
    using s(1) b(1) by blast
qed

end
