(* ===== verification/Tun_Windows.thy ===== *)
theory Tun_Windows
  imports Tun_Commands Dhcp_Message
begin

text \<open>
  \<^verbatim>\<open>tunSetup/tun_windows.go\<close>: the PowerShell scripts that set up the interface and the routes on
  Windows. A script is the text that \<^verbatim>\<open>fmt.Sprintf\<close> makes, byte for byte; what PowerShell does with
  it is the operating system's part, as in \<^verbatim>\<open>Tun_Commands\<close>.
\<close>

section \<open>Quoting\<close>

definition unlines :: "string list \<Rightarrow> string" where
  "unlines ls = concat (map (\<lambda>l. l @ [CHR 0x0A]) ls)"

text \<open>A text in UTF-8.\<close>

definition text_bytes :: "nat list \<Rightarrow> string" where
  "text_bytes = map char_of"

definition join_with :: "string \<Rightarrow> string list \<Rightarrow> string" where
  "join_with sep xs = (case xs of [] \<Rightarrow> [] | y # ys \<Rightarrow> y @ concat (map (\<lambda>x. sep @ x) ys))"

text \<open>The first rune of a string and its width; what is no UTF-8 is one byte wide.\<close>

definition cont :: "nat list \<Rightarrow> nat \<Rightarrow> nat \<Rightarrow> nat \<Rightarrow> bool" where
  "cont bs i lo hi \<longleftrightarrow> i < length bs \<and> lo \<le> bs ! i \<and> bs ! i \<le> hi"

definition rune_at :: "string \<Rightarrow> (nat \<times> nat) option" where
  "rune_at s =
     (let bs = map of_char (take 4 s); b = bs ! 0;
          r = (\<lambda>i. bs ! i mod 64)
      in if s = [] then None
         else if b < 0x80 then Some (b, 1)
         else if 0xC2 \<le> b \<and> b \<le> 0xDF \<and> cont bs 1 0x80 0xBF
           then Some (b mod 32 * 64 + r 1, 2)
         else if 0xE0 \<le> b \<and> b \<le> 0xEF \<and>
             cont bs 1 (if b = 0xE0 then 0xA0 else 0x80) (if b = 0xED then 0x9F else 0xBF) \<and> cont bs 2 0x80 0xBF
           then Some (b mod 16 * 4096 + r 1 * 64 + r 2, 3)
         else if 0xF0 \<le> b \<and> b \<le> 0xF4 \<and>
             cont bs 1 (if b = 0xF0 then 0x90 else 0x80) (if b = 0xF4 then 0x8F else 0xBF) \<and>
             cont bs 2 0x80 0xBF \<and> cont bs 3 0x80 0xBF
           then Some (b mod 8 * 262144 + r 1 * 4096 + r 2 * 64 + r 3, 4)
         else None)"

text \<open>
  \<^verbatim>\<open>%q\<close>, that is \<^verbatim>\<open>strconv.Quote\<close>. Which runes beyond ASCII can be printed is in the tables of
  \<^verbatim>\<open>unicode\<close>, the argument \<open>U\<close>.
\<close>

type_synonym quoting = "nat \<Rightarrow> bool"

fun hex_digits :: "nat \<Rightarrow> nat \<Rightarrow> string" where
  "hex_digits 0 v = []"
| "hex_digits (Suc n) v = hex_digits n (v div 16) @ [hex_char (v mod 16)]"

definition printable :: "quoting \<Rightarrow> nat \<Rightarrow> bool" where
  "printable U r \<longleftrightarrow> (if r < 0x80 then 0x20 \<le> r \<and> r \<le> 0x7E else U r)"

definition escape :: "nat \<Rightarrow> string" where
  "escape r =
     CHR 0x5C #
     (if r = 7 then ''a'' else if r = 8 then ''b'' else if r = 12 then ''f'' else if r = 10 then ''n''
      else if r = 13 then ''r'' else if r = 9 then ''t'' else if r = 11 then ''v''
      else if r < 0x20 \<or> r = 0x7F then CHR ''x'' # hex_digits 2 r
      else if r < 0x10000 then CHR ''u'' # hex_digits 4 r
      else CHR ''U'' # hex_digits 8 r)"

function quote_body :: "quoting \<Rightarrow> string \<Rightarrow> string" where
  "quote_body U [] = []"
| "quote_body U (c # s) =
     (case rune_at (c # s) of
        None \<Rightarrow> CHR 0x5C # CHR ''x'' # hex_digits 2 (of_char c) @ quote_body U s
      | Some (r, w) \<Rightarrow>
          (if c = CHR 0x22 \<or> c = CHR 0x5C then [CHR 0x5C, c]
           else if printable U r then take w (c # s) else escape r)
          @ quote_body U (drop (w - 1) s))"
  by pat_completeness auto
termination by (relation "measure (\<lambda>(U, s). length s)") auto

definition go_quote :: "quoting \<Rightarrow> string \<Rightarrow> string" where
  "go_quote U s = CHR 0x22 # quote_body U s @ [CHR 0x22]"

text \<open>Text that \<^verbatim>\<open>%q\<close> leaves as it is: everything but the quote and the backslash.\<close>

definition unescaped :: "char \<Rightarrow> bool" where
  "unescaped c \<longleftrightarrow> 0x20 \<le> (of_char c :: nat) \<and> (of_char c :: nat) \<le> 0x7E \<and> c \<noteq> CHR 0x22 \<and> c \<noteq> CHR 0x5C"

lemma quote_unescaped: "list_all unescaped s \<Longrightarrow> quote_body U s = s"
  by (induction s) (auto simp: rune_at_def Let_def printable_def unescaped_def)

section \<open>Running scripts\<close>

definition powershell :: "string list" where
  "powershell =
     [''powershell.exe'', ''-NoLogo'', ''-NoProfile'', ''-NonInteractive'', ''-ExecutionPolicy'', ''Bypass'',
      ''-WindowStyle'', ''Hidden'', ''-Command'']"

definition RunPowerShell :: "host_env \<Rightarrow> string \<Rightarrow> cmd_log \<Rightarrow> tun_error option \<times> cmd_log" where
  "RunPowerShell E ps log = exec_err E (powershell @ [ps]) log"

definition RunPowerShellOutput :: "host_env \<Rightarrow> string \<Rightarrow> cmd_log \<Rightarrow> (tun_error + string) \<times> cmd_log" where
  "RunPowerShellOutput E ps log =
     (case exec_output E (powershell @ [ps]) log of
        (ok, out, log1) \<Rightarrow> (if ok then Inr (trim_space out) else Inl CommandFailed, log1))"

definition fwRuleIn :: string where "fwRuleIn = ''VLAN_NET_ALLOW_ALL_IN''"
definition fwRuleOut :: string where "fwRuleOut = ''VLAN_NET_ALLOW_ALL_OUT''"

section \<open>The scripts\<close>

definition PsResolveInterfaceIndexFunc :: string where
  \<open>PsResolveInterfaceIndexFunc = unlines
    [[],
     ''function Resolve-InterfaceIndex {'',
     ''    param([string]$ifRef)'',
     [],
     ''    if ($ifRef -match '' @ [CHR 0x27] @ ''^'' @ [CHR 0x5C] @ ''d+$'' @ [CHR 0x27] @ '') {'',
     ''        return [int]$ifRef'',
     ''    }'',
     [],
     ''    $iface = Get-NetIPInterface -AddressFamily IPv4 -InterfaceAlias $ifRef -ErrorAction Stop |'',
     ''        Select-Object -First 1'',
     [],
     ''    return [int]$iface.InterfaceIndex'',
     ''}'']\<close>

definition RemoveFirewallRulesForTun ::
    "quoting \<Rightarrow> host_env \<Rightarrow> cmd_log \<Rightarrow> tun_error option \<times> cmd_log" where
  \<open>RemoveFirewallRulesForTun U E log =
   RunPowerShell E (unlines
    [[],
     ''Get-NetFirewallRule -DisplayName '' @ go_quote U fwRuleIn @ '' -ErrorAction SilentlyContinue | Remove-NetFirewallRule'',
     ''Get-NetFirewallRule -DisplayName '' @ go_quote U fwRuleOut @ '' -ErrorAction SilentlyContinue | Remove-NetFirewallRule'']) log\<close>

definition win_AllowTunTraffic ::
    "quoting \<Rightarrow> host_env \<Rightarrow> string \<Rightarrow> cmd_log \<Rightarrow> tun_error option \<times> cmd_log" where
  \<open>win_AllowTunTraffic U E ifName log =
   RunPowerShell E (unlines
    [[],
     ''$alias = '' @ go_quote U ifName,
     [],
     ''Get-NetFirewallRule -DisplayName '' @ go_quote U fwRuleIn @ '' -ErrorAction SilentlyContinue | Remove-NetFirewallRule'',
     ''Get-NetFirewallRule -DisplayName '' @ go_quote U fwRuleOut @ '' -ErrorAction SilentlyContinue | Remove-NetFirewallRule'',
     [],
     ''New-NetFirewallRule -DisplayName '' @ go_quote U fwRuleIn @ '' -Direction Inbound  -Action Allow -Enabled True -Profile Any -InterfaceAlias $alias'',
     ''New-NetFirewallRule -DisplayName '' @ go_quote U fwRuleOut @ '' -Direction Outbound -Action Allow -Enabled True -Profile Any -InterfaceAlias $alias'']) log\<close>

definition SetInterfaceDNS_script :: "quoting \<Rightarrow> string \<Rightarrow> string list \<Rightarrow> string" where
  \<open>SetInterfaceDNS_script U ifName dns = unlines
    [[],
     ''$alias = '' @ go_quote U ifName,
     ''$servers = @('' @ join_with '', '' (map (go_quote U) dns) @ '')'',
     ''Set-DnsClientServerAddress -InterfaceAlias $alias -ServerAddresses $servers -ErrorAction Stop'']\<close>

definition ResetInterfaceDNS_script :: "quoting \<Rightarrow> string \<Rightarrow> string" where
  \<open>ResetInterfaceDNS_script U ifName = unlines
    [[],
     ''$alias = '' @ go_quote U ifName,
     ''Set-DnsClientServerAddress -InterfaceAlias $alias -ResetServerAddresses -ErrorAction Stop'']\<close>

definition GetDefaultRoute_script :: "string" where
  \<open>GetDefaultRoute_script = unlines
    [[],
     ''$rt = Get-NetRoute -AddressFamily IPv4 -DestinationPrefix "0.0.0.0/0" -ErrorAction Stop |'',
     ''    Where-Object { $_.NextHop -ne "0.0.0.0" } |'',
     ''    Sort-Object @'' @ ''{Expression = { $_.RouteMetric + $_.InterfaceMetric }}, RouteMetric, InterfaceMetric |'',
     ''    Select-Object -First 1'',
     [],
     ''if (-not $rt) {'',
     ''    throw "no default route found"'',
     ''}'',
     [],
     ''$ifAlias = (Get-NetIPInterface -AddressFamily IPv4 -InterfaceIndex $rt.InterfaceIndex -ErrorAction Stop).InterfaceAlias'',
     ''Write-Output ($rt.NextHop + "|" + $ifAlias + "|" + $rt.InterfaceIndex)'']\<close>

definition AddHostRoute_script :: "quoting \<Rightarrow> string \<Rightarrow> string \<Rightarrow> string \<Rightarrow> string" where
  \<open>AddHostRoute_script U hostIP gateway ifRef = unlines
    [[],
     PsResolveInterfaceIndexFunc,
     [],
     ''$dst = '' @ go_quote U (hostIP @ ''/32''),
     ''$gw = '' @ go_quote U gateway,
     ''$ifRef = '' @ go_quote U ifRef,
     ''$ifIndex = Resolve-InterfaceIndex $ifRef'',
     [],
     ''Get-NetRoute -AddressFamily IPv4 -DestinationPrefix $dst -ErrorAction SilentlyContinue |'',
     ''    Where-Object { $_.InterfaceIndex -eq $ifIndex } |'',
     ''    Remove-NetRoute -Confirm:$false -ErrorAction SilentlyContinue'',
     [],
     ''New-NetRoute -AddressFamily IPv4 -DestinationPrefix $dst -InterfaceIndex $ifIndex -NextHop $gw -RouteMetric 1 -ErrorAction Stop'']\<close>

definition DeleteHostRoute_script :: "quoting \<Rightarrow> string \<Rightarrow> string \<Rightarrow> string" where
  \<open>DeleteHostRoute_script U hostIP ifRef = unlines
    [[],
     PsResolveInterfaceIndexFunc,
     [],
     ''$dst = '' @ go_quote U (hostIP @ ''/32''),
     ''$ifRef = '' @ go_quote U ifRef,
     ''$ifIndex = Resolve-InterfaceIndex $ifRef'',
     [],
     ''Get-NetRoute -AddressFamily IPv4 -DestinationPrefix $dst -ErrorAction SilentlyContinue |'',
     ''    Where-Object { $_.InterfaceIndex -eq $ifIndex } |'',
     ''    Remove-NetRoute -Confirm:$false -ErrorAction SilentlyContinue'']\<close>

definition AddDefaultRouteToTun_script :: "quoting \<Rightarrow> string \<Rightarrow> string \<Rightarrow> string" where
  \<open>AddDefaultRouteToTun_script U ifRef gateway = unlines
    [[],
     PsResolveInterfaceIndexFunc,
     [],
     ''$ifRef = '' @ go_quote U ifRef,
     ''$gw = '' @ go_quote U gateway,
     [],
     ''Start-Sleep -Milliseconds 800'',
     [],
     ''$ifIndex = Resolve-InterfaceIndex $ifRef'',
     [],
     text_bytes
       [0x23, 0x20, 0x57, 0x69, 0x6E, 0x74, 0x75, 0x6E, 0x20, 0xE7, 0xBD, 0x91, 0xE5, 0x8D,
        0xA1, 0xE7, 0xBB, 0x8F, 0xE5, 0xB8, 0xB8, 0xE8, 0xA2, 0xAB, 0xE5, 0x88, 0x86, 0xE9,
        0x85, 0x8D, 0xE5, 0x88, 0xB0, 0xE8, 0xBE, 0x83, 0xE9, 0xAB, 0x98, 0xE7, 0x9A, 0x84,
        0xE8, 0x87, 0xAA, 0xE5, 0x8A, 0xA8, 0x20, 0x6D, 0x65, 0x74, 0x72, 0x69, 0x63, 0xEF,
        0xBC, 0x8C, 0xE5, 0x85, 0x88, 0xE5, 0x9B, 0xBA, 0xE5, 0xAE, 0x9A, 0xE4, 0xB8, 0x80,
        0xE4, 0xB8, 0xAA, 0xE8, 0xBE, 0x83, 0xE4, 0xBD, 0x8E, 0xE5, 0x80, 0xBC, 0xE7, 0xA1,
        0xAE, 0xE4, 0xBF, 0x9D, 0xE4, 0xBC, 0x98, 0xE5, 0x85, 0x88, 0xE7, 0xBA, 0xA7, 0xE7,
        0xA8, 0xB3, 0xE5, 0xAE, 0x9A, 0xE3, 0x80, 0x82],
     ''Set-NetIPInterface -AddressFamily IPv4 -InterfaceIndex $ifIndex -AutomaticMetric Disabled -InterfaceMetric 1 -ErrorAction Stop'',
     [],
     ''Get-NetRoute -AddressFamily IPv4 -DestinationPrefix "0.0.0.0/0" -ErrorAction SilentlyContinue |'',
     ''    Where-Object { $_.InterfaceIndex -eq $ifIndex } |'',
     ''    Remove-NetRoute -Confirm:$false -ErrorAction SilentlyContinue'',
     [],
     ''try {'',
     ''    New-NetRoute -AddressFamily IPv4 -DestinationPrefix "0.0.0.0/0" -InterfaceIndex $ifIndex -NextHop $gw -RouteMetric 1 -ErrorAction Stop'',
     ''} catch {'',
     text_bytes
       [0x20, 0x20, 0x20, 0x20, 0x23, 0x20, 0xE6, 0x9F, 0x90, 0xE4, 0xBA, 0x9B, 0x20, 0x57,
        0x69, 0x6E, 0x64, 0x6F, 0x77, 0x73, 0x20, 0x2F, 0x20, 0x57, 0x69, 0x6E, 0x74, 0x75,
        0x6E, 0x20, 0xE7, 0xBB, 0x84, 0xE5, 0x90, 0x88, 0xE4, 0xB8, 0x8A, 0xEF, 0xBC, 0x8C,
        0xE8, 0x99, 0x9A, 0xE6, 0x8B, 0x9F, 0xE7, 0xBD, 0x91, 0xE5, 0x85, 0xB3, 0x20, 0x6E,
        0x65, 0x78, 0x74, 0x2D, 0x68, 0x6F, 0x70, 0x20, 0xE4, 0xBC, 0x9A, 0xE5, 0xA4, 0xB1,
        0xE8, 0xB4, 0xA5, 0xEF, 0xBC, 0x8C, 0xE5, 0x9B, 0x9E, 0xE9, 0x80, 0x80, 0xE5, 0x88,
        0xB0, 0x20, 0x4F, 0x6E, 0x2D, 0x6C, 0x69, 0x6E, 0x6B, 0x20, 0xE8, 0xB7, 0xAF, 0xE7,
        0x94, 0xB1, 0xE3, 0x80, 0x82],
     ''    New-NetRoute -AddressFamily IPv4 -DestinationPrefix "0.0.0.0/0" -InterfaceIndex $ifIndex -NextHop "0.0.0.0" -RouteMetric 1 -ErrorAction Stop'',
     ''}'']\<close>

definition AddSplitDefaultRoutesToTun_script :: "quoting \<Rightarrow> string \<Rightarrow> string \<Rightarrow> string" where
  \<open>AddSplitDefaultRoutesToTun_script U ifRef gateway = unlines
    [[],
     PsResolveInterfaceIndexFunc,
     [],
     ''$ifRef = '' @ go_quote U ifRef,
     ''$gw = '' @ go_quote U gateway,
     ''Start-Sleep -Milliseconds 800'',
     ''$ifIndex = Resolve-InterfaceIndex $ifRef'',
     [],
     text_bytes
       [0x23, 0x20, 0xE4, 0xB8, 0x8D, 0xE6, 0x94, 0xB9, 0xE7, 0xB3, 0xBB, 0xE7, 0xBB, 0x9F,
        0x20, 0x64, 0x65, 0x66, 0x61, 0x75, 0x6C, 0x74, 0x28, 0x30, 0x2E, 0x30, 0x2E, 0x30,
        0x2E, 0x30, 0x2F, 0x30, 0x29, 0xEF, 0xBC, 0x8C, 0xE6, 0x94, 0xB9, 0xE4, 0xB8, 0xBA,
        0xE6, 0xB3, 0xA8, 0xE5, 0x85, 0xA5, 0xE4, 0xB8, 0xA4, 0xE6, 0x9D, 0xA1, 0xE6, 0x9B,
        0xB4, 0xE9, 0x95, 0xBF, 0xE5, 0x89, 0x8D, 0xE7, 0xBC, 0x80, 0xE7, 0x9A, 0x84, 0xE2,
        0x80, 0x9C, 0xE5, 0x88, 0x86, 0xE8, 0xA3, 0x82, 0xE9, 0xBB, 0x98, 0xE8, 0xAE, 0xA4,
        0xE8, 0xB7, 0xAF, 0xE7, 0x94, 0xB1, 0xE2, 0x80, 0x9D, 0xEF, 0xBC, 0x8C],
     text_bytes
       [0x23, 0x20, 0xE9, 0x80, 0x9A, 0xE8, 0xBF, 0x87, 0xE6, 0x9C, 0x80, 0xE9, 0x95, 0xBF,
        0xE5, 0x89, 0x8D, 0xE7, 0xBC, 0x80, 0xE5, 0x8C, 0xB9, 0xE9, 0x85, 0x8D, 0xE4, 0xBC,
        0x98, 0xE5, 0x85, 0x88, 0xE5, 0x91, 0xBD, 0xE4, 0xB8, 0xAD, 0x20, 0x54, 0x55, 0x4E,
        0xEF, 0xBC, 0x8C, 0xE5, 0xAE, 0x9E, 0xE7, 0x8E, 0xB0, 0xE9, 0x80, 0x8F, 0xE6, 0x98,
        0x8E, 0xE6, 0x8E, 0xA5, 0xE7, 0xAE, 0xA1, 0xE3, 0x80, 0x82],
     ''Set-NetIPInterface -AddressFamily IPv4 -InterfaceIndex $ifIndex -AutomaticMetric Disabled -InterfaceMetric 1 -ErrorAction Stop'',
     [],
     ''$prefixes = @("0.0.0.0/1", "128.0.0.0/1")'',
     ''foreach ($p in $prefixes) {'',
     ''    Get-NetRoute -AddressFamily IPv4 -DestinationPrefix $p -ErrorAction SilentlyContinue |'',
     ''        Where-Object { $_.InterfaceIndex -eq $ifIndex } |'',
     ''        Remove-NetRoute -Confirm:$false -ErrorAction SilentlyContinue'',
     [],
     ''    try {'',
     ''        New-NetRoute -AddressFamily IPv4 -DestinationPrefix $p -InterfaceIndex $ifIndex -NextHop $gw -RouteMetric 1 -ErrorAction Stop'',
     ''    } catch {'',
     ''        New-NetRoute -AddressFamily IPv4 -DestinationPrefix $p -InterfaceIndex $ifIndex -NextHop "0.0.0.0" -RouteMetric 1 -ErrorAction Stop'',
     ''    }'',
     ''}'']\<close>

definition AddDefaultRoute_script :: "quoting \<Rightarrow> string \<Rightarrow> string \<Rightarrow> string" where
  \<open>AddDefaultRoute_script U ifRef gateway = unlines
    [[],
     PsResolveInterfaceIndexFunc,
     [],
     ''$ifRef = '' @ go_quote U ifRef,
     ''$gw = '' @ go_quote U gateway,
     [],
     ''Start-Sleep -Milliseconds 800'',
     [],
     ''$ifIndex = Resolve-InterfaceIndex $ifRef'',
     [],
     text_bytes
       [0x23, 0x20, 0xE5, 0x85, 0x88, 0xE6, 0x8A, 0x8A, 0x20, 0x54, 0x55, 0x4E, 0x20, 0xE6,
        0x8E, 0xA5, 0xE5, 0x8F, 0xA3, 0xE5, 0xBA, 0xA6, 0xE9, 0x87, 0x8F, 0xE8, 0xB0, 0x83,
        0xE5, 0x88, 0xB0, 0xE6, 0x9C, 0x80, 0xE4, 0xBD, 0x8E, 0xEF, 0xBC, 0x8C, 0xE9, 0x81,
        0xBF, 0xE5, 0x85, 0x8D, 0xE2, 0x80, 0x9C, 0xE5, 0x90, 0x8C, 0xE4, 0xB8, 0xBA, 0xE9,
        0xBB, 0x98, 0xE8, 0xAE, 0xA4, 0xE8, 0xB7, 0xAF, 0xE7, 0x94, 0xB1, 0xE4, 0xBD, 0x86,
        0xE4, 0xBB, 0x8D, 0xE8, 0xB5, 0xB0, 0xE7, 0x9C, 0x9F, 0xE5, 0xAE, 0x9E, 0xE7, 0xBD,
        0x91, 0xE5, 0x8D, 0xA1, 0xE2, 0x80, 0x9D, 0xE7, 0x9A, 0x84, 0xE5, 0x88, 0x86, 0xE6,
        0xB5, 0x81, 0xE9, 0x97, 0xAE, 0xE9, 0xA2, 0x98, 0xE3, 0x80, 0x82],
     ''Set-NetIPInterface -AddressFamily IPv4 -InterfaceIndex $ifIndex -AutomaticMetric Disabled -InterfaceMetric 1 -ErrorAction Stop'',
     [],
     ''Get-NetRoute -AddressFamily IPv4 -DestinationPrefix "0.0.0.0/0" -ErrorAction SilentlyContinue |'',
     ''    Where-Object { $_.InterfaceIndex -eq $ifIndex } |'',
     ''    Remove-NetRoute -Confirm:$false -ErrorAction SilentlyContinue'',
     [],
     ''New-NetRoute -AddressFamily IPv4 -DestinationPrefix "0.0.0.0/0" -InterfaceIndex $ifIndex -NextHop $gw -RouteMetric 1 -ErrorAction Stop'']\<close>

definition DeleteDefaultRoute_script :: "quoting \<Rightarrow> string \<Rightarrow> string" where
  \<open>DeleteDefaultRoute_script U ifRef = unlines
    [[],
     PsResolveInterfaceIndexFunc,
     [],
     ''$ifRef = '' @ go_quote U ifRef,
     ''$ifIndex = Resolve-InterfaceIndex $ifRef'',
     [],
     ''Get-NetRoute -AddressFamily IPv4 -DestinationPrefix "0.0.0.0/0" -ErrorAction SilentlyContinue |'',
     ''    Where-Object { $_.InterfaceIndex -eq $ifIndex } |'',
     ''    Remove-NetRoute -Confirm:$false -ErrorAction SilentlyContinue'']\<close>

definition DeleteSplitDefaultRoutesFromTun_script :: "quoting \<Rightarrow> string \<Rightarrow> string" where
  \<open>DeleteSplitDefaultRoutesFromTun_script U ifRef = unlines
    [[],
     PsResolveInterfaceIndexFunc,
     ''$ifRef = '' @ go_quote U ifRef,
     ''$ifIndex = Resolve-InterfaceIndex $ifRef'',
     ''$prefixes = @("0.0.0.0/1", "128.0.0.0/1")'',
     ''foreach ($p in $prefixes) {'',
     ''    Get-NetRoute -AddressFamily IPv4 -DestinationPrefix $p -ErrorAction SilentlyContinue |'',
     ''        Where-Object { $_.InterfaceIndex -eq $ifIndex } |'',
     ''        Remove-NetRoute -Confirm:$false -ErrorAction SilentlyContinue'',
     ''}'']\<close>

section \<open>The operations\<close>

definition CleanupTunTraffic :: "quoting \<Rightarrow> host_env \<Rightarrow> cmd_log \<Rightarrow> cmd_log" where
  "CleanupTunTraffic U E log = snd (RemoveFirewallRulesForTun U E log)"

definition win_ConfigureTunAddress ::
    "host_env \<Rightarrow> string \<Rightarrow> string \<Rightarrow> string \<Rightarrow> cmd_log \<Rightarrow> tun_error option \<times> cmd_log" where
  "win_ConfigureTunAddress E ifName ip msk log =
     exec_err E [''netsh.exe'', ''interface'', ''ip'', ''set'', ''address'', ifName, ''static'', ip, msk] log"

definition win_SetInterfaceDNS ::
    "quoting \<Rightarrow> host_env \<Rightarrow> string \<Rightarrow> string list \<Rightarrow> cmd_log \<Rightarrow> tun_error option \<times> cmd_log" where
  "win_SetInterfaceDNS U E ifName dns log =
     (if length dns = 0 then (None, log) else RunPowerShell E (SetInterfaceDNS_script U ifName dns) log)"

definition win_ResetInterfaceDNS ::
    "quoting \<Rightarrow> host_env \<Rightarrow> string \<Rightarrow> cmd_log \<Rightarrow> tun_error option \<times> cmd_log" where
  "win_ResetInterfaceDNS U E ifName log = RunPowerShell E (ResetInterfaceDNS_script U ifName) log"

fun split_at :: "char \<Rightarrow> string \<Rightarrow> string list" where
  "split_at b [] = [[]]"
| "split_at b (c # s) =
     (if c = b then [] # split_at b s
      else (case split_at b s of [] \<Rightarrow> [[c]] | x # xs \<Rightarrow> (c # x) # xs))"

definition win_GetDefaultRoute :: "host_env \<Rightarrow> cmd_log \<Rightarrow> (tun_error + default_route) \<times> cmd_log" where
  "win_GetDefaultRoute E log =
     (case RunPowerShellOutput E GetDefaultRoute_script log of
        (Inl e, log1) \<Rightarrow> (Inl e, log1)
      | (Inr out, log1) \<Rightarrow>
          (let parts = split_at CHR ''|'' out
           in if length parts \<noteq> 3 then Inl (ParseDefaultRoute out)
              else Inr \<lparr>dr_gateway = trim_space (parts ! 0), dr_ifName = trim_space (parts ! 1),
                        dr_ifIndex = trim_space (parts ! 2)\<rparr>, log1))"

definition win_AddHostRoute ::
    "quoting \<Rightarrow> host_env \<Rightarrow> string \<Rightarrow> string \<Rightarrow> string \<Rightarrow> cmd_log \<Rightarrow> tun_error option \<times> cmd_log" where
  "win_AddHostRoute U E hostIP gateway ifRef log =
     RunPowerShell E (AddHostRoute_script U hostIP gateway ifRef) log"

definition win_DeleteHostRoute ::
    "quoting \<Rightarrow> host_env \<Rightarrow> string \<Rightarrow> string \<Rightarrow> string \<Rightarrow> cmd_log \<Rightarrow> tun_error option \<times> cmd_log" where
  "win_DeleteHostRoute U E hostIP gateway ifRef log =
     RunPowerShell E (DeleteHostRoute_script U hostIP ifRef) log"

definition win_AddDefaultRouteToTun ::
    "quoting \<Rightarrow> host_env \<Rightarrow> string \<Rightarrow> string \<Rightarrow> cmd_log \<Rightarrow> tun_error option \<times> cmd_log" where
  "win_AddDefaultRouteToTun U E ifRef gateway log =
     RunPowerShell E (AddDefaultRouteToTun_script U ifRef gateway) log"

definition win_AddSplitDefaultRoutesToTun ::
    "quoting \<Rightarrow> host_env \<Rightarrow> string \<Rightarrow> string \<Rightarrow> cmd_log \<Rightarrow> tun_error option \<times> cmd_log" where
  "win_AddSplitDefaultRoutesToTun U E ifRef gateway log =
     RunPowerShell E (AddSplitDefaultRoutesToTun_script U ifRef gateway) log"

definition win_AddDefaultRoute ::
    "quoting \<Rightarrow> host_env \<Rightarrow> string \<Rightarrow> string \<Rightarrow> cmd_log \<Rightarrow> tun_error option \<times> cmd_log" where
  "win_AddDefaultRoute U E ifRef gateway log =
     RunPowerShell E (AddDefaultRoute_script U ifRef gateway) log"

definition win_DeleteDefaultRoute ::
    "quoting \<Rightarrow> host_env \<Rightarrow> string \<Rightarrow> string \<Rightarrow> cmd_log \<Rightarrow> tun_error option \<times> cmd_log" where
  "win_DeleteDefaultRoute U E ifRef gateway log = RunPowerShell E (DeleteDefaultRoute_script U ifRef) log"

definition win_DeleteSplitDefaultRoutesFromTun ::
    "quoting \<Rightarrow> host_env \<Rightarrow> string \<Rightarrow> string \<Rightarrow> cmd_log \<Rightarrow> tun_error option \<times> cmd_log" where
  "win_DeleteSplitDefaultRoutesFromTun U E ifRef gateway log =
     RunPowerShell E (DeleteSplitDefaultRoutesFromTun_script U ifRef) log"

section \<open>Properties\<close>

lemma AddSplit_script_line:
  "\<exists>pre post. AddSplitDefaultRoutesToTun_script U ifRef g =
     pre @ ''$gw = '' @ go_quote U g @ CHR 0x0A # post"
proof -
  have u: "unlines (l # ls) = l @ CHR 0x0A # unlines ls" for l ls by (simp add: unlines_def)
  obtain ls where ls: "AddSplitDefaultRoutesToTun_script U ifRef g =
      unlines ([] # PsResolveInterfaceIndexFunc # [] # (''$ifRef = '' @ go_quote U ifRef) #
        (''$gw = '' @ go_quote U g) # ls)"
    by (simp only: AddSplitDefaultRoutesToTun_script_def)
  show ?thesis
    by (rule exI [of _ "CHR 0x0A # PsResolveInterfaceIndexFunc @ CHR 0x0A # CHR 0x0A #
        (''$ifRef = '' @ go_quote U ifRef) @ [CHR 0x0A]"], rule exI [of _ "unlines ls"])
      (simp only: ls u append.simps append_assoc)
qed

text \<open>
  C39: The gateway of an offer is code on a Windows client. An offer is accepted whatever text its
  gateway is, and \<^verbatim>\<open>%q\<close> writes every text of printable characters but the quote and the backslash
  as it is, between double quotes, into the script that adds the routes. PowerShell expands
  \<^verbatim>\<open>$(...)\<close> between double quotes, so that the server's text is run as a command.
\<close>

theorem windows_gateway_verbatim:
  assumes "ValidateOffer msg req = None" and "list_all unescaped g" and "g \<noteq> []"
  shows "ValidateOffer (msg\<lparr>msg_gateway := g\<rparr>) req = None \<and>
    (\<exists>pre post. win_AddSplitDefaultRoutesToTun U E ifRef (msg_gateway (msg\<lparr>msg_gateway := g\<rparr>)) log =
       exec_err E (powershell @ [pre @ ''$gw = '' @ (CHR 0x22 # g @ [CHR 0x22]) @ CHR 0x0A # post]) log)"
proof -
  have "ValidateOffer (msg\<lparr>msg_gateway := g\<rparr>) req = None"
    using assms(1,3) by (simp add: ValidateOffer_def split: if_splits)
  moreover obtain pre post where "AddSplitDefaultRoutesToTun_script U ifRef g =
      pre @ ''$gw = '' @ go_quote U g @ CHR 0x0A # post" using AddSplit_script_line by blast
  then have "win_AddSplitDefaultRoutesToTun U E ifRef (msg_gateway (msg\<lparr>msg_gateway := g\<rparr>)) log =
      exec_err E (powershell @ [pre @ ''$gw = '' @ (CHR 0x22 # g @ [CHR 0x22]) @ CHR 0x0A # post]) log"
    by (simp add: win_AddSplitDefaultRoutesToTun_def RunPowerShell_def go_quote_def
        quote_unescaped [OF assms(2)] del: append_assoc)
  ultimately show ?thesis by blast
qed

text \<open>A host where every command succeeds.\<close>

definition win_host :: host_env where
  "win_host = \<lparr>he_run = (\<lambda>log argv. True), he_out = (\<lambda>log argv. []), he_lookpath = (\<lambda>p. False),
     he_lookup = (\<lambda>h. None)\<rparr>"

theorem windows_gateway_verbatim_witness:
  "\<exists>msg pre post. ValidateOffer msg ''r'' = None \<and> msg_gateway msg = ''$(calc.exe)'' \<and>
     win_AddSplitDefaultRoutesToTun (\<lambda>r. True) win_host ''tun'' (msg_gateway msg) [] =
       exec_err win_host (powershell @ [pre @ ''$gw = '' @ (CHR 0x22 # ''$(calc.exe)'' @ [CHR 0x22]) @ CHR 0x0A # post]) []"
proof -
  let ?m = "\<lparr>msg_type = MessageTypeOffer, msg_reqID = ''r'', msg_ip = ''i'', msg_mask = ''m'',
    msg_gateway = ''g'', msg_dns = [''8.8.8.8''], msg_mtu = 1300, msg_lease = 60, msg_reason = []\<rparr>"
  have dns: "\<not> bad_dns ''8.8.8.8''"
    by (simp add: bad_dns_def trim_space_visible visible_def ParseIP_def parse_v4_def parse_ipv4_def
        is_digit_def digit_val_def)
  have v: "ValidateOffer ?m ''r'' = None" using dns by (simp add: ValidateOffer_def)
  have g: "list_all unescaped ''$(calc.exe)''" by (simp add: unescaped_def)
  from windows_gateway_verbatim [OF v g, of "\<lambda>r. True" win_host "''tun''" "[]"] show ?thesis
    by (intro exI [of _ "?m\<lparr>msg_gateway := ''$(calc.exe)''\<rparr>"]) simp
qed

text \<open>The pieces between the separators.\<close>

lemma split_at_nonempty: "split_at b s \<noteq> []"
  by (induction s) (auto split: list.split)

lemma split_at_piece: "b \<notin> set x \<Longrightarrow> split_at b (x @ b # s) = x # split_at b s"
  by (induction x) auto

lemma split_at_last: "b \<notin> set x \<Longrightarrow> split_at b x = [x]"
  by (induction x) auto

lemma split_at_two: "split_at b s = [x, y, z] \<longleftrightarrow>
  s = x @ b # y @ b # z \<and> b \<notin> set x \<and> b \<notin> set y \<and> b \<notin> set z"
proof
  have pieces: "p \<in> set (split_at b s) \<Longrightarrow> b \<notin> set p" for p s
    by (induction s arbitrary: p) (auto split: list.splits if_splits)
  have join: "s = (case split_at b s of [] \<Rightarrow> [] | p # ps \<Rightarrow> p @ concat (map (\<lambda>q. b # q) ps))" for s
    by (induction s) (auto split: list.splits)
  assume "split_at b s = [x, y, z]"
  with join [of s] pieces [of _ s] show "s = x @ b # y @ b # z \<and> b \<notin> set x \<and> b \<notin> set y \<and> b \<notin> set z"
    by auto
qed (auto simp: split_at_piece split_at_last)

text \<open>
  The default route of Windows. \<^verbatim>\<open>GetDefaultRoute\<close> succeeds exactly when the script succeeds and
  what it prints, without the space around it, is three fields with two bars between them; the
  route is the three fields without the space around each.
\<close>

theorem windows_default_route_exact:
  "win_GetDefaultRoute E log = (Inr r, log') \<longleftrightarrow>
     he_run E log (powershell @ [GetDefaultRoute_script]) \<and>
     log' = log @ [(powershell @ [GetDefaultRoute_script], True)] \<and>
     (\<exists>gw al idx. trim_space (he_out E log (powershell @ [GetDefaultRoute_script])) =
         gw @ CHR ''|'' # al @ CHR ''|'' # idx \<and>
       CHR ''|'' \<notin> set gw \<and> CHR ''|'' \<notin> set al \<and> CHR ''|'' \<notin> set idx \<and>
       r = \<lparr>dr_gateway = trim_space gw, dr_ifName = trim_space al, dr_ifIndex = trim_space idx\<rparr>)"
proof -
  let ?argv = "powershell @ [GetDefaultRoute_script]"
  let ?ps = "split_at CHR ''|'' (trim_space (he_out E log ?argv))"
  have three: "length ps = 3 \<longleftrightarrow> (\<exists>x y z. ps = [x, y, z])" for ps :: "string list"
    by (auto simp: numeral_3_eq_3 length_Suc_conv)
  have "win_GetDefaultRoute E log = (Inr r, log') \<longleftrightarrow>
      he_run E log ?argv \<and> log' = log @ [(?argv, True)] \<and> length ?ps = 3 \<and>
      r = \<lparr>dr_gateway = trim_space (?ps ! 0), dr_ifName = trim_space (?ps ! 1), dr_ifIndex = trim_space (?ps ! 2)\<rparr>"
    by (auto simp: win_GetDefaultRoute_def RunPowerShellOutput_def exec_output_def Let_def)
  also have "\<dots> \<longleftrightarrow> he_run E log ?argv \<and> log' = log @ [(?argv, True)] \<and>
      (\<exists>x y z. ?ps = [x, y, z] \<and>
        r = \<lparr>dr_gateway = trim_space x, dr_ifName = trim_space y, dr_ifIndex = trim_space z\<rparr>)"
    unfolding three by (auto simp: numeral_2_eq_2)
  finally show ?thesis unfolding split_at_two by auto
qed

end
