(* ===== verification/Console.thy ===== *)
theory Console
  imports Keys Server_Admin "HOL-Library.Log_Nat"
begin

text \<open>
  \<^verbatim>\<open>main.go\<close>: the mode the program runs in and the lines it prints about its traffic. Numbers of
  type \<^verbatim>\<open>float64\<close> are rationals, rounded where the code rounds.
\<close>

section \<open>Run modes\<close>

datatype run_mode = RunModeClient | RunModeServer | RunModeGenKey

text \<open>\<open>Inl\<close>: the program ends with the message about this argument.\<close>

definition parseRunMode :: "string list \<Rightarrow> string + run_mode" where
  "parseRunMode args =
     (if length args < 2 then Inr RunModeClient
      else if args ! 1 = ''genkey'' then Inr RunModeGenKey
      else if args ! 1 = ''server'' then Inr RunModeServer
      else if args ! 1 = ''client'' then Inr RunModeClient
      else Inl (args ! 1))"

definition genKey_text :: "crypto \<Rightarrow> bytes \<Rightarrow> tcp_error + string" where
  "genKey_text C ent =
     map_sum id (\<lambda>(privateKey, publicKey).
       ''privateKey: '' @ privateKey @ [CHR 0x0A] @ ''publicKey:  '' @ publicKey @ [CHR 0x0A])
       (GenerateStaticKeyBase64 C ent)"

definition shortConsoleID :: "string \<Rightarrow> string" where
  "shortConsoleID s = (if length s \<le> 18 then s else take 18 s)"

section \<open>Floating point\<close>

text \<open>To the nearest integer, and to the even one from the middle.\<close>

definition round_even :: "rat \<Rightarrow> int" where
  "round_even x =
     (let f = \<lfloor>x\<rfloor>; d = x - of_int f
      in if d < 1 / 2 then f else if 1 / 2 < d then f + 1 else if even f then f else f + 1)"

text \<open>The exponent of the leading bit of a positive number, and the number with 53 bits.\<close>

definition two_to :: "int \<Rightarrow> rat" where
  "two_to e = (if 0 \<le> e then 2 ^ nat e else 1 / 2 ^ nat (- e))"

definition lead :: "rat \<Rightarrow> int" where
  "lead x =
     (case quotient_of x of (p, q) \<Rightarrow>
        let e = int (floorlog 2 (nat p)) - int (floorlog 2 (nat q))
        in if two_to e \<le> x then e else e - 1)"

definition f64 :: "rat \<Rightarrow> rat" where
  "f64 x = (if x \<le> 0 then 0 else let u = two_to (lead x - 52) in of_int (round_even (x / u)) * u)"

text \<open>The rate that \<^verbatim>\<open>Snapshot\<close> computes from the bytes and the nanoseconds since the last call.\<close>

definition rate_value :: "64 word \<times> int \<Rightarrow> rat" where
  "rate_value r =
     f64 (f64 (of_nat (unat (fst r))) / f64 (f64 (of_int (snd r)) / 1000000000))"

section \<open>Amounts\<close>

definition units :: "string list" where
  "units = [''B'', ''KB'', ''MB'', ''GB'', ''TB'']"

text \<open>Dividing by 1024 is exact.\<close>

function scale :: "rat \<Rightarrow> nat \<Rightarrow> rat \<times> nat" where
  "scale v i = (if 1024 \<le> v \<and> i < length units - 1 then scale (v / 1024) (i + 1) else (v, i))"
  by pat_completeness auto
termination by (relation "measure (\<lambda>(v, i). length units - i)") auto

declare scale.simps [simp del]

text \<open>\<^verbatim>\<open>%.2f\<close> of a number that is not negative.\<close>

definition fixed2 :: "rat \<Rightarrow> string" where
  "fixed2 v =
     (let q = nat (round_even (100 * v))
      in decimal (q div 100) @ ''.'' @ [digit_char (q mod 100 div 10), digit_char (q mod 10)])"

definition formatBytes :: "64 word \<Rightarrow> string" where
  "formatBytes b =
     (case scale (f64 (of_nat (unat b))) 0 of
        (v, i) \<Rightarrow> if i = 0 then decimal (unat b) @ units ! i else fixed2 v @ units ! i)"

definition formatSpeed :: "rat \<Rightarrow> string" where
  "formatSpeed bps = formatBytes (of_int \<lfloor>if bps < 0 then 0 else bps\<rfloor>)"

section \<open>Lines\<close>

text \<open>\<^verbatim>\<open>%-12s\<close> and its like, on texts without wide characters.\<close>

definition pad_right :: "nat \<Rightarrow> string \<Rightarrow> string" where
  "pad_right n s = s @ replicate (n - length s) CHR '' ''"

definition client_line :: "traffic_stats \<Rightarrow> string" where
  "client_line st =
     [CHR 0x0D, CHR 0x1B] @ ''[2K[Client] Up: '' @ pad_right 12 (formatSpeed (rate_value (ts_upRate st)) @ ''/s'') @
     '' Down: '' @ pad_right 12 (formatSpeed (rate_value (ts_downRate st)) @ ''/s'') @
     '' Used Up: '' @ pad_right 12 (formatBytes (ts_up st)) @
     '' Used Down: '' @ pad_right 12 (formatBytes (ts_down st))"

definition peer_lines :: "nat \<Rightarrow> peer_traffic_info \<Rightarrow> string" where
  "peer_lines n p =
     decimal n @ '') device='' @ pad_right 18 (shortConsoleID (pt_device p)) @ '' ip='' @ pad_right 15 (pt_ip p) @
     '' remote='' @ pad_right 22 (pt_remote p) @ [CHR 0x0A] @
     ''   Up: '' @ pad_right 12 (formatSpeed (rate_value (ts_upRate (pt_stats p))) @ ''/s'') @
     '' Down: '' @ pad_right 12 (formatSpeed (rate_value (ts_downRate (pt_stats p))) @ ''/s'') @
     '' UsedUp: '' @ pad_right 12 (formatBytes (ts_up (pt_stats p))) @
     '' UsedDown: '' @ pad_right 12 (formatBytes (ts_down (pt_stats p))) @ [CHR 0x0A]"

definition server_screen :: "peer_traffic_info list \<Rightarrow> string" where
  "server_screen peers =
     (if length peers = 0 then []
      else [CHR 0x1B] @ ''[2J'' @ [CHR 0x1B] @ ''[H'' @
        concat (map (\<lambda>(i, p). peer_lines (i + 1) p) (enumerate 0 peers)))"

section \<open>What is printed is close to the number\<close>

lemma round_even_close: "\<bar>of_int (round_even x) - x\<bar> \<le> 1 / 2"
proof -
  define d where "d = x - of_int \<lfloor>x\<rfloor>"
  have "0 \<le> d" "d < 1" "x = of_int \<lfloor>x\<rfloor> + d"
    using floor_correct [of x] by (simp_all add: d_def algebra_simps)
  then show ?thesis by (auto simp: round_even_def Let_def abs_if)
qed

lemma round_even_int [simp]: "round_even (of_int z) = z"
  by (simp add: round_even_def)

lemma round_even_nonneg: "0 \<le> x \<Longrightarrow> 0 \<le> round_even x"
  by (auto simp: round_even_def Let_def)

lemma scale_exact:
  assumes "scale v i = (w, j)" and "i \<le> length units - 1"
  shows "i \<le> j \<and> j \<le> length units - 1 \<and> v = w * 1024 ^ (j - i) \<and>
    (j < length units - 1 \<longrightarrow> w < 1024) \<and> (i < j \<longrightarrow> 1 \<le> w)"
  using assms
proof (induction v i arbitrary: w j rule: scale.induct)
  case (1 v i)
  show ?case
  proof (cases "1024 \<le> v \<and> i < length units - 1")
    case True
    with "1.prems"(1) have s: "scale (v / 1024) (i + 1) = (w, j)" by (simp add: scale.simps [of v i])
    from "1.IH" [OF True s] True have h: "i + 1 \<le> j" "j \<le> length units - 1" "v / 1024 = w * 1024 ^ (j - (i + 1))"
      "j < length units - 1 \<longrightarrow> w < 1024" "i + 1 < j \<longrightarrow> 1 \<le> w" by auto
    have "j - i = Suc (j - (i + 1))" using h(1) by simp
    then have v: "v = w * 1024 ^ (j - i)" using h(3) by simp
    have "1 \<le> w"
    proof (cases "i + 1 < j")
      case False
      with h(1) have "j = i + 1" by simp
      with v True show ?thesis by simp
    qed (use h(5) in blast)
    with h v show ?thesis by simp
  next
    case False
    with 1 show ?thesis by (auto simp: scale.simps [of v i])
  qed
qed

text \<open>The rounding of a whole number.\<close>

lemma two_to_add: "two_to (int a - int b) = 2 ^ a / 2 ^ b"
proof (cases "b \<le> a")
  case True
  then have "nat (int a - int b) = a - b" by simp
  with True show ?thesis by (simp add: two_to_def power_diff)
next
  case False
  then have "nat (- (int a - int b)) = b - a" by simp
  with False show ?thesis by (simp add: two_to_def power_diff)
qed

lemma lead_nat:
  assumes "0 < b"
  shows "\<exists>e. lead (of_nat b) = int e \<and> 2 ^ e \<le> b"
proof -
  define e where "e = floorlog 2 b - 1"
  have f: "floorlog 2 b = Suc e" using assms by (simp add: e_def floorlog_def)
  have le: "2 ^ e \<le> b" using floorlog_bounds [of b 2] assms by (simp add: f)
  have one: "floorlog 2 1 = Suc 0" by (simp add: floorlog_def)
  have q: "quotient_of (of_nat b) = (int b, 1)"
    using quotient_of_int [of "int b"] by (simp add: of_rat_of_nat_eq)
  have "two_to (int e) \<le> (of_nat b :: rat)"
    using le by (simp add: two_to_def)
  then have "lead (of_nat b) = int e" using f one by (simp add: lead_def q Let_def)
  with le show ?thesis by blast
qed

lemma f64_nat:
  "\<bar>f64 (of_nat b) - of_nat b\<bar> \<le> of_nat b / 2 ^ 53"
proof (cases "b = 0")
  case False
  then obtain e where e: "lead (of_nat b) = int e" "2 ^ e \<le> b" using lead_nat by blast
  define u :: rat where "u = 2 ^ e / 2 ^ 52"
  have u: "two_to (lead (of_nat b) - 52) = u" "0 < u"
    using two_to_add [of e 52] by (simp_all add: u_def e(1))
  have "\<bar>f64 (of_nat b) - of_nat b\<bar> = \<bar>of_int (round_even (of_nat b / u)) - of_nat b / u\<bar> * u"
    using False u abs_mult [of "of_int (round_even (of_nat b / u)) - of_nat b / u" u]
    by (simp add: f64_def Let_def left_diff_distrib)
  also have "\<dots> \<le> 1 / 2 * u"
    using round_even_close u(2) by (intro mult_right_mono) simp_all
  also have "\<dots> \<le> of_nat b / 2 ^ 53"
  proof -
    have "(2 :: rat) ^ e \<le> of_nat b" using e(2) by (metis of_nat_le_iff of_nat_numeral of_nat_power)
    then show ?thesis by (simp add: u_def)
  qed
  finally show ?thesis .
qed (simp add: f64_def)

lemma f64_exact:
  assumes "b < 2 ^ 53"
  shows "f64 (of_nat b) = of_nat b"
proof (cases "b = 0")
  case False
  then obtain e where e: "lead (of_nat b) = int e" "2 ^ e \<le> b" using lead_nat by blast
  have "(2 :: nat) ^ e < 2 ^ 53" using e(2) assms by (rule order.strict_trans1)
  then have "e \<le> 52" by (simp del: power_numeral)
  then obtain k where k: "52 = e + k" using le_Suc_ex by blast
  define u :: rat where "u = 1 / 2 ^ k"
  have u: "two_to (lead (of_nat b) - 52) = u"
  proof -
    have "lead (of_nat b) - 52 = - int k" using k by (simp add: e(1))
    then show ?thesis by (auto simp: u_def two_to_def)
  qed
  have "of_nat b / u = (of_int (int b * 2 ^ k) :: rat)" by (simp add: u_def)
  then have "round_even (of_nat b / u) = int b * 2 ^ k" by (simp only: round_even_int)
  with False show ?thesis by (simp only: f64_def Let_def u) (simp add: u_def)
qed (simp add: f64_def)

lemma f64_nonneg: "0 \<le> f64 x"
proof (cases "x \<le> 0")
  case False
  have "0 < two_to (lead x - 52)" by (simp add: two_to_def)
  with False round_even_nonneg [of "x / two_to (lead x - 52)"] show ?thesis
    by (simp add: f64_def Let_def)
qed (simp add: f64_def)

lemma length_units: "length units = 5" by (simp add: units_def)

text \<open>The hundredths that are printed, and the amounts printed in full.\<close>

lemma hundredths:
  assumes "0 \<le> (w :: rat)" and "q = nat (round_even (100 * w))"
  shows "\<bar>of_nat q - 100 * w\<bar> \<le> 1 / 2" and "1 \<le> w \<Longrightarrow> 100 \<le> q" and "w < 1024 \<Longrightarrow> q \<le> 102400"
proof -
  have "of_int (round_even (100 * w)) = (of_nat q :: rat)"
    using round_even_nonneg [of "100 * w"] assms by simp
  then show c: "\<bar>of_nat q - 100 * w\<bar> \<le> 1 / 2" using round_even_close [of "100 * w"] by simp
  show "100 \<le> q" if "1 \<le> w"
  proof -
    from c that have "99 < (of_nat q :: rat)" by linarith
    then have "of_nat 99 < (of_nat q :: rat)" by (simp only: of_nat_numeral)
    then show ?thesis unfolding of_nat_less_iff by simp
  qed
  show "q \<le> 102400" if "w < 1024"
  proof -
    from c that have "(of_nat q :: rat) < 102401" by linarith
    then have "(of_nat q :: rat) < of_nat 102401" by (simp only: of_nat_numeral)
    then show ?thesis unfolding of_nat_less_iff by simp
  qed
qed

lemma f64_small: "f64 (of_nat n) < 1024 \<Longrightarrow> n < 1024"
proof (cases "n < 2 ^ 53")
  case True
  assume "f64 (of_nat n) < 1024"
  then have "of_nat n < (of_nat 1024 :: rat)" unfolding f64_exact [OF True] by (simp only: of_nat_numeral)
  then show ?thesis unfolding of_nat_less_iff .
next
  case False
  assume v: "f64 (of_nat n) < 1024"
  from False have "(2 :: rat) ^ 53 \<le> of_nat n" by (metis not_less of_nat_le_iff of_nat_numeral of_nat_power)
  with f64_nat [of n] v show ?thesis by (simp add: abs_if split: if_splits)
qed

text \<open>
  What is printed for an amount is the amount. \<^verbatim>\<open>formatBytes\<close> prints amounts below 1024 in full
  and others in hundredths of the unit \<open>j\<close>, at least one and, except for the last unit, at most
  1024 of them; the number shown differs from the amount by no more than half a hundredth of the
  unit and the rounding of \<^verbatim>\<open>float64\<close>.
\<close>

theorem bytes_shown_closely:
  "\<exists>q j. formatBytes b =
       (if j = 0 then decimal (unat b) @ ''B''
        else (decimal (q div 100) @ ''.'' @ [digit_char (q mod 100 div 10), digit_char (q mod 10)]) @ units ! j) \<and>
     j \<le> 4 \<and> (j = 0 \<longrightarrow> unat b < 1024) \<and> (0 < j \<longrightarrow> 100 \<le> q) \<and> (j < 4 \<longrightarrow> q \<le> 102400) \<and>
     \<bar>of_nat q * 1024 ^ j / 100 - of_nat (unat b)\<bar> \<le> 1024 ^ j / 200 + of_nat (unat b) / (2 ^ 53 :: rat)"
proof -
  define v where "v = f64 (of_nat (unat b))"
  obtain w j where s: "scale v 0 = (w, j)" by fastforce
  note e = scale_exact [OF s, simplified length_units, simplified]
  define q where "q = nat (round_even (100 * w))"
  have v0: "0 \<le> v" by (simp add: v_def f64_nonneg)
  have "0 \<le> w" using e v0 mult_neg_pos [of w "1024 ^ j"] by (cases "w < 0") auto
  note q = hundredths [OF this q_def]
  have "of_nat q * 1024 ^ j / 100 - v = (of_nat q - 100 * w) * (1024 ^ j / 100)"
    using e by (simp add: field_simps)
  then have "\<bar>of_nat q * 1024 ^ j / 100 - v\<bar> = \<bar>of_nat q - 100 * w\<bar> * (1024 ^ j / 100)"
    by (simp only: abs_mult) simp
  also have "\<dots> \<le> 1 / 2 * (1024 ^ j / 100)" using q(1) by (intro mult_right_mono) simp_all
  finally have "\<bar>of_nat q * 1024 ^ j / 100 - v\<bar> \<le> 1024 ^ j / 200" by simp
  with f64_nat [of "unat b"] have close: "\<bar>of_nat q * 1024 ^ j / 100 - of_nat (unat b)\<bar> \<le>
      1024 ^ j / 200 + of_nat (unat b) / (2 ^ 53 :: rat)" unfolding v_def [symmetric] by linarith
  have "0 < j \<longrightarrow> 100 \<le> q" "j < 4 \<longrightarrow> q \<le> 102400" "j \<le> 4" using e q(2,3) by blast+
  moreover have "j = 0 \<longrightarrow> unat b < 1024" using e f64_small [of "unat b"] unfolding v_def by auto
  moreover have "formatBytes b =
       (if j = 0 then decimal (unat b) @ ''B''
        else (decimal (q div 100) @ ''.'' @ [digit_char (q mod 100 div 10), digit_char (q mod 10)]) @ units ! j)"
    unfolding formatBytes_def v_def [symmetric] s prod.case
    by (simp add: fixed2_def q_def [symmetric] Let_def units_def)
  ultimately show ?thesis using close by - (intro exI [of _ q] exI [of _ j] conjI; assumption)
qed

text \<open>One byte less than a megabyte is shown as 1024 kilobytes.\<close>

theorem bytes_shown_closely_witness:
  "formatBytes 1048575 = ''1024.00KB'' \<and>
   (\<exists>q j. formatBytes 1048575 = (decimal (q div 100) @ ''.'' @ [digit_char (q mod 100 div 10), digit_char (q mod 10)])
       @ units ! j \<and> 0 < j \<and> 100 \<le> q)"
proof -
  have digits: "digit_char 0 = CHR ''0''" "digit_char (Suc 0) = CHR ''1''" "digit_char 2 = CHR ''2''"
    "digit_char 4 = CHR ''4''" by code_simp+
  have b: "unat (1048575 :: 64 word) = 1048575" by simp
  have f: "f64 (of_nat 1048575) = 1048575" using f64_exact [of 1048575] by simp
  have "scale 1048575 0 = (1048575 / 1024, 1)" by (simp add: scale.simps units_def)
  moreover have "\<lfloor>26214375 / 256 :: rat\<rfloor> = 102399" by (simp add: floor_eq_iff)
  then have r: "round_even (100 * (1048575 / 1024)) = 102400" by (simp add: round_even_def Let_def)
  ultimately have p: "formatBytes 1048575 = ''1024.00KB''"
    unfolding formatBytes_def b f
    by (simp add: fixed2_def Let_def units_def decimal.simps digits)
  from bytes_shown_closely [of 1048575] obtain q j where q: "formatBytes 1048575 =
       (if j = 0 then decimal (unat (1048575 :: 64 word)) @ ''B''
        else (decimal (q div 100) @ ''.'' @ [digit_char (q mod 100 div 10), digit_char (q mod 10)]) @ units ! j)"
    "j = 0 \<longrightarrow> unat (1048575 :: 64 word) < 1024" "0 < j \<longrightarrow> 100 \<le> q" by blast
  from q(2) b have "0 < j" by (cases j) simp_all
  with q p show ?thesis by auto
qed

end
