(* ===== verification/Spec2Isabelle.thy ===== *)
theory Spec2Isabelle
  imports Mobile_Sessions Program Listener Desktop_Link End_To_End Tun_Windows Console
begin

text \<open>
  A verification development of LwyV-Net, a private network over an encrypted TCP tunnel, written
  in Go. A server authenticates clients, leases them virtual addresses and forwards their IP
  packets to each other and to its own network; a client (desktop or Android) keeps a connection
  to the server, gets an address and moves packets between its TUN device and the tunnel.

  \<^bold>\<open>How the parts interact.\<close> The package \<^verbatim>\<open>tcpx\<close> turns a TCP connection into a sequence of encrypted
  messages and calls the program back (\<^verbatim>\<open>OnConnect\<close>, \<^verbatim>\<open>OnMessage\<close>, \<^verbatim>\<open>OnDisconnect\<close>). The package \<^verbatim>\<open>vlan\<close>
  is called back on both ends: a message is one byte of type and a payload (\<^verbatim>\<open>Pack\<close>, \<^verbatim>\<open>Unpack\<close>); the
  client sends a proof of its identity, asks for an address with a message of \<^verbatim>\<open>vdhcp\<close>, and then
  sends and receives IP packets. The server keeps its leases in a \<^verbatim>\<open>vdhcp.Manager\<close>; both use
  \<^verbatim>\<open>tunSetup\<close> for the TUN device, routes and address translation. \<^verbatim>\<open>config\<close> loads the two JSON files,
  \<^verbatim>\<open>main.go\<close> starts and stops a server or a client, and \<^verbatim>\<open>mobile\<close> is the client for Android, with its
  own copy of the protocol.

  \<^bold>\<open>Theories, from the bottom.\<close>

  \<^item> \<open>Prelude\<close>, \<open>Go_Text\<close>, \<open>Net_IP\<close>: bytes, big-endian words, the functions of Go's \<^verbatim>\<open>strings\<close>,
    \<^verbatim>\<open>strconv\<close>, \<^verbatim>\<open>hex\<close>, \<^verbatim>\<open>base64\<close> and \<^verbatim>\<open>net\<close> that the program calls, lemma collections, and the locale
    \<open>framed_stream\<close> of self-delimiting encodings. \<open>Net_IP\<close> has the helpers \<^verbatim>\<open>ipToUint32\<close> and
    \<^verbatim>\<open>MaskToPrefix\<close> that several packages repeat.
  \<^item> \<open>Hkdf\<close> (\<^verbatim>\<open>tcpx/hkdf.go\<close>): key derivation over the record \<open>crypto\<close> of the primitives of Go's
    \<^verbatim>\<open>crypto\<close> tree, which are parameters with their documented laws.
  \<^item> \<open>Keys\<close> (\<^verbatim>\<open>tcpx/keys.go\<close>): the texts of X25519 keys.
  \<^item> \<open>Frame\<close> (\<^verbatim>\<open>tcpx/errors.go\<close>, \<^verbatim>\<open>config.go\<close>, \<^verbatim>\<open>frame.go\<close>): the record \<open>net_conn\<close> is a network connection
    with what is still to come, what has been written and how much it takes; \<open>writeFrame\<close>, \<open>readFrame\<close>.
  \<^item> \<open>Replay\<close> (\<^verbatim>\<open>tcpx/replay.go\<close>): the replay window, as an implementation of the locales
    \<open>replay_filter\<close> and \<open>live_replay_filter\<close>, whose abstract state is the set of accepted numbers.
  \<^item> \<open>Secure_Conn\<close>, \<open>Secure_Channel\<close> (\<^verbatim>\<open>tcpx/secure_conn.go\<close>): the operations of a \<^verbatim>\<open>SecureConn\<close>, and what
    two ends guarantee together: delivery in order over key rotations, no record accepted twice.
  \<^item> \<open>Handshake\<close> (\<^verbatim>\<open>tcpx/handshake.go\<close>): the two sides of the key exchange.
  \<^item> \<open>Transport\<close>, \<open>Listener\<close> (\<^verbatim>\<open>tcpx/server.go\<close>): what happens to an accepted connection, with the callbacks of
    the program as arguments; and listening, accepting and closing.
  \<^item> \<open>Reconnect\<close> (\<^verbatim>\<open>tcpx/client.go\<close>, \<^verbatim>\<open>utils.go\<close>): the loop that keeps a client connected, as a machine
    whose events are the answers of the network, the timers and the other goroutines.
  \<^item> \<open>Transport_User\<close>: the locale of a program called back by \<open>Reconnect\<close>, interpreted by both clients.
  \<^item> \<open>Dhcp_Message\<close>, \<open>Dhcp_Manager\<close> (\<^verbatim>\<open>vdhcp/dhcp.go\<close>, \<^verbatim>\<open>manager.go\<close>): requests and offers over a JSON
    codec that is a parameter; the pool of addresses, as an implementation of the locale
    \<open>address_pool\<close>.
  \<^item> \<open>Config\<close>, \<open>Config_File\<close> (\<^verbatim>\<open>config/schema.go\<close>, \<^verbatim>\<open>config.go\<close>): defaults, validation, key generation; and
    loading from a file, which is patched when it has no key.
  \<^item> \<open>App_Protocol\<close> (\<^verbatim>\<open>vlan/protocol.go\<close>, \<^verbatim>\<open>state.go\<close>, \<^verbatim>\<open>auth.go\<close>), \<open>Peers\<close> (\<^verbatim>\<open>vlan/peer.go\<close>,
    \<^verbatim>\<open>management_events.go\<close>): message types, address classes, traffic counters, the proof of identity;
    the server's peers, their registry and the log of events.
  \<^item> \<open>Vlan_Server\<close>, \<open>Server_Safety\<close>, \<open>Server_Delivery\<close>, \<open>Server_Admin\<close>, \<open>Server_Start\<close> (\<^verbatim>\<open>vlan/server.go\<close>,
    \<^verbatim>\<open>events.go\<close>, \<^verbatim>\<open>management.go\<close>): the server as a record \<open>server\<close> with one function per handler and the
    step function \<open>server_step\<close>; its invariant and the safety of forwarding; delivery; the management
    interface; start, stop and their interleaving.
  \<^item> \<open>Vlan_Client\<close>, \<open>Client_Safety\<close>, \<open>Sessions\<close>, \<open>Desktop_Link\<close> (\<^verbatim>\<open>vlan/client.go\<close>): the desktop client in the same way;
    client and server together; the client on top of \<open>Reconnect\<close>.
  \<^item> \<open>Tun_Commands\<close>, \<open>Tun_Routes\<close>, \<open>Tun_NAT\<close>, \<open>Tun_Windows\<close>, \<open>Tun_Tunnel\<close> (\<^verbatim>\<open>tunSetup\<close>): the commands run on
    the host, as a log over the record \<open>host_env\<close> that says which succeed and what they print; the
    effect of that log on routes and iptables rules; the queues in front of the device.
  \<^item> \<open>Mobile_Protocol\<close>, \<open>Mobile_Client\<close>, \<open>Mobile_Safety\<close>, \<open>Mobile_Link\<close>, \<open>Mobile_Sessions\<close> (\<^verbatim>\<open>mobile\<close>): the client
    for Android: its copies of the protocol, its operations and steps, its invariant, on top of
    \<open>Reconnect\<close>, and together with the server.
  \<^item> \<open>End_To_End\<close>: a packet on its way from the device of one client over the server to that of another.
  \<^item> \<open>Program\<close>, \<open>Console\<close> (\<^verbatim>\<open>main.go\<close>): starting a server or a client from its file; run mode, printed keys
    and traffic lines.

  \<^bold>\<open>Conventions.\<close> A Go struct is a record, a pointer to a shared struct is an index into a list of
  all of them, a map is an association list without duplicate keys, an error is a value of a
  datatype in \<^verbatim>\<open>Inl\<close> or in an option. A handler that runs under a mutex is one step; a handler that
  waits (a full queue) has no step, which is \<open>None\<close>. Clocks, random bytes and choices of \<^verbatim>\<open>select\<close> are
  arguments. The sequences of steps are \<open>server_run\<close>, \<open>client_run\<close>, \<open>mobile_run\<close> and
  \<open>tc_steps\<close>; the invariants hold in every state they reach. Words have the width of the code:
  64-bit sequence numbers and counters, 32-bit addresses and frame lengths, 8-bit bytes.

  \<^bold>\<open>What the groups of lemmas show.\<close> The channel delivers what was written, in order, and accepts no
  record twice, whatever an attacker feeds it; the handshake agrees on keys. The manager never gives
  an address to two clients, and reports exhaustion only when nothing is free. The server forwards a
  packet only for an authenticated client whose own address is its source, and delivers it in order;
  its management interface answers only who is authorized. A client forwards only in a ready session,
  becomes ready in one exchange with a server that agrees on the keys, and takes its routes back.
  Starting and stopping a server leaves the host as it was. Where the code does not do
  what it means to, a theorem states what it does: a recorded session is accepted again on a new
  connection; the end of an old connection frees the address of the new one; a restarted client
  drops its packets; some failures leave routes or rules behind; a gateway's text reaches PowerShell
  unescaped.

  \<^bold>\<open>Bounds and fuel.\<close> The only fuel is that of \<open>hkdf_loop\<close>, the number of bytes asked for: each turn
  gives at least one, and \<open>hkdf_loop_mono\<close> shows that more fuel changes nothing. The reading loops of
  \<open>Secure_Conn\<close> and \<open>Transport\<close> terminate by a measure on the bytes still to come. Queues have the
  capacities of the code; the room of a network connection is a number in its record.

  \<^bold>\<open>Parameters.\<close> X25519, HMAC, AES-GCM, the JSON codec, the parser of IPv4 headers, the commands of the
  host (\<^verbatim>\<open>ip\<close>, \<^verbatim>\<open>iptables\<close>, \<^verbatim>\<open>sysctl\<close>, PowerShell), the TUN device and the files are arguments of the model.
  What a property uses of them is a named predicate on the argument, such as \<open>aead_ok\<close>, \<open>json_ok\<close>
  or \<open>iptables_ok\<close>, with an instance in the witnesses.

  \<^bold>\<open>Not modelled.\<close> The opening of \<^verbatim>\<open>/dev/net/tun\<close> and of the wintun device (system calls); the HTTP
  server and the JSON text of the management answers (library code); what PowerShell does with a
  script, whose text is modelled byte for byte; logging, flags and the terminal; \<^verbatim>\<open>mobile/tun_stub.go\<close>
  (it returns errors only) and \<^verbatim>\<open>mobile_tools.go\<close> (an import). Handlers of different connections that
  the code runs at the same time are interleaved at the granularity of the handlers' critical
  sections as described in each theory.
\<close>

end
